(* ===== verification/Nebula_Prelude.thy ===== *)
theory Nebula_Prelude
  imports Main "HOL-Library.Word" "HOL-Library.Product_Lexorder"
begin

text \<open>
  Shared vocabulary of the development: Rust's fixed-width integers as words, byte strings,
  big-endian conversions (\<open>to_be_bytes\<close>, \<open>from_be_bytes\<close>), checked slices, the
  \<open>BinaryHeap\<close> of the standard library as an ordered list with its contract, and the two
  generic interfaces the components are stated against: codecs (an encoder and a decoder that
  inverts it) and additive matchers (a table whose matching is the union of what was added).
\<close>

unbundle bit_operations_syntax

named_theorems be_simps \<open>evaluation of big-endian conversions\<close>
named_theorems model_defs \<open>unfolding equations of the small operations of the model\<close>

section \<open>Machine integers and bytes\<close>

type_synonym u8 = "8 word"
type_synonym u16 = "16 word"
type_synonym u32 = "32 word"
type_synonym u64 = "64 word"
type_synonym u128 = "128 word"
type_synonym bytes = "8 word list"

text \<open>\<open>usize\<close> has 64 bits on the supported targets; sizes and positions are \<open>nat\<close>,
  and this bound is written out where the code checks it.\<close>

abbreviation usize_bound :: nat where
  "usize_bound \<equiv> 2 ^ 64"

fun to_be :: "nat \<Rightarrow> 'a::len word \<Rightarrow> bytes" where
  "to_be 0 w = []"
| "to_be (Suc n) w = ucast (drop_bit (8 * n) w) # to_be n w"

definition from_be :: "bytes \<Rightarrow> 'a::len word" where
  "from_be bs = foldl (\<lambda>a b. push_bit 8 a OR ucast b) 0 bs"

lemma length_to_be [simp, be_simps]: "length (to_be n w) = n"
  by (induction n) auto

lemma foldl_be_to_be:
  fixes a w :: "'a::len word"
  shows "foldl (\<lambda>a b. push_bit 8 a OR ucast b) a (to_be n w)
    = push_bit (8 * n) a OR take_bit (8 * n) w"
proof (induction n arbitrary: a)
  case 0
  show ?case by simp
next
  case (Suc n)
  have "push_bit (8 * n) (push_bit 8 a OR ucast (ucast (drop_bit (8 * n) w) :: u8))
      OR take_bit (8 * n) w = push_bit (8 * Suc n) a OR take_bit (8 * Suc n) w"
    by (rule bit_word_eqI) (auto simp: bit_simps ac_simps)
  with Suc show ?case by simp
qed

lemma from_be_to_be: "from_be (to_be n w) = take_bit (8 * n) w"
  by (simp add: from_be_def foldl_be_to_be)

lemma from_be_to_be_full [simp, be_simps]:
  fixes w :: "'a::len word"
  assumes "LENGTH('a) \<le> 8 * n"
  shows "from_be (to_be n w) = w"
  using assms by (simp add: from_be_to_be take_bit_word_eq_self)

lemma foldl_be_acc:
  fixes a :: "'a::len word"
  shows "foldl (\<lambda>a b. push_bit 8 a OR ucast b) a bs = push_bit (8 * length bs) a OR from_be bs"
proof (induction bs arbitrary: a)
  case Nil
  show ?case by (simp add: from_be_def)
next
  case (Cons b bs)
  have "from_be (b # bs) = push_bit (8 * length bs) (ucast b) OR (from_be bs :: 'a word)"
    using Cons [of "ucast b"] by (simp add: from_be_def)
  moreover have "push_bit (8 * length bs) (push_bit 8 a OR ucast b) OR from_be bs
      = push_bit (8 * length (b # bs)) a OR (push_bit (8 * length bs) (ucast b) OR from_be bs)"
    by (rule bit_word_eqI) (auto simp: bit_simps ac_simps)
  ultimately show ?case using Cons by simp
qed

lemma from_be_Nil [simp, be_simps]: "from_be [] = 0"
  by (simp add: from_be_def)

lemma from_be_Cons:
  "from_be (b # bs) = push_bit (8 * length bs) (ucast b) OR (from_be bs :: 'a::len word)"
  using foldl_be_acc [of "ucast b :: 'a word" bs] by (simp add: from_be_def)

lemma from_be_bound:
  "\<not> bit (from_be bs :: 'a::len word) i" if "8 * length bs \<le> i"
  using that
proof (induction bs)
  case (Cons b bs)
  then show ?case by (auto simp: from_be_Cons bit_simps dest: bit_imp_le_length)
qed simp

lemma to_be_drop_high:
  fixes v w :: "'a::len word"
  assumes "\<And>i. i < 8 * n \<Longrightarrow> bit v i = bit w i"
  shows "to_be n v = to_be n w"
  using assms
proof (induction n)
  case (Suc n)
  have "(ucast (drop_bit (8 * n) v) :: u8) = ucast (drop_bit (8 * n) w)"
    by (rule bit_word_eqI) (use Suc.prems in \<open>auto simp: bit_simps\<close>)
  with Suc show ?case by simp
qed simp

lemma to_be_from_be [simp]:
  assumes "length bs = n" and "8 * n \<le> LENGTH('a)"
  shows "to_be n (from_be bs :: 'a::len word) = bs"
  using assms
proof (induction bs arbitrary: n)
  case Nil
  then show ?case by simp
next
  case (Cons b bs)
  then obtain m where n: "n = Suc m" and m: "length bs = m" by auto
  have top: "(ucast (drop_bit (8 * m) (from_be (b # bs) :: 'a word)) :: u8) = b"
    by (rule bit_word_eqI)
      (use Cons.prems n m in \<open>auto simp: from_be_Cons bit_simps from_be_bound\<close>)
  have low: "to_be m (from_be (b # bs) :: 'a word) = to_be m (from_be bs :: 'a word)"
    by (rule to_be_drop_high) (use m in \<open>auto simp: from_be_Cons bit_simps\<close>)
  from Cons m n have "to_be m (from_be bs :: 'a word) = bs" by simp
  with top low n show ?case by simp
qed

lemma to_be_inj:
  fixes v w :: "'a::len word"
  assumes "LENGTH('a) \<le> 8 * n"
  shows "to_be n v = to_be n w \<longleftrightarrow> v = w"
  by (metis assms from_be_to_be_full)

text \<open>\<open>u16::from_be_bytes([hi, lo])\<close>, the two-byte case the packet parser uses.\<close>

definition be16 :: "u8 \<Rightarrow> u8 \<Rightarrow> u16" where
  "be16 hi lo = from_be [hi, lo]"

lemma be16_eval [be_simps]: "be16 hi lo = push_bit 8 (ucast hi) OR ucast lo"
  by (simp add: be16_def from_be_def)

lemma be16_to_be [simp]:
  "be16 (ucast (drop_bit 8 w)) (ucast w) = w"
  using from_be_to_be_full [of 2 w] by (simp add: be16_def numeral_2_eq_2)

lemma of_nat_u16_inj: "m < 65536 \<Longrightarrow> n < 65536 \<Longrightarrow> (of_nat m :: u16) = of_nat n \<longleftrightarrow> m = n"
  by (simp add: word_of_nat_eq_iff take_bit_nat_eq_self)

section \<open>Slices\<close>

text \<open>\<open>data.get(a..b)\<close>: \<open>None\<close> when the range leaves the slice.\<close>

definition get_range :: "'a list \<Rightarrow> nat \<Rightarrow> nat \<Rightarrow> 'a list option" where
  "get_range xs a b = (if a \<le> b \<and> b \<le> length xs then Some (take (b - a) (drop a xs)) else None)"

text \<open>\<open>data.get(i)\<close>, and indexing \<open>data[i]\<close>, whose out-of-range case is a panic: a
  computation that may panic has an \<open>option\<close> type with \<open>None\<close> for the panic.\<close>

definition get :: "'a list \<Rightarrow> nat \<Rightarrow> 'a option" where
  "get xs i = (if i < length xs then Some (xs ! i) else None)"

lemma get_simps [simp]:
  "get [] i = None"
  "get (x # xs) 0 = Some x"
  "get (x # xs) (Suc i) = get xs i"
  by (auto simp: get_def)

lemma get_eq_None_iff [simp]: "get xs i = None \<longleftrightarrow> length xs \<le> i"
  by (auto simp: get_def)

lemma get_Some_iff: "get xs i = Some x \<longleftrightarrow> i < length xs \<and> xs ! i = x"
  by (auto simp: get_def)

lemma get_in_range: "i < length xs \<Longrightarrow> get xs i = Some (xs ! i)"
  by (simp add: get_def)

lemma get_append: "get (xs @ ys) i = (if i < length xs then get xs i else get ys (i - length xs))"
  by (auto simp: get_def nth_append)

lemma get_range_append [simp]:
  "a = length xs \<Longrightarrow> b = length xs + length ys \<Longrightarrow> get_range (xs @ ys @ zs) a b = Some ys"
  by (simp add: get_range_def)

lemma length_get_range: "get_range xs a b = Some ys \<Longrightarrow> length ys = b - a"
  by (auto simp: get_range_def split: if_splits)

section \<open>The binary heap of the standard library\<close>

text \<open>
  \<open>BinaryHeap<Reverse<T>>\<close> promises that \<open>peek\<close> and \<open>pop\<close> give a least element and
  that the elements are those pushed and not yet popped. The model is the ordered list of the
  elements; the contract is the interface below, which is all the clients use.
\<close>

type_synonym 'a heap = "'a list"

definition heap_push :: "'a::linorder \<Rightarrow> 'a heap \<Rightarrow> 'a heap" where
  "heap_push x h = insort x h"

fun heap_peek :: "'a heap \<Rightarrow> 'a option" where
  "heap_peek [] = None"
| "heap_peek (x # h) = Some x"

fun heap_pop :: "'a heap \<Rightarrow> ('a \<times> 'a heap) option" where
  "heap_pop [] = None"
| "heap_pop (x # h) = Some (x, h)"

locale min_heap =
  fixes empty :: "'h"
    and push :: "'a::linorder \<Rightarrow> 'h \<Rightarrow> 'h"
    and peek :: "'h \<Rightarrow> 'a option"
    and pop :: "'h \<Rightarrow> ('a \<times> 'h) option"
    and invar :: "'h \<Rightarrow> bool"
    and elems :: "'h \<Rightarrow> 'a set"
  assumes elems_empty: "elems empty = {}"
    and elems_push: "invar h \<Longrightarrow> elems (push x h) = insert x (elems h)"
    and peek_None: "invar h \<Longrightarrow> peek h = None \<longleftrightarrow> elems h = {}"
    and peek_least: "invar h \<Longrightarrow> peek h = Some x \<Longrightarrow> x \<in> elems h \<and> (\<forall>y \<in> elems h. x \<le> y)"
    and pop_peek: "map_option fst (pop h) = peek h"
    and elems_pop: "invar h \<Longrightarrow> pop h = Some (x, h') \<Longrightarrow> elems h = insert x (elems h')"
    and invar_empty: "invar empty"
    and invar_push: "invar h \<Longrightarrow> invar (push x h)"
    and invar_pop: "invar h \<Longrightarrow> pop h = Some (x, h') \<Longrightarrow> invar h'"
begin

lemma pop_least: "invar h \<Longrightarrow> pop h = Some (x, h') \<Longrightarrow> y \<in> elems h \<Longrightarrow> x \<le> y"
  using pop_peek [of h] peek_least [of h x] by auto

lemma peek_above_all:
  assumes "invar h" and "case peek h of None \<Rightarrow> True | Some x \<Rightarrow> b < f x"
    and mono: "\<And>x y. x \<le> y \<Longrightarrow> f x \<le> (f y :: nat)" and "y \<in> elems h"
  shows "b < f y"
proof (cases "peek h")
  case None
  with assms show ?thesis using peek_None by auto
next
  case (Some x)
  with assms(1,4) have "x \<le> y" using peek_least by blast
  from mono [OF this] Some assms(2) show ?thesis by simp
qed

lemma elems_pop_subset: "invar h \<Longrightarrow> pop h = Some (x, h') \<Longrightarrow> elems h' \<subseteq> elems h"
  using elems_pop by blast

end

interpretation std_heap: min_heap "[]" heap_push heap_peek heap_pop sorted set
proof
  fix h :: "'a::linorder list" and x :: 'a
  show "heap_peek h = None \<longleftrightarrow> set h = {}" if "sorted h"
    by (cases h) auto
  show "x \<in> set h \<and> (\<forall>y \<in> set h. x \<le> y)" if "sorted h" "heap_peek h = Some x"
    using that by (cases h) auto
  show "map_option fst (heap_pop h) = heap_peek h"
    by (cases h) auto
next
  fix h h' :: "'a::linorder list" and x :: 'a
  assume pop: "heap_pop h = Some (x, h')" and srt: "sorted h"
  show "set h = insert x (set h')" using pop by (cases h) auto
  show "sorted h'" using pop srt by (cases h) auto
qed (auto simp: heap_push_def set_insort_key sorted_insort)

lemma filter_insort_key_False: "\<not> P x \<Longrightarrow> filter P (insort x xs) = filter P xs"
  by (induction xs) auto

section \<open>Codecs\<close>

text \<open>An encoder whose decoder inverts it on the valid values.\<close>

locale codec =
  fixes enc :: "'a \<Rightarrow> 'b"
    and dec :: "'b \<Rightarrow> 'a option"
    and valid :: "'a \<Rightarrow> bool"
  assumes dec_enc: "valid x \<Longrightarrow> dec (enc x) = Some x"
begin

lemma enc_inj: "valid x \<Longrightarrow> valid y \<Longrightarrow> enc x = enc y \<longleftrightarrow> x = y"
  using dec_enc by (metis option.inject)

lemma inj_on_enc: "inj_on enc {x. valid x}"
  by (rule inj_onI) (simp add: enc_inj)

lemma map_enc_inj:
  "\<forall>x \<in> set xs. valid x \<Longrightarrow> \<forall>y \<in> set ys. valid y \<Longrightarrow> map enc xs = map enc ys \<longleftrightarrow> xs = ys"
  by (rule inj_on_map_eq_map [OF inj_on_subset [OF inj_on_enc]]) auto

end

section \<open>Additive matchers\<close>

text \<open>
  A rule table: adding a rule widens what the table matches by exactly what the rule matches.
  The tables of the firewall's rule tree are all of this kind, each resting on the one below.
\<close>

locale additive_matcher =
  fixes empty :: "'t"
    and add :: "'r \<Rightarrow> 't \<Rightarrow> 't"
    and matches :: "'t \<Rightarrow> 'q \<Rightarrow> bool"
    and denotes :: "'r \<Rightarrow> 'q \<Rightarrow> bool"
    and invar :: "'t \<Rightarrow> bool"
  assumes matches_empty: "\<not> matches empty q"
    and invar_empty: "invar empty"
    and invar_add: "invar t \<Longrightarrow> invar (add r t)"
    and matches_add: "invar t \<Longrightarrow> matches (add r t) q \<longleftrightarrow> matches t q \<or> denotes r q"
begin

lemma matches_fold:
  "invar t \<Longrightarrow> matches (fold add rs t) q \<longleftrightarrow> matches t q \<or> (\<exists>r \<in> set rs. denotes r q)"
  by (induction rs arbitrary: t) (auto simp: matches_add invar_add)

lemma matches_built: "matches (fold add rs empty) q \<longleftrightarrow> (\<exists>r \<in> set rs. denotes r q)"
  by (simp add: matches_fold matches_empty invar_empty)

lemma matches_single: "matches (add r empty) q \<longleftrightarrow> denotes r q"
  by (simp add: matches_add matches_empty invar_empty)

lemma matches_option_default:
  "(\<And>v. x = Some v \<Longrightarrow> invar v) \<Longrightarrow>
   matches (add r (case x of Some v \<Rightarrow> v | None \<Rightarrow> empty)) q \<longleftrightarrow>
     (\<exists>v. x = Some v \<and> matches v q) \<or> denotes r q"
  by (cases x) (auto simp: matches_add matches_empty invar_empty)

end

section \<open>Transition systems\<close>

text \<open>An invariant of a step relation holds in every state reachable from an initial one.\<close>

locale transition_invariant =
  fixes init :: "'s \<Rightarrow> bool"
    and step :: "'s \<Rightarrow> 's \<Rightarrow> bool"
    and inv :: "'s \<Rightarrow> bool"
  assumes inv_init: "init s \<Longrightarrow> inv s"
    and inv_step: "inv s \<Longrightarrow> step s s' \<Longrightarrow> inv s'"
begin

lemma steps_inv: "step\<^sup>*\<^sup>* s s' \<Longrightarrow> inv s \<Longrightarrow> inv s'"
  by (induction rule: rtranclp_induct) (auto intro: inv_step)

lemma reachable_inv: "init s \<Longrightarrow> step\<^sup>*\<^sup>* s s' \<Longrightarrow> inv s'"
  using steps_inv inv_init by blast

end

section \<open>Simulations\<close>

text \<open>A machine that may panic (\<open>None\<close>) simulates a total one when every step from related
  states gives the same output and related states; then so does every run.\<close>

fun run_machine :: "('s \<Rightarrow> 'i \<Rightarrow> ('o \<times> 's) option) \<Rightarrow> 's \<Rightarrow> 'i list \<Rightarrow> ('o list \<times> 's) option" where
  "run_machine step s [] = Some ([], s)"
| "run_machine step s (i # is) =
     (case step s i of
        None \<Rightarrow> None
      | Some (out, s') \<Rightarrow> map_option (\<lambda>(outs, s''). (out # outs, s'')) (run_machine step s' is))"

fun run_spec :: "('a \<Rightarrow> 'i \<Rightarrow> 'o \<times> 'a) \<Rightarrow> 'a \<Rightarrow> 'i list \<Rightarrow> 'o list \<times> 'a" where
  "run_spec astep a [] = ([], a)"
| "run_spec astep a (i # is) =
     (let (out, a') = astep a i; (outs, a'') = run_spec astep a' is in (out # outs, a''))"

locale simulation =
  fixes step :: "'s \<Rightarrow> 'i \<Rightarrow> ('o \<times> 's) option"
    and astep :: "'a \<Rightarrow> 'i \<Rightarrow> 'o \<times> 'a"
    and rel :: "'s \<Rightarrow> 'a \<Rightarrow> bool"
  assumes step_sim: "rel s a \<Longrightarrow> astep a i = (out, a') \<Longrightarrow> \<exists>s'. step s i = Some (out, s') \<and> rel s' a'"
begin

lemma run_sim:
  "rel s a \<Longrightarrow> \<exists>s'. run_machine step s is = Some (fst (run_spec astep a is), s') \<and>
     rel s' (snd (run_spec astep a is))"
proof (induction "is" arbitrary: s a)
  case (Cons i "is")
  obtain out a' where a': "astep a i = (out, a')" by (cases "astep a i")
  with step_sim [OF Cons.prems a'] Cons.IH show ?case
    by (fastforce simp: split_def Let_def)
qed simp

end

end
