(* ===== verification/Std_Net.thy ===== *)
theory Std_Net
  imports Nebula_Prelude
begin

text \<open>
  The addresses of \<open>std::net\<close> (IP and socket addresses, their octets, orders and the
  classification functions the code calls), and the interface of the third-party crate
  \<open>ipnet\<close>. The crate is not part of the repository: its operations are a record of
  parameters, and what its documentation promises is the predicate \<open>ipnet_laws\<close>.
\<close>

section \<open>IP and socket addresses\<close>

datatype ipaddr = V4 u32 | V6 u128

fun octets :: "ipaddr \<Rightarrow> bytes" where
  "octets (V4 a) = to_be 4 a"
| "octets (V6 a) = to_be 16 a"

fun max_prefix_len :: "ipaddr \<Rightarrow> u8" where
  "max_prefix_len (V4 _) = 32"
| "max_prefix_len (V6 _) = 128"

text \<open>\<open>SocketAddr\<close>; a V6 socket address also carries its flow label and scope id, which
  \<open>SocketAddr::new\<close> sets to zero.\<close>

datatype socketaddr = SockV4 u32 u16 | SockV6 u128 u16 u32 u32

fun socketaddr_new :: "ipaddr \<Rightarrow> u16 \<Rightarrow> socketaddr" where
  "socketaddr_new (V4 a) p = SockV4 a p"
| "socketaddr_new (V6 a) p = SockV6 a p 0 0"

definition to_ipv6_mapped :: "u32 \<Rightarrow> u128" where
  "to_ipv6_mapped a = push_bit 32 0xffff OR ucast a"

definition to_ipv4_mapped :: "u128 \<Rightarrow> u32 option" where
  "to_ipv4_mapped a = (if drop_bit 32 a = 0xffff then Some (ucast a) else None)"

fun is_multicast :: "ipaddr \<Rightarrow> bool" where
  "is_multicast (V4 a) = (drop_bit 28 a = 0xe)"
| "is_multicast (V6 a) = (drop_bit 120 a = 0xff)"

lemma join_low:
  fixes hi :: u128 and a :: u32
  shows "ucast (push_bit 32 hi OR ucast a) = a"
  by (rule bit_word_eqI) (auto simp: bit_simps)

lemma join_high:
  fixes hi :: u128 and a :: u32
  assumes "take_bit 96 hi = hi"
  shows "drop_bit 32 (push_bit 32 hi OR ucast a) = hi"
proof -
  have "drop_bit 32 (push_bit 32 hi OR ucast a) = take_bit 96 hi"
    by (rule bit_word_eqI) (auto simp: bit_simps dest: bit_imp_le_length)
  with assms show ?thesis by simp
qed

lemma split_join:
  fixes a :: u128
  shows "push_bit 32 (drop_bit 32 a) OR ucast (ucast a :: u32) = a"
  by (rule bit_word_eqI) (auto simp: bit_simps)

lemma to_ipv4_mapped_to_ipv6_mapped [simp]: "to_ipv4_mapped (to_ipv6_mapped a) = Some a"
  unfolding to_ipv4_mapped_def to_ipv6_mapped_def
  by (subst join_high) (simp_all only: join_low, simp_all)

lemma to_ipv4_mapped_Some:
  assumes "to_ipv4_mapped a = Some b"
  shows "to_ipv6_mapped b = a"
proof -
  from assms have hi: "drop_bit 32 a = 0xffff" and b: "b = ucast a"
    by (auto simp: to_ipv4_mapped_def split: if_splits)
  show ?thesis
    unfolding to_ipv6_mapped_def b hi [symmetric] by (rule split_join)
qed

text \<open>The derived orders: \<open>V4\<close> addresses come before \<open>V6\<close> addresses.\<close>

instantiation ipaddr :: linorder
begin

fun less_eq_ipaddr :: "ipaddr \<Rightarrow> ipaddr \<Rightarrow> bool" where
  "less_eq_ipaddr (V4 a) (V4 b) = (a \<le> b)"
| "less_eq_ipaddr (V4 a) (V6 b) = True"
| "less_eq_ipaddr (V6 a) (V4 b) = False"
| "less_eq_ipaddr (V6 a) (V6 b) = (a \<le> b)"

definition less_ipaddr :: "ipaddr \<Rightarrow> ipaddr \<Rightarrow> bool" where
  "less_ipaddr a b = (a \<le> b \<and> \<not> b \<le> a)"

instance
proof
  fix a b c :: ipaddr
  show "a \<le> a" by (cases a) auto
  show "a \<le> b \<Longrightarrow> b \<le> c \<Longrightarrow> a \<le> c" by (cases a; cases b; cases c) auto
  show "a \<le> b \<Longrightarrow> b \<le> a \<Longrightarrow> a = b" by (cases a; cases b) auto
  show "a \<le> b \<or> b \<le> a" by (cases a; cases b) auto
qed (simp add: less_ipaddr_def)

end

section \<open>The interface of the ipnet crate\<close>

text \<open>
  \<open>IpNet::new\<close> (\<open>None\<close> for its \<open>PrefixLenError\<close>), \<open>addr\<close>, \<open>prefix_len\<close>,
  \<open>max_prefix_len\<close> and \<open>contains\<close>. Equality of networks is the equality of the
  parameter type.
\<close>

record 'net ipnet_ops =
  net_new :: "ipaddr \<Rightarrow> u8 \<Rightarrow> 'net option"
  net_addr :: "'net \<Rightarrow> ipaddr"
  net_prefix_len :: "'net \<Rightarrow> u8"
  net_max_prefix_len :: "'net \<Rightarrow> u8"
  net_contains :: "'net \<Rightarrow> ipaddr \<Rightarrow> bool"

text \<open>The addresses that agree with \<open>a\<close> on the first \<open>p\<close> bits, in the same family.\<close>

fun in_prefix :: "ipaddr \<Rightarrow> nat \<Rightarrow> ipaddr \<Rightarrow> bool" where
  "in_prefix (V4 a) p (V4 b) = (drop_bit (32 - p) a = drop_bit (32 - p) b)"
| "in_prefix (V6 a) p (V6 b) = (drop_bit (128 - p) a = drop_bit (128 - p) b)"
| "in_prefix _ _ _ = False"

definition ipnet_laws :: "'net ipnet_ops \<Rightarrow> bool" where
  "ipnet_laws N \<longleftrightarrow>
     (\<forall>a p. net_new N a p = None \<longleftrightarrow> max_prefix_len a < p) \<and>
     (\<forall>a p n. net_new N a p = Some n \<longrightarrow> net_addr N n = a \<and> net_prefix_len N n = p) \<and>
     (\<forall>n. net_max_prefix_len N n = max_prefix_len (net_addr N n)) \<and>
     (\<forall>n b. net_contains N n b \<longleftrightarrow> in_prefix (net_addr N n) (unat (net_prefix_len N n)) b)"

lemma ipnet_lawsD:
  assumes "ipnet_laws N"
  shows ipnet_new_None: "net_new N a p = None \<longleftrightarrow> max_prefix_len a < p"
    and ipnet_new_addr: "net_new N a p = Some n \<Longrightarrow> net_addr N n = a"
    and ipnet_new_prefix: "net_new N a p = Some n \<Longrightarrow> net_prefix_len N n = p"
    and ipnet_max_prefix: "net_max_prefix_len N n = max_prefix_len (net_addr N n)"
    and ipnet_contains: "net_contains N n b \<longleftrightarrow> in_prefix (net_addr N n) (unat (net_prefix_len N n)) b"
  using assms by (auto simp: ipnet_laws_def)

lemma in_prefix_host [simp]: "in_prefix a (unat (max_prefix_len a)) b \<longleftrightarrow> b = a"
  by (cases a; cases b) auto

lemma in_prefix_zero: "in_prefix (V4 a) 0 (V4 b)" "in_prefix (V6 c) 0 (V6 d)"
  by (auto simp: drop_bit_word_beyond intro!: bit_word_eqI simp: bit_simps dest: bit_imp_le_length)

text \<open>A network whose prefix length is that of a host route contains only its own address.\<close>

lemma host_route_contains:
  assumes "ipnet_laws N" and "net_new N a (max_prefix_len a) = Some n"
  shows "net_contains N n b \<longleftrightarrow> b = a"
  using assms by (simp add: ipnet_contains ipnet_new_addr ipnet_new_prefix)

lemma host_route_exists:
  assumes "ipnet_laws N"
  obtains n where "net_new N a (max_prefix_len a) = Some n"
  using ipnet_new_None [OF assms, of a "max_prefix_len a"] by (cases "net_new N a (max_prefix_len a)") auto

text \<open>A model of the interface: a network is its address and prefix length.\<close>

definition cidr_ops :: "(ipaddr \<times> u8) ipnet_ops" where
  "cidr_ops = \<lparr> net_new = (\<lambda>a p. if max_prefix_len a < p then None else Some (a, p)),
     net_addr = fst, net_prefix_len = snd, net_max_prefix_len = (\<lambda>n. max_prefix_len (fst n)),
     net_contains = (\<lambda>n b. in_prefix (fst n) (unat (snd n)) b) \<rparr>"

lemma cidr_ops_laws: "ipnet_laws cidr_ops"
  by (simp add: ipnet_laws_def cidr_ops_def)

lemma cidr_ops_sel [simp]:
  "net_new cidr_ops a p = (if max_prefix_len a < p then None else Some (a, p))"
  "net_addr cidr_ops n = fst n"
  "net_max_prefix_len cidr_ops n = max_prefix_len (fst n)"
  "net_contains cidr_ops n b = in_prefix (fst n) (unat (snd n)) b"
  by (simp_all add: cidr_ops_def)

end
