(* ===== verification/Std_String.thy ===== *)
theory Std_String
  imports Nebula_Prelude
begin

text \<open>
  What the code uses of Rust's \<open>String\<close>: a string is its UTF-8 bytes (one \<open>char\<close> per
  byte), \<open>from_utf8\<close> checks them, and the number formats of \<open>format!\<close>.
\<close>

section \<open>UTF-8\<close>

definition as_bytes :: "string \<Rightarrow> bytes" where
  "as_bytes s = map (\<lambda>c. of_nat (of_char c)) s"

definition of_bytes :: "bytes \<Rightarrow> string" where
  "of_bytes bs = map (\<lambda>b. char_of (unat b)) bs"

definition continuation :: "u8 \<Rightarrow> bool" where
  "continuation b = (0x80 \<le> b \<and> b \<le> 0xBF)"

text \<open>The ranges of the second byte exclude overlong forms, surrogates and code points above
  U+10FFFF.\<close>

definition second_range :: "u8 \<Rightarrow> u8 \<times> u8" where
  "second_range b =
     (if b = 0xE0 then (0xA0, 0xBF) else if b = 0xED then (0x80, 0x9F)
      else if b = 0xF0 then (0x90, 0xBF) else if b = 0xF4 then (0x80, 0x8F) else (0x80, 0xBF))"

definition in_second_range :: "u8 \<Rightarrow> u8 \<Rightarrow> bool" where
  "in_second_range b c = (let (lo, hi) = second_range b in lo \<le> c \<and> c \<le> hi)"

fun utf8_valid :: "bytes \<Rightarrow> bool" where
  "utf8_valid [] = True"
| "utf8_valid (b # bs) =
     (if b < 0x80 then utf8_valid bs
      else if 0xC2 \<le> b \<and> b \<le> 0xDF then
        (case bs of c # bs \<Rightarrow> continuation c \<and> utf8_valid bs | _ \<Rightarrow> False)
      else if 0xE0 \<le> b \<and> b \<le> 0xEF then
        (case bs of c # d # bs \<Rightarrow> in_second_range b c \<and> continuation d \<and> utf8_valid bs | _ \<Rightarrow> False)
      else if 0xF0 \<le> b \<and> b \<le> 0xF4 then
        (case bs of c # d # e # bs \<Rightarrow>
           in_second_range b c \<and> continuation d \<and> continuation e \<and> utf8_valid bs | _ \<Rightarrow> False)
      else False)"

definition from_utf8 :: "bytes \<Rightarrow> string option" where
  "from_utf8 bs = (if utf8_valid bs then Some (of_bytes bs) else None)"

lemma of_bytes_as_bytes [simp]: "of_bytes (as_bytes s) = s"
  by (simp add: of_bytes_def as_bytes_def comp_def unat_of_nat)

lemma as_bytes_of_bytes [simp]: "as_bytes (of_bytes bs) = bs"
proof -
  have "(of_nat (of_char (char_of (unat b) :: char)) :: u8) = b" for b :: u8
  proof -
    have "unat b < 256" using unsigned_less [of b, where 'a = nat] by simp
    then show ?thesis by simp
  qed
  then show ?thesis by (simp add: of_bytes_def as_bytes_def comp_def)
qed

lemma length_as_bytes [simp]: "length (as_bytes s) = length s"
  by (simp add: as_bytes_def)

lemma from_utf8_as_bytes: "from_utf8 (as_bytes s) = (if utf8_valid (as_bytes s) then Some s else None)"
  by (simp add: from_utf8_def)

lemma from_utf8_valid: "from_utf8 bs = Some s \<longleftrightarrow> utf8_valid bs \<and> bs = as_bytes s"
  by (auto simp: from_utf8_def)

lemma utf8_valid_ascii: "(\<And>b. b \<in> set bs \<Longrightarrow> b < 0x80) \<Longrightarrow> utf8_valid bs"
  by (induction bs) auto

interpretation utf8: codec as_bytes from_utf8 "\<lambda>s. utf8_valid (as_bytes s)"
  by unfold_locales (simp add: from_utf8_as_bytes)

section \<open>Errors of I/O\<close>

text \<open>\<open>std::io::Error\<close>: an error number, and the errors the code makes itself, of kind
  \<open>InvalidInput\<close> or by \<open>io::Error::other\<close> from a text or from a task that panicked.\<close>

datatype io_error = OsError nat | InvalidInput string | IoOther string | TaskPanicked

section \<open>Numbers\<close>

definition digit :: "nat \<Rightarrow> char" where
  "digit n = (if n < 10 then char_of (48 + n) else char_of (87 + n))"

function digits :: "nat \<Rightarrow> nat \<Rightarrow> string" where
  "digits base n = (if n < base \<or> base < 2 then [digit n] else digits base (n div base) @ [digit (n mod base)])"
  by pat_completeness auto
termination
  by (relation "measure snd") auto

declare digits.simps [simp del]

definition show_dec :: "nat \<Rightarrow> string" where
  "show_dec n = digits 10 n"

definition show_hex :: "nat \<Rightarrow> string" where
  "show_hex n = ''0x'' @ digits 16 n"

end
