(* ===== verification/Std_Parse.thy ===== *)
theory Std_Parse
  imports Std_Net Std_String "HOL-Library.Monad_Syntax"
begin

text \<open>
  What the code uses of Rust's text processing: \<open>str::split\<close>, \<open>split_once\<close> and \<open>trim\<close>, and the
  \<open>FromStr\<close> parsers of \<open>IpAddr\<close> and \<open>SocketAddr\<close>. A parser of the standard library is a function
  from the input to a value and the rest of the input; \<open>None\<close> leaves the input where it was
  (\<open>read_atomically\<close>). The printed forms of IPv4 addresses and of port numbers parse back.
\<close>

section \<open>Strings\<close>

fun split_char :: "char \<Rightarrow> string \<Rightarrow> string list" where
  "split_char c [] = [[]]"
| "split_char c (x # xs) =
     (if x = c then [] # split_char c xs
      else (case split_char c xs of y # ys \<Rightarrow> (x # y) # ys | [] \<Rightarrow> [[x]]))"

fun split_once :: "char \<Rightarrow> string \<Rightarrow> (string \<times> string) option" where
  "split_once c [] = None"
| "split_once c (x # xs) =
     (if x = c then Some ([], xs) else map_option (\<lambda>(a, b). (x # a, b)) (split_once c xs))"

text \<open>The characters with the Unicode property \<open>White_Space\<close>, as UTF-8.\<close>

definition whitespace :: "string list" where
  "whitespace =
     [[CHR 0x09], [CHR 0x0A], [CHR 0x0B], [CHR 0x0C], [CHR 0x0D], [CHR 0x20], [CHR 0xC2, CHR 0x85], [CHR 0xC2, CHR 0xA0],
      [CHR 0xE1, CHR 0x9A, CHR 0x80]] @
     map (\<lambda>c. [CHR 0xE2, CHR 0x80, c]) [CHR 0x80, CHR 0x81, CHR 0x82, CHR 0x83, CHR 0x84, CHR 0x85, CHR 0x86, CHR 0x87,
       CHR 0x88, CHR 0x89, CHR 0x8A, CHR 0xA8, CHR 0xA9, CHR 0xAF] @
     [[CHR 0xE2, CHR 0x81, CHR 0x9F], [CHR 0xE3, CHR 0x80, CHR 0x80]]"

text \<open>Removing one of the given words from the front, as often as possible.\<close>

fun strip_prefix :: "string \<Rightarrow> string \<Rightarrow> string option" where
  "strip_prefix [] s = Some s"
| "strip_prefix (w # ws) [] = None"
| "strip_prefix (w # ws) (c # s) = (if w = c then strip_prefix ws s else None)"

fun strip_one :: "string list \<Rightarrow> string \<Rightarrow> string option" where
  "strip_one [] s = None"
| "strip_one (w # ws) s = (case strip_prefix w s of Some rest \<Rightarrow> Some rest | None \<Rightarrow> strip_one ws s)"

lemma strip_prefix_Some: "strip_prefix w s = Some rest \<longleftrightarrow> s = w @ rest"
  by (induction w s rule: strip_prefix.induct) auto

lemma strip_one_Some: "strip_one ws s = Some rest \<Longrightarrow> \<exists>w \<in> set ws. s = w @ rest"
  by (induction ws) (auto simp: strip_prefix_Some split: option.splits)

lemma strip_one_None: "strip_one ws s = None \<longleftrightarrow> (\<forall>w \<in> set ws. \<forall>rest. s \<noteq> w @ rest)"
proof -
  have "strip_prefix w s = None \<longleftrightarrow> (\<forall>rest. s \<noteq> w @ rest)" for w
    using strip_prefix_Some [of w s] by (metis not_Some_eq)
  then show ?thesis by (induction ws) (auto simp: strip_prefix_Some split: option.split)
qed

function strip_all :: "string list \<Rightarrow> string \<Rightarrow> string" where
  "strip_all ws s = (if [] \<in> set ws then s else case strip_one ws s of Some rest \<Rightarrow> strip_all ws rest | None \<Rightarrow> s)"
  by pat_completeness auto
termination
  by (relation "measure (\<lambda>(ws, s). length s)") (auto dest!: strip_one_Some)

declare strip_all.simps [simp del]

definition trim :: "string \<Rightarrow> string" where
  "trim s = rev (strip_all (map rev whitespace) (rev (strip_all whitespace s)))"

section \<open>The address parser\<close>

type_synonym 'a parser = "string \<Rightarrow> ('a \<times> string) option"

fun read_given_char :: "char \<Rightarrow> unit parser" where
  "read_given_char target [] = None"
| "read_given_char target (c # s) = (if c = target then Some ((), s) else None)"

text \<open>\<open>char::to_digit\<close> for the radixes 10 and 16.\<close>

definition to_digit :: "nat \<Rightarrow> char \<Rightarrow> nat option" where
  "to_digit radix c =
     (let n = of_char c;
          d = (if 48 \<le> n \<and> n \<le> 57 then Some (n - 48)
               else if 97 \<le> n \<and> n \<le> 122 then Some (n - 87)
               else if 65 \<le> n \<and> n \<le> 90 then Some (n - 55) else None)
      in case d of Some v \<Rightarrow> if v < radix then Some v else None | None \<Rightarrow> None)"

fun read_digits :: "nat \<Rightarrow> string \<Rightarrow> nat list \<times> string" where
  "read_digits radix [] = ([], [])"
| "read_digits radix (c # s) =
     (case to_digit radix c of
        Some d \<Rightarrow> (let (ds, rest) = read_digits radix s in (d # ds, rest))
      | None \<Rightarrow> ([], c # s))"

definition digits_value :: "nat \<Rightarrow> nat list \<Rightarrow> int" where
  "digits_value radix ds = foldl (\<lambda>n d. n * int radix + int d) 0 ds"

text \<open>\<open>read_number\<close>: the result must be below \<open>bound\<close>, the size of its type; with a limit on the
  digits one digit too many fails at once.\<close>

definition read_number :: "nat \<Rightarrow> nat option \<Rightarrow> bool \<Rightarrow> int \<Rightarrow> int parser" where
  "read_number radix max_digits allow_zero_prefix bound s =
     (let (ds, rest) = read_digits radix s; v = digits_value radix ds in
      if (case max_digits of Some m \<Rightarrow> m < length ds | None \<Rightarrow> False) then None
      else if ds = [] then None
      else if \<not> allow_zero_prefix \<and> hd ds = 0 \<and> 1 < length ds then None
      else if bound \<le> v then None
      else Some (v, rest))"

text \<open>\<open>read_separator\<close>: the separator comes before every item but the first.\<close>

definition read_separator :: "char \<Rightarrow> nat \<Rightarrow> 'a parser \<Rightarrow> 'a parser" where
  "read_separator sep i inner s =
     (if 0 < i then do { (_, s) \<leftarrow> read_given_char sep s; inner s } else inner s)"

definition read_octet :: "nat \<Rightarrow> int parser" where
  "read_octet i = read_separator (CHR ''.'') i (read_number 10 (Some 3) False 256)"

definition read_ipv4_addr :: "u32 parser" where
  "read_ipv4_addr s = do {
     (a, s) \<leftarrow> read_octet 0 s;
     (b, s) \<leftarrow> read_octet 1 s;
     (c, s) \<leftarrow> read_octet 2 s;
     (d, s) \<leftarrow> read_octet 3 s;
     Some (from_be [of_int a, of_int b, of_int c, of_int d], s) }"

text \<open>\<open>read_groups\<close> from group \<open>i\<close> on, with the groups it reads and whether they end in an
  embedded IPv4 address.\<close>

function read_groups :: "nat \<Rightarrow> nat \<Rightarrow> string \<Rightarrow> u16 list \<times> bool \<times> string" where
  "read_groups limit i s =
     (if i < limit then
        case (if i < limit - 1 then read_separator (CHR '':'') i read_ipv4_addr s else None) of
          Some (v4, rest) \<Rightarrow> ([ucast (drop_bit 16 v4), ucast v4], True, rest)
        | None \<Rightarrow>
            (case read_separator (CHR '':'') i (read_number 16 (Some 4) True 65536) s of
               Some (g, rest) \<Rightarrow> (let (gs, ipv4, rest) = read_groups limit (Suc i) rest in (of_int g # gs, ipv4, rest))
             | None \<Rightarrow> ([], False, s))
      else ([], False, s))"
  by pat_completeness auto
termination
  by (relation "measure (\<lambda>(limit, i, s). limit - i)") auto

declare read_groups.simps [simp del]

definition groups_to_ipv6 :: "u16 list \<Rightarrow> u128" where
  "groups_to_ipv6 gs = foldl (\<lambda>a g. push_bit 16 a OR ucast g) 0 gs"

definition read_ipv6_addr :: "u128 parser" where
  "read_ipv6_addr s =
     (let (head, head_ipv4, rest) = read_groups 8 0 s in
      if length head = 8 then Some (groups_to_ipv6 head, rest)
      else if head_ipv4 then None
      else do {
        (_, rest) \<leftarrow> read_given_char (CHR '':'') rest;
        (_, rest) \<leftarrow> read_given_char (CHR '':'') rest;
        let (tail, _, rest) = read_groups (8 - (length head + 1)) 0 rest;
        Some (groups_to_ipv6 (head @ replicate (8 - length head - length tail) 0 @ tail), rest) })"

definition read_ip_addr :: "ipaddr parser" where
  "read_ip_addr s =
     (case read_ipv4_addr s of
        Some (a, rest) \<Rightarrow> Some (V4 a, rest)
      | None \<Rightarrow> map_option (\<lambda>(a, rest). (V6 a, rest)) (read_ipv6_addr s))"

definition read_port :: "int parser" where
  "read_port s = do { (_, s) \<leftarrow> read_given_char (CHR '':'') s; read_number 10 None True 65536 s }"

definition read_scope_id :: "int parser" where
  "read_scope_id s = do { (_, s) \<leftarrow> read_given_char (CHR ''%'') s; read_number 10 None True (2 ^ 32) s }"

definition read_socket_addr_v4 :: "socketaddr parser" where
  "read_socket_addr_v4 s = do {
     (a, s) \<leftarrow> read_ipv4_addr s;
     (p, s) \<leftarrow> read_port s;
     Some (SockV4 a (of_int p), s) }"

definition read_socket_addr_v6 :: "socketaddr parser" where
  "read_socket_addr_v6 s = do {
     (_, s) \<leftarrow> read_given_char (CHR ''['') s;
     (a, s) \<leftarrow> read_ipv6_addr s;
     let (scope, s) = (case read_scope_id s of Some (v, rest) \<Rightarrow> (v, rest) | None \<Rightarrow> (0, s));
     (_, s) \<leftarrow> read_given_char (CHR '']'') s;
     (p, s) \<leftarrow> read_port s;
     Some (SockV6 a (of_int p) 0 (of_int scope), s) }"

definition read_socket_addr :: "socketaddr parser" where
  "read_socket_addr s = (case read_socket_addr_v4 s of Some r \<Rightarrow> Some r | None \<Rightarrow> read_socket_addr_v6 s)"

text \<open>\<open>parse_with\<close>: all of the input must be read.\<close>

definition parse_with :: "'a parser \<Rightarrow> string \<Rightarrow> 'a option" where
  "parse_with p s = (case p s of Some (x, []) \<Rightarrow> Some x | _ \<Rightarrow> None)"

definition ipaddr_from_str :: "string \<Rightarrow> ipaddr option" where
  "ipaddr_from_str = parse_with read_ip_addr"

definition socketaddr_from_str :: "string \<Rightarrow> socketaddr option" where
  "socketaddr_from_str = parse_with read_socket_addr"

section \<open>Text forms\<close>

text \<open>The \<open>Display\<close> of addresses: dotted decimal; hexadecimal groups in which the longest run of at
  least two zero groups, the first of them, is written \<open>::\<close>; IPv4-mapped addresses with the embedded
  address in dotted decimal.\<close>

definition join :: "char \<Rightarrow> string list \<Rightarrow> string" where
  "join c ss = (case ss of [] \<Rightarrow> [] | s # ss \<Rightarrow> s @ concat (map (\<lambda>t. c # t) ss))"

definition ipv4_text :: "u32 \<Rightarrow> string" where
  "ipv4_text a = join (CHR ''.'') (map (\<lambda>b. show_dec (unat b)) (to_be 4 a))"

fun ipv6_groups :: "nat \<Rightarrow> u128 \<Rightarrow> u16 list" where
  "ipv6_groups 0 a = []"
| "ipv6_groups (Suc n) a = ucast (drop_bit (16 * n) a) # ipv6_groups n a"

text \<open>A run is its start and its length; the loop has the groups from index \<open>i\<close> on before it.\<close>

fun zero_run :: "u16 list \<Rightarrow> nat \<Rightarrow> nat \<times> nat \<Rightarrow> nat \<times> nat \<Rightarrow> nat \<times> nat" where
  "zero_run [] i current longest = longest"
| "zero_run (g # gs) i current longest =
     (if g = 0 then
        let current = (if snd current = 0 then i else fst current, snd current + 1)
        in zero_run gs (Suc i) current (if snd longest < snd current then current else longest)
      else zero_run gs (Suc i) (0, 0) longest)"

definition groups_text :: "u16 list \<Rightarrow> string" where
  "groups_text gs = join (CHR '':'') (map (\<lambda>g. digits 16 (unat g)) gs)"

definition ipv6_text :: "u128 \<Rightarrow> string" where
  "ipv6_text a =
     (case to_ipv4_mapped a of
        Some v \<Rightarrow> ''::ffff:'' @ ipv4_text v
      | None \<Rightarrow>
          let gs = ipv6_groups 8 a; (start, len) = zero_run gs 0 (0, 0) (0, 0)
          in if 1 < len then groups_text (take start gs) @ ''::'' @ groups_text (drop (start + len) gs)
             else groups_text gs)"

fun ipaddr_text :: "ipaddr \<Rightarrow> string" where
  "ipaddr_text (V4 a) = ipv4_text a"
| "ipaddr_text (V6 a) = ipv6_text a"

fun socketaddr_text :: "socketaddr \<Rightarrow> string" where
  "socketaddr_text (SockV4 a p) = ipv4_text a @ '':'' @ show_dec (unat p)"
| "socketaddr_text (SockV6 a p flow scope) =
     ''['' @ ipv6_text a @ (if scope = 0 then [] else ''%'' @ show_dec (unat scope)) @ '']:'' @ show_dec (unat p)"

section \<open>Numbers parse back\<close>

text \<open>The input does not go on with a digit.\<close>

definition stops :: "nat \<Rightarrow> string \<Rightarrow> bool" where
  "stops radix s \<longleftrightarrow> (case s of [] \<Rightarrow> True | c # _ \<Rightarrow> to_digit radix c = None)"

lemma to_digit_digit:
  assumes "d < radix" and "radix \<le> 16"
  shows "to_digit radix (digit d) = Some d"
proof -
  have "of_char (digit d) = (if d < 10 then 48 + d else 87 + d)"
    using assms by (simp add: digit_def of_char_of)
  with assms show ?thesis by (auto simp: to_digit_def Let_def)
qed

lemma read_digits_map:
  assumes "\<forall>d \<in> set ds. d < radix" and "radix \<le> 16" and "stops radix rest"
  shows "read_digits radix (map digit ds @ rest) = (ds, rest)"
  using assms
proof (induction ds)
  case Nil
  then show ?case by (cases rest) (simp_all add: stops_def)
qed (simp add: to_digit_digit)

lemma digits_value_snoc: "digits_value radix (ds @ [d]) = digits_value radix ds * int radix + int d"
  by (simp add: digits_value_def)

lemma digits_list:
  assumes "2 \<le> radix"
  obtains ds where "digits radix n = map digit ds" and "\<forall>d \<in> set ds. d < radix" and "digits_value radix ds = int n"
    and "ds \<noteq> []" and "hd ds = 0 \<longrightarrow> ds = [0]" and "\<forall>k. n < radix ^ k \<longrightarrow> 0 < k \<longrightarrow> length ds \<le> k"
proof -
  have "\<exists>ds. digits radix n = map digit ds \<and> (\<forall>d \<in> set ds. d < radix) \<and> digits_value radix ds = int n \<and>
      ds \<noteq> [] \<and> (hd ds = 0 \<longrightarrow> ds = [0]) \<and> (\<forall>k. n < radix ^ k \<longrightarrow> 0 < k \<longrightarrow> length ds \<le> k)"
  proof (induction n rule: less_induct)
    case (less n)
    show ?case
    proof (cases "n < radix")
      case True
      show ?thesis
      proof (intro exI [of _ "[n]"] conjI)
        show "digits radix n = map digit [n]" using True by (subst digits.simps) simp
      qed (use True in \<open>simp_all add: digits_value_def Suc_le_eq\<close>)
    next
      case False
      with assms have "n div radix < n" by (intro div_less_dividend) auto
      from less.IH [OF this] obtain ds where ds: "digits radix (n div radix) = map digit ds" "\<forall>d \<in> set ds. d < radix"
        "digits_value radix ds = int (n div radix)" "ds \<noteq> []" "hd ds = 0 \<longrightarrow> ds = [0]"
        "\<forall>k. n div radix < radix ^ k \<longrightarrow> 0 < k \<longrightarrow> length ds \<le> k" by (elim exE conjE)
      have "n div radix \<noteq> 0" using False assms by (simp add: div_eq_0_iff)
      then have nz: "hd ds \<noteq> 0" using ds(3,5) by (auto simp: digits_value_def)
      have len: "length (ds @ [n mod radix]) \<le> k" if k: "n < radix ^ k" "0 < k" for k
      proof -
        obtain m where m: "k = Suc m" using k by (cases k) auto
        with k have "n div radix < radix ^ m" using assms by (simp add: less_mult_imp_div_less mult.commute)
        moreover from this have "0 < m" using False k m by (cases m) auto
        ultimately show ?thesis using ds(6) m by simp
      qed
      have "digits_value radix (ds @ [n mod radix]) = int n"
        by (simp add: digits_value_snoc ds(3) of_nat_div of_nat_mod mult.commute)
      moreover have "digits radix n = map digit (ds @ [n mod radix])"
        using False assms ds(1) by (subst digits.simps) simp
      moreover have "\<forall>d \<in> set (ds @ [n mod radix]). d < radix" using ds(2) assms by auto
      ultimately show ?thesis using nz ds(4) len by (intro exI [of _ "ds @ [n mod radix]"]) (simp add: hd_append2)
    qed
  qed
  then show thesis by (elim exE conjE) (rule that)
qed

lemma read_number_digits:
  assumes "2 \<le> radix" and "radix \<le> 16" and "int n < bound" and "stops radix rest"
    and "\<And>m. max_digits = Some m \<Longrightarrow> n < radix ^ m \<and> 0 < m"
  shows "read_number radix max_digits zero bound (digits radix n @ rest) = Some (int n, rest)"
proof -
  obtain ds where ds: "digits radix n = map digit ds" "\<forall>d \<in> set ds. d < radix" "digits_value radix ds = int n"
    "ds \<noteq> []" "hd ds = 0 \<longrightarrow> ds = [0]" and len: "\<forall>k. n < radix ^ k \<longrightarrow> 0 < k \<longrightarrow> length ds \<le> k"
    by (rule digits_list [OF assms(1), of n])
  have "read_digits radix (digits radix n @ rest) = (ds, rest)"
    unfolding ds(1) by (rule read_digits_map [OF ds(2) assms(2,4)])
  moreover have "\<not> (case max_digits of Some m \<Rightarrow> m < length ds | None \<Rightarrow> False)"
    using assms(5) len by (auto split: option.split simp: not_less)
  moreover have "\<not> (hd ds = 0 \<and> 1 < length ds)" using ds(5) by auto
  ultimately show ?thesis using assms(3) ds(3,4) by (auto simp: read_number_def)
qed

section \<open>Addresses parse back\<close>

lemma read_octet_text:
  assumes "n < 256" and "stops 10 rest"
  shows "read_octet 0 (show_dec n @ rest) = Some (int n, rest)"
    and "0 < i \<Longrightarrow> read_octet i (CHR ''.'' # show_dec n @ rest) = Some (int n, rest)"
  using read_number_digits [of 10 n 256 rest "Some 3" False] assms
  by (simp_all add: read_octet_def read_separator_def show_dec_def)

lemma read_ipv4_text:
  assumes "stops 10 rest"
  shows "read_ipv4_addr (ipv4_text a @ rest) = Some (a, rest)"
proof -
  obtain b0 b1 b2 b3 where b: "to_be 4 a = [b0, b1, b2, b3]" by (simp add: numeral_eq_Suc)
  then have a: "from_be [b0, b1, b2, b3] = a" using from_be_to_be_full [of 4 a] by simp
  have u: "unat b < 256" for b :: u8 using unsigned_less [of b, where 'a = nat] by simp
  have stop: "stops 10 (CHR ''.'' # s)" for s by (simp add: stops_def to_digit_def)
  show ?thesis
    using assms by (simp add: ipv4_text_def join_def b read_ipv4_addr_def read_octet_text [OF u] stop a)
qed

lemma foldl_groups:
  "foldl (\<lambda>a g. push_bit 16 a OR ucast g) a (ipv6_groups n w) = push_bit (16 * n) a OR take_bit (16 * n) w"
proof (induction n arbitrary: a)
  case (Suc n)
  show ?case
    unfolding ipv6_groups.simps foldl_Cons Suc
    by (rule bit_word_eqI) (auto simp: bit_simps ac_simps)
qed simp

lemma groups_to_ipv6_groups: "groups_to_ipv6 (ipv6_groups 8 a) = a"
  by (simp add: groups_to_ipv6_def foldl_groups take_bit_word_eq_self)

text \<open>Hexadecimal digits and a colon are not mistaken for an IPv4 address.\<close>

lemma read_digits_no_dot:
  assumes "\<forall>c \<in> set cs. to_digit 16 c \<noteq> None"
  shows "\<exists>c s'. snd (read_digits 10 (cs @ CHR '':'' # s)) = c # s' \<and> c \<noteq> CHR ''.''"
  using assms
proof (induction cs)
  case Nil
  show ?case by (simp add: to_digit_def)
next
  case (Cons c cs)
  then have "c \<noteq> CHR ''.''" by (auto simp: to_digit_def)
  with Cons show ?case by (cases "to_digit 10 c") (auto simp: case_prod_unfold Let_def)
qed

lemma read_number_rest: "read_number radix max_digits zero bound s = Some (v, rest) \<Longrightarrow> rest = snd (read_digits radix s)"
  by (auto simp: read_number_def case_prod_unfold Let_def split: if_splits)

lemma read_ipv4_after:
  assumes "\<And>s'. snd (read_digits 10 s) \<noteq> CHR ''.'' # s'"
  shows "read_ipv4_addr s = None"
proof -
  have "read_octet 1 r = None" if "read_octet 0 s = Some (v, r)" for v r
  proof -
    have "r = snd (read_digits 10 s)" using that by (auto simp: read_octet_def read_separator_def dest: read_number_rest)
    with assms have "read_given_char (CHR ''.'') r = None"
      by (cases "(CHR ''.'', r)" rule: read_given_char.cases) auto
    then show ?thesis by (simp add: read_octet_def read_separator_def)
  qed
  then show ?thesis by (cases "read_octet 0 s") (auto simp: read_ipv4_addr_def)
qed

lemma digits_hex: "c \<in> set (digits 16 n) \<Longrightarrow> to_digit 16 c \<noteq> None"
  by (rule digits_list [of 16 n]) (auto simp: to_digit_digit)

lemma read_ipv4_colon: "\<forall>c \<in> set cs. to_digit 16 c \<noteq> None \<Longrightarrow> read_ipv4_addr (cs @ CHR '':'' # s) = None"
  using read_digits_no_dot [of cs s] by (intro read_ipv4_after) auto

text \<open>What may follow a list of groups: no digit and no dot, and a colon only if doubled.\<close>

fun ends :: "string \<Rightarrow> bool" where
  "ends [] \<longleftrightarrow> True"
| "ends (c # s) \<longleftrightarrow> to_digit 16 c = None \<and> c \<noteq> CHR ''.'' \<and> (c = CHR '':'' \<longrightarrow> take 1 s = '':'')"

lemma ends_stops: "ends s \<Longrightarrow> stops 16 s"
  by (cases s) (simp_all add: stops_def)

lemma read_digits_ends:
  assumes "\<forall>c \<in> set cs. to_digit 16 c \<noteq> None" and "ends rest"
  shows "snd (read_digits 10 (cs @ rest)) \<noteq> CHR ''.'' # s'"
  using assms(1)
proof (induction cs)
  case Nil
  have "to_digit 16 c = None \<Longrightarrow> to_digit 10 c = None" for c
    by (auto simp: to_digit_def Let_def split: option.splits if_splits)
  with assms(2) show ?case by (cases rest) auto
next
  case (Cons c cs)
  then have "c \<noteq> CHR ''.''" by (auto simp: to_digit_def)
  with Cons show ?case by (cases "to_digit 10 c") (auto simp: case_prod_unfold Let_def)
qed

lemma read_number_stops: "stops radix s \<Longrightarrow> read_number radix max_digits zero bound s = None"
  by (cases s; cases max_digits) (simp_all add: read_number_def stops_def Let_def)

lemma read_group_text:
  assumes "stops 16 rest"
  shows "read_number 16 (Some 4) True 65536 (digits 16 (unat (g :: u16)) @ rest) = Some (int (unat g), rest)"
  using read_number_digits [of 16 "unat g" 65536 rest "Some 4" True] unsigned_less [of g, where 'a = int]
    unsigned_less [of g, where 'a = nat] assms by simp

text \<open>The groups from index \<open>i\<close> on, with their separators.\<close>

definition groups_from :: "nat \<Rightarrow> u16 list \<Rightarrow> string" where
  "groups_from i gs = (if i = 0 then groups_text gs else concat (map (\<lambda>g. CHR '':'' # digits 16 (unat g)) gs))"

lemma groups_from_Cons:
  "groups_from i (g # gs) = (if i = 0 then [] else '':'') @ digits 16 (unat g) @ groups_from (Suc i) gs"
  by (simp add: groups_from_def groups_text_def join_def comp_def)

lemma groups_from_Nil [simp]: "groups_from i [] = []"
  by (simp add: groups_from_def groups_text_def join_def)

lemma read_groups_text:
  assumes "ends rest" and "i + length gs \<le> limit"
  shows "read_groups limit i (groups_from i gs @ rest) = (gs, False, rest)"
  using assms(2)
proof (induction gs arbitrary: i)
  case Nil
  have "read_separator (CHR '':'') i read_ipv4_addr rest = None"
    and "read_separator (CHR '':'') i (read_number 16 (Some 4) True 65536) rest = None"
  proof -
    have "read_ipv4_addr rest = None" using read_digits_ends [of "[]" rest] assms(1) by (intro read_ipv4_after) simp
    moreover have "read_number 16 (Some 4) True 65536 rest = None"
      by (rule read_number_stops [OF ends_stops [OF assms(1)]])
    moreover have "read_ipv4_addr s = None \<and> read_number 16 (Some 4) True 65536 s = None" if "take 1 s = '':''" for s
    proof -
      obtain s' where "s = CHR '':'' # s'" using \<open>take 1 s = '':''\<close> by (cases s) auto
      with read_ipv4_colon [of "[]" s'] show ?thesis by (auto intro: read_number_stops simp: stops_def to_digit_def)
    qed
    ultimately show "read_separator (CHR '':'') i read_ipv4_addr rest = None"
      and "read_separator (CHR '':'') i (read_number 16 (Some 4) True 65536) rest = None"
      using assms(1) by (cases rest; force simp: read_separator_def)+
  qed
  then show ?case by (subst read_groups.simps) simp
next
  case (Cons g gs)
  let ?rest = "groups_from (Suc i) gs @ rest"
  have stop: "stops 16 ?rest"
    using ends_stops [OF assms(1)] by (cases gs) (simp_all add: groups_from_Cons stops_def to_digit_def)
  have "read_ipv4_addr (digits 16 (unat g) @ ?rest) = None"
  proof (cases gs)
    case Nil
    with read_digits_ends [of "digits 16 (unat g)" rest] assms(1) digits_hex show ?thesis
      by (intro read_ipv4_after) simp
  next
    case (Cons g' gs')
    with read_ipv4_colon [of "digits 16 (unat g)"] digits_hex show ?thesis by (simp add: groups_from_Cons)
  qed
  then have "read_separator (CHR '':'') i read_ipv4_addr (groups_from i (g # gs) @ rest) = None"
    and "read_separator (CHR '':'') i (read_number 16 (Some 4) True 65536) (groups_from i (g # gs) @ rest) =
      Some (int (unat g), ?rest)"
    using read_group_text [OF stop] by (cases "i = 0"; simp add: read_separator_def groups_from_Cons)+
  then show ?case
    using Cons.prems Cons.IH [of "Suc i"] by (subst read_groups.simps) (simp add: Let_def)
qed

text \<open>The run \<open>zero_run\<close> finds consists of zeros.\<close>

definition zeros_at :: "u16 list \<Rightarrow> nat \<times> nat \<Rightarrow> bool" where
  "zeros_at gs run \<longleftrightarrow> fst run + snd run \<le> length gs \<and> (\<forall>k. fst run \<le> k \<and> k < fst run + snd run \<longrightarrow> gs ! k = 0)"

lemma zero_run_zeros:
  assumes "zeros_at (pre @ gs) current" and "zeros_at (pre @ gs) longest" and "i = length pre"
    and "snd current = 0 \<or> fst current + snd current = i"
  shows "zeros_at (pre @ gs) (zero_run gs i current longest)"
  using assms
proof (induction gs arbitrary: pre i current longest)
  case (Cons g gs)
  show ?case
  proof (cases "g = 0")
    case True
    define c where "c = (if snd current = 0 then i else fst current, snd current + 1)"
    define l where "l = (if snd longest < snd c then c else longest)"
    have c: "zeros_at ((pre @ [g]) @ gs) c" "fst c + snd c = Suc i"
      using Cons.prems True by (auto simp: zeros_at_def less_Suc_eq nth_append c_def)
    have "zero_run (g # gs) i current longest = zero_run gs (Suc i) c l"
      by (simp add: True Let_def c_def l_def)
    moreover have "zeros_at ((pre @ [g]) @ gs) l" using c(1) Cons.prems(2) by (simp add: l_def)
    ultimately show ?thesis using Cons.IH [of "pre @ [g]" c l "Suc i"] c Cons.prems(3) by simp
  next
    case False
    have "zeros_at ((pre @ [g]) @ gs) (0, 0)" by (simp add: zeros_at_def)
    with Cons.IH [of "pre @ [g]" "(0, 0)" longest "Suc i"] Cons.prems False show ?thesis by simp
  qed
qed simp

lemma zeros_at_split:
  assumes "zeros_at gs (start, len)"
  shows "take start gs @ replicate len 0 @ drop (start + len) gs = gs"
proof (rule nth_equalityI)
  show "length (take start gs @ replicate len 0 @ drop (start + len) gs) = length gs"
    using assms by (simp add: zeros_at_def)
  show "(take start gs @ replicate len 0 @ drop (start + len) gs) ! k = gs ! k"
    if "k < length (take start gs @ replicate len 0 @ drop (start + len) gs)" for k
    using assms that by (auto simp: zeros_at_def nth_append)
qed

lemma length_ipv6_groups [simp]: "length (ipv6_groups n a) = n"
  by (induction n) simp_all

lemma mapped_groups:
  "groups_to_ipv6 [0, 0, 0, 0, 0, 0xffff, ucast (drop_bit 16 v), ucast v] = to_ipv6_mapped v"
  unfolding groups_to_ipv6_def to_ipv6_mapped_def by (rule bit_word_eqI) (auto simp: bit_simps dest: bit_imp_le_length [of v])

lemma read_ipv6_mapped:
  assumes "stops 10 rest"
  shows "read_ipv6_addr (''::ffff:'' @ ipv4_text v @ rest) = Some (to_ipv6_mapped v, rest)"
proof -
  have head: "read_groups 8 0 (''::'' @ s) = ([], False, ''::'' @ s)" for s
    using read_groups_text [of "''::'' @ s" 0 "[]" 8] by (simp add: to_digit_def)
  have "digit 15 = CHR ''f''" by code_simp
  then have ffff: "''ffff'' = digits 16 65535" by (simp add: digits.simps)
  have g: "read_number 16 (Some 4) True 65536 (''ffff'' @ CHR '':'' # s) = Some (65535, CHR '':'' # s)" for s
    using read_number_digits [of 16 65535 65536 "CHR '':'' # s" "Some 4" True]
    by (simp only: ffff) (simp add: stops_def to_digit_def)
  have "\<forall>c \<in> set ''ffff''. to_digit 16 c \<noteq> None" by (simp add: to_digit_def)
  from read_ipv4_colon [OF this] have v4: "read_ipv4_addr (''ffff'' @ CHR '':'' # s) = None" for s .
  have "read_groups 7 1 (CHR '':'' # ipv4_text v @ rest) = ([ucast (drop_bit 16 v), ucast v], True, rest)"
    using read_ipv4_text [OF assms, of v] by (subst read_groups.simps) (simp add: read_separator_def)
  then have "read_groups 7 0 (''ffff'' @ CHR '':'' # ipv4_text v @ rest) = ([0xffff, ucast (drop_bit 16 v), ucast v], True, rest)"
    using g v4 by (subst read_groups.simps) (simp add: read_separator_def Let_def)
  then show ?thesis
    using head [of "''ffff'' @ CHR '':'' # ipv4_text v @ rest"] mapped_groups [of v]
    by (simp add: read_ipv6_addr_def numeral_eq_Suc)
qed

lemma read_ipv6_text:
  assumes "ends rest" and "take 1 rest \<noteq> '':''"
  shows "read_ipv6_addr (ipv6_text a @ rest) = Some (a, rest)"
proof (cases "to_ipv4_mapped a")
  case (Some v)
  have "stops 10 rest"
    using assms(1) by (cases rest) (auto simp: stops_def to_digit_def Let_def split: option.splits if_splits)
  from read_ipv6_mapped [OF this, of v] Some to_ipv4_mapped_Some [OF Some] show ?thesis by (simp add: ipv6_text_def)
next
  case None
  let ?gs = "ipv6_groups 8 a"
  obtain start len where run: "zero_run ?gs 0 (0, 0) (0, 0) = (start, len)" by (cases "zero_run ?gs 0 (0, 0) (0, 0)")
  have z: "zeros_at ?gs (start, len)"
    using zero_run_zeros [of "[]" ?gs "(0, 0)" "(0, 0)" 0] by (simp add: run zeros_at_def)
  show ?thesis
  proof (cases "1 < len")
    case True
    let ?h = "take start ?gs" and ?t = "drop (start + len) ?gs"
    have len: "length ?h = start" "length ?t = 8 - (start + len)" "start + len \<le> 8" using z by (simp_all add: zeros_at_def)
    have form: "ipv6_text a @ rest = groups_from 0 ?h @ ''::'' @ groups_from 0 ?t @ rest"
      using None True run by (simp add: ipv6_text_def groups_from_def Let_def)
    have "read_groups 8 0 (ipv6_text a @ rest) = (?h, False, ''::'' @ groups_from 0 ?t @ rest)"
      unfolding form by (rule read_groups_text) (use len in \<open>simp_all add: to_digit_def\<close>)
    moreover have "read_groups (8 - (length ?h + 1)) 0 (groups_from 0 ?t @ rest) = (?t, False, rest)"
      by (rule read_groups_text [OF assms(1)]) (use len True in simp)
    moreover have "8 - length ?h - length ?t = len" unfolding len(1,2) using len(3) by arith
    then have "?h @ replicate (8 - length ?h - length ?t) 0 @ ?t = ?gs" using zeros_at_split [OF z] by metis
    ultimately show ?thesis
      using groups_to_ipv6_groups [of a] len True by (simp add: read_ipv6_addr_def)
  next
    case False
    then have "ipv6_text a @ rest = groups_from 0 ?gs @ rest"
      using None run by (simp add: ipv6_text_def groups_from_def Let_def)
    then show ?thesis
      using read_groups_text [OF assms(1), of 0 ?gs 8] groups_to_ipv6_groups [of a] by (simp add: read_ipv6_addr_def)
  qed
qed

lemma read_ipv4_not_v6: "read_ipv4_addr (ipv6_text a @ rest) = None"
proof -
  have hex: "\<exists>cs s. groups_text gs @ CHR '':'' # t = cs @ CHR '':'' # s \<and> (\<forall>c \<in> set cs. to_digit 16 c \<noteq> None)" for gs t
  proof (cases gs)
    case Nil
    then show ?thesis by (intro exI [of _ "[]"] exI [of _ t]) (simp add: groups_text_def join_def)
  next
    case (Cons g gs')
    then have "groups_text gs @ CHR '':'' # t = digits 16 (unat g) @ CHR '':'' #
        (case gs' of [] \<Rightarrow> t | g' # gs'' \<Rightarrow> digits 16 (unat g') @ concat (map (\<lambda>g. CHR '':'' # digits 16 (unat g)) gs'') @ CHR '':'' # t)"
      by (cases gs') (simp_all add: groups_text_def join_def comp_def)
    with digits_hex show ?thesis by blast
  qed
  obtain g g' gs where gs: "ipv6_groups 8 a = g # g' # gs" by (simp add: numeral_eq_Suc)
  have "\<exists>cs s. ipv6_text a @ rest = cs @ CHR '':'' # s \<and> (\<forall>c \<in> set cs. to_digit 16 c \<noteq> None)"
  proof (cases "\<exists>v. to_ipv4_mapped a = Some v")
    case True
    then have "\<exists>s. ipv6_text a @ rest = [] @ CHR '':'' # s" by (auto simp: ipv6_text_def)
    then show ?thesis by (metis empty_iff empty_set)
  next
    case False
    then have "\<exists>gs' t. ipv6_text a @ rest = groups_text gs' @ CHR '':'' # t"
      using gs by (cases "zero_run (ipv6_groups 8 a) 0 (0, 0) (0, 0)")
        (auto simp: ipv6_text_def Let_def groups_text_def join_def intro: exI [of _ "[g]"])
    with hex show ?thesis by metis
  qed
  then show ?thesis using read_ipv4_colon by metis
qed

lemma stops_simps [simp]: "stops radix []" "stops 10 (CHR '':'' # s)" "stops 10 (CHR '']'' # s)"
  by (simp_all add: stops_def to_digit_def)

lemma ends_simps: "ends (CHR '']'' # s)" "ends (CHR ''%'' # s)"
  by (simp_all add: to_digit_def)

lemma ipaddr_from_text: "ipaddr_from_str (ipaddr_text a) = Some a"
proof (cases a)
  case (V4 v)
  with read_ipv4_text [of "[]" v] show ?thesis by (simp add: ipaddr_from_str_def parse_with_def read_ip_addr_def)
next
  case (V6 v)
  with read_ipv6_text [of "[]" v] read_ipv4_not_v6 [of v "[]"] show ?thesis
    by (simp add: ipaddr_from_str_def parse_with_def read_ip_addr_def)
qed

lemma read_port_text: "read_port (CHR '':'' # show_dec (unat (p :: u16))) = Some (int (unat p), [])"
  using read_number_digits [of 10 "unat p" 65536 "[]" None True] unsigned_less [of p, where 'a = int]
  by (simp add: read_port_def show_dec_def)

lemma read_scope_text:
  "stops 10 rest \<Longrightarrow> read_scope_id (CHR ''%'' # show_dec (unat (n :: u32)) @ rest) = Some (int (unat n), rest)"
  using read_number_digits [of 10 "unat n" "2 ^ 32" rest None True] unsigned_less [of n, where 'a = int]
  by (simp add: read_scope_id_def show_dec_def)

text \<open>The text of a socket address does not mention the flow label.\<close>

fun no_flow_label :: "socketaddr \<Rightarrow> bool" where
  "no_flow_label (SockV4 a p) = True"
| "no_flow_label (SockV6 a p flow scope) = (flow = 0)"

lemma socketaddr_from_text:
  assumes "no_flow_label a"
  shows "socketaddr_from_str (socketaddr_text a) = Some a"
proof (cases a)
  case (SockV4 v p)
  then show ?thesis
    using read_ipv4_text [of "CHR '':'' # show_dec (unat p)" v] read_port_text [of p]
    by (simp add: socketaddr_from_str_def parse_with_def read_socket_addr_def read_socket_addr_v4_def)
next
  case (SockV6 v p flow scope)
  have "read_socket_addr_v4 (CHR ''['' # s) = None" for s
    using read_ipv4_after [of "CHR ''['' # s"] by (simp add: read_socket_addr_v4_def to_digit_def)
  moreover have "read_scope_id (CHR '']'' # s) = None" for s by (simp add: read_scope_id_def)
  ultimately show ?thesis
    using SockV6 assms read_ipv6_text [of "CHR '']'' # CHR '':'' # show_dec (unat p)" v]
      read_ipv6_text [of "CHR ''%'' # show_dec (unat scope) @ CHR '']'' # CHR '':'' # show_dec (unat p)" v]
      read_scope_text [of "CHR '']'' # CHR '':'' # show_dec (unat p)" scope] read_port_text [of p] ends_simps
    by (simp add: socketaddr_from_str_def parse_with_def read_socket_addr_def read_socket_addr_v6_def)
qed

section \<open>Splitting and trimming\<close>

lemma split_char_nonempty [simp]: "split_char c s \<noteq> []"
  by (induction s) (auto split: list.split)

lemma split_char_free: "c \<notin> set s \<Longrightarrow> split_char c s = [s]"
  by (induction s) auto

lemma split_char_append: "c \<notin> set s \<Longrightarrow> split_char c (s @ c # t) = s # split_char c t"
  by (induction s) auto

lemma join_Cons: "ss \<noteq> [] \<Longrightarrow> join c (s # ss) = s @ c # join c ss"
  by (cases ss) (simp_all add: join_def)

lemma split_char_join:
  assumes "ss \<noteq> []" and "\<forall>s \<in> set ss. c \<notin> set s"
  shows "split_char c (join c ss) = ss"
  using assms
proof (induction ss)
  case (Cons s ss)
  show ?case
  proof (cases "ss = []")
    case True
    with Cons.prems show ?thesis by (simp add: join_def split_char_free)
  next
    case False
    with Cons show ?thesis by (simp add: join_Cons split_char_append)
  qed
qed simp

lemma split_once_append: "c \<notin> set s \<Longrightarrow> split_once c (s @ c # t) = Some (s, t)"
  by (induction s) auto

text \<open>Printable ASCII.\<close>

definition graphic :: "string \<Rightarrow> bool" where
  "graphic s \<longleftrightarrow> (\<forall>c \<in> set s. 33 \<le> (of_char c :: nat) \<and> (of_char c :: nat) \<le> 126)"

lemma whitespace_not_graphic: "w \<in> set whitespace \<Longrightarrow> w \<noteq> [] \<and> \<not> graphic [hd w] \<and> \<not> graphic [last w]"
  by (auto simp: whitespace_def graphic_def)

lemma strip_all_other:
  assumes "\<And>w. w \<in> set ws \<Longrightarrow> w \<noteq> [] \<and> \<not> graphic [hd w]" and "s = [] \<or> graphic [hd s]"
  shows "strip_all ws s = s"
proof -
  have "s \<noteq> w @ rest" if "w \<in> set ws" for w rest
    using assms(1) [OF that] assms(2) by (cases w) auto
  then have "strip_one ws s = None" by (simp add: strip_one_None)
  then show ?thesis by (subst strip_all.simps) simp
qed

lemma strip_all_blanks:
  assumes "strip_one ws = strip" and "\<And>t. strip (CHR '' '' # t) = Some t" and "[] \<notin> set ws"
  shows "strip_all ws (replicate n (CHR '' '') @ s) = strip_all ws s"
proof (induction n)
  case (Suc n)
  then show ?case using assms by (subst strip_all.simps) simp
qed simp

lemma strip_whitespace: "strip_one whitespace (CHR '' '' # t) = Some t" "strip_one (map rev whitespace) (CHR '' '' # t) = Some t"
  by (simp_all add: whitespace_def)

lemma strip_blanks:
  "strip_all whitespace (replicate n (CHR '' '') @ s) = strip_all whitespace s"
  "strip_all (map rev whitespace) (replicate n (CHR '' '') @ s) = strip_all (map rev whitespace) s"
proof -
  have "[] \<notin> set whitespace" "[] \<notin> set (map rev whitespace)" by (simp_all add: whitespace_def)
  then show "strip_all whitespace (replicate n (CHR '' '') @ s) = strip_all whitespace s"
    and "strip_all (map rev whitespace) (replicate n (CHR '' '') @ s) = strip_all (map rev whitespace) s"
    by (simp_all add: strip_all_blanks [OF refl] strip_whitespace)
qed

lemma strip_graphic:
  "s = [] \<or> graphic [hd s] \<Longrightarrow> strip_all whitespace s = s"
  "s = [] \<or> graphic [hd s] \<Longrightarrow> strip_all (map rev whitespace) s = s"
  by (rule strip_all_other; auto simp: hd_rev dest: whitespace_not_graphic)+

lemma trim_blanks:
  assumes "graphic s"
  shows "trim (replicate i (CHR '' '') @ s @ replicate j (CHR '' '')) = s"
proof (cases "s = []")
  case True
  have "strip_all whitespace (replicate n (CHR '' '')) = []" for n
    using strip_blanks(1) [of n "[]"] strip_graphic(1) [of "[]"] by simp
  with True show ?thesis by (simp add: trim_def replicate_add [symmetric] strip_graphic(2))
next
  case False
  then have "graphic [hd s]" "graphic [hd (rev s)]" using assms by (simp_all add: graphic_def hd_rev)
  with False show ?thesis by (simp add: trim_def strip_blanks strip_graphic)
qed

lemma strip_all_keeps: "c \<in> set s \<Longrightarrow> \<forall>w \<in> set ws. c \<notin> set w \<Longrightarrow> c \<in> set (strip_all ws s)"
proof (induction ws s rule: strip_all.induct)
  case (1 ws s)
  show ?case
  proof (cases "\<exists>rest. [] \<notin> set ws \<and> strip_one ws s = Some rest")
    case True
    then obtain rest where rest: "[] \<notin> set ws" "strip_one ws s = Some rest" by blast
    with strip_one_Some [OF rest(2)] 1 have "c \<in> set (strip_all ws rest)" by auto
    with rest show ?thesis by (subst strip_all.simps) simp
  next
    case False
    then have "strip_all ws s = s" by (subst strip_all.simps) (auto split: option.split)
    with 1 show ?thesis by simp
  qed
qed

lemma trim_keeps:
  assumes "c \<in> set s" and "graphic [c]"
  shows "c \<in> set (trim s)"
proof -
  have "\<forall>w \<in> set whitespace. c \<notin> set w" using assms(2) by (auto simp: whitespace_def graphic_def)
  with assms(1) show ?thesis by (simp add: trim_def strip_all_keeps)
qed

text \<open>The texts of addresses are graphic, and they contain no comma, no blank and no equals sign.\<close>

definition address_char :: "char \<Rightarrow> bool" where
  "address_char c \<longleftrightarrow> to_digit 16 c \<noteq> None \<or> c \<in> set ''.:[]%''"

lemma to_digit_graphic: "to_digit 16 c = Some d \<Longrightarrow> 33 \<le> (of_char c :: nat) \<and> (of_char c :: nat) \<le> 126"
  by (auto simp: to_digit_def Let_def split: if_splits)

lemma address_char_graphic:
  assumes "\<And>c. c \<in> set s \<Longrightarrow> address_char c"
  shows "graphic s"
  unfolding graphic_def
proof
  fix c assume "c \<in> set s"
  with assms have "address_char c" .
  then show "33 \<le> (of_char c :: nat) \<and> (of_char c :: nat) \<le> 126"
    by (auto simp: address_char_def dest: to_digit_graphic)
qed

lemma address_char_other: "\<not> address_char (CHR '','')" "\<not> address_char (CHR ''='')" "\<not> address_char (CHR '' '')"
  by (simp_all add: address_char_def to_digit_def)

lemma set_join: "set (join c ss) \<subseteq> {c} \<union> \<Union> (set ` set ss)"
  by (auto simp: join_def split: list.splits)

lemma digits_address:
  assumes "c \<in> set (digits radix n)" and "2 \<le> radix" and "radix \<le> 16"
  shows "address_char c"
proof -
  obtain ds where "digits radix n = map digit ds" and "\<forall>d \<in> set ds. d < radix" by (rule digits_list [OF assms(2)])
  with assms obtain d where "c = digit d" and "d < 16" by fastforce
  then show ?thesis by (simp add: address_char_def to_digit_digit)
qed

lemma ipv4_text_address: "c \<in> set (ipv4_text a) \<Longrightarrow> address_char c"
  using set_join [of "CHR ''.''"] by (fastforce simp: ipv4_text_def show_dec_def address_char_def [of "CHR ''.''"] dest: digits_address)

lemma groups_text_address: "c \<in> set (groups_text gs) \<Longrightarrow> address_char c"
  using set_join [of "CHR '':''"] by (fastforce simp: groups_text_def address_char_def [of "CHR '':''"] dest: digits_address)

lemma ipaddr_text_address: "c \<in> set (ipaddr_text a) \<Longrightarrow> address_char c"
proof (cases a)
  case (V6 v)
  have "address_char (CHR '':'')" "address_char (CHR ''f'')" by (simp_all add: address_char_def to_digit_def)
  then show "c \<in> set (ipaddr_text a) \<Longrightarrow> address_char c"
    using V6 by (auto simp: ipv6_text_def Let_def case_prod_unfold split: option.splits if_splits
        dest: groups_text_address ipv4_text_address)
qed (simp add: ipv4_text_address)

lemma socketaddr_text_address: "c \<in> set (socketaddr_text a) \<Longrightarrow> address_char c"
proof (cases a)
  case (SockV4 v p)
  then show "c \<in> set (socketaddr_text a) \<Longrightarrow> address_char c"
    using digits_address [of c 10 "unat p"] by (auto simp: address_char_def [of "CHR '':''"] show_dec_def dest: ipv4_text_address)
next
  case (SockV6 v p flow scope)
  have "address_char (CHR '':'')" "address_char (CHR ''['')" "address_char (CHR '']'')" "address_char (CHR ''%'')"
    by (simp_all add: address_char_def)
  then show "c \<in> set (socketaddr_text a) \<Longrightarrow> address_char c"
    using SockV6 ipaddr_text_address [of c "V6 v"] digits_address [of c 10 "unat p"] digits_address [of c 10 "unat scope"]
    by (auto simp: show_dec_def split: if_splits)
qed

end
