(* ===== verification/Proto_Error.thy ===== *)
theory Proto_Error
  imports Std_Parse
begin

text \<open>
  \<open>nebula-protocol/src/error.rs\<close>: the error type of the protocol crate. A fallible function
  returns \<open>error + 'a\<close>, with \<open>Inl\<close> for \<open>Err\<close>; \<open>and_then\<close> is the sequencing the
  \<open>?\<close> operator stands for. Errors of other crates are wrapped by the code without being
  looked at; the model keeps their text, or the error number for those of I/O.
\<close>

datatype error =
    HeaderTooShort (need: nat) (got: nat)
  | Der string
  | CertExpired
  | CertSignatureInvalid
  | CertUnsupportedCurve
  | CertUntrusted
  | CertNoNetworks
  | ReplayedPacket
  | DecryptFailed
  | Noise string
  | ProtobufDecode string
  | Io io_error
  | Pem string
  | HandshakeFailed string
  | HandshakeInvalidRemoteIndex
  | PeerUnreachable ipaddr
  | Timeout string

type_synonym 'a result = "error + 'a"

text \<open>The \<open>Display\<close> of an error, given that of the \<open>io::Error\<close> it may wrap.\<close>

fun error_text :: "(io_error \<Rightarrow> string) \<Rightarrow> error \<Rightarrow> string" where
  "error_text io (HeaderTooShort n g) =
     ''header too short: need '' @ show_dec n @ '' bytes, got '' @ show_dec g"
| "error_text io (Der t) = ''malformed DER: '' @ t"
| "error_text io CertExpired = ''certificate expired''"
| "error_text io CertSignatureInvalid = ''certificate signature invalid''"
| "error_text io CertUnsupportedCurve = ''certificate uses unsupported curve (only Curve25519 is supported)''"
| "error_text io CertUntrusted = ''certificate was not issued by the configured CA''"
| "error_text io CertNoNetworks = ''certificate contains no networks''"
| "error_text io ReplayedPacket = ''replayed or too-old packet counter''"
| "error_text io DecryptFailed = ''AEAD decryption failed''"
| "error_text io (Noise t) = ''noise protocol error: '' @ t"
| "error_text io (ProtobufDecode t) = ''protobuf decode error: '' @ t"
| "error_text io (Io e) = ''i/o error: '' @ io e"
| "error_text io (Pem t) = ''pem decode error: '' @ t"
| "error_text io (HandshakeFailed t) = ''handshake failed: '' @ t"
| "error_text io HandshakeInvalidRemoteIndex = ''handshake carried a zero peer index''"
| "error_text io (PeerUnreachable a) = ''peer unreachable: no known address for '' @ ipaddr_text a"
| "error_text io (Timeout t) = ''timed out waiting for '' @ t"

fun and_then :: "'e + 'a \<Rightarrow> ('a \<Rightarrow> 'e + 'b) \<Rightarrow> 'e + 'b" where
  "and_then (Inl e) f = Inl e"
| "and_then (Inr x) f = f x"

fun map_err :: "('e \<Rightarrow> 'f) \<Rightarrow> 'e + 'a \<Rightarrow> 'f + 'a" where
  "map_err f (Inl e) = Inl (f e)"
| "map_err f (Inr x) = Inr x"

fun ok_or :: "'e \<Rightarrow> 'a option \<Rightarrow> 'e + 'a" where
  "ok_or e None = Inl e"
| "ok_or e (Some x) = Inr x"

lemma and_then_eq_Inr: "and_then r f = Inr y \<longleftrightarrow> (\<exists>x. r = Inr x \<and> f x = Inr y)"
  by (cases r) auto

lemma and_then_eq_Inl: "and_then r f = Inl e \<longleftrightarrow> r = Inl e \<or> (\<exists>x. r = Inr x \<and> f x = Inl e)"
  by (cases r) auto

lemma and_then_assoc: "and_then (and_then r f) g = and_then r (\<lambda>x. and_then (f x) g)"
  by (cases r) auto

lemma and_then_cong [fundef_cong]:
  "r = r' \<Longrightarrow> (\<And>x. r' = Inr x \<Longrightarrow> f x = f' x) \<Longrightarrow> and_then r f = and_then r' f'"
  by (cases r') auto

lemma ok_or_eq_Inr [simp]: "ok_or e x = Inr y \<longleftrightarrow> x = Some y"
  by (cases x) auto

lemma ok_or_eq_Inl [simp]: "ok_or e x = Inl e' \<longleftrightarrow> x = None \<and> e' = e"
  by (cases x) auto

lemma map_err_eq_Inr [simp]: "map_err f r = Inr y \<longleftrightarrow> r = Inr y"
  by (cases r) auto

lemma map_err_eq_Inl: "map_err f r = Inl y \<longleftrightarrow> (\<exists>e. r = Inl e \<and> y = f e)"
  by (cases r) auto

lemmas result_simps = and_then_eq_Inr and_then_eq_Inl map_err_eq_Inl

end
