(* ===== verification/Header.thy ===== *)
theory Header
  imports Proto_Error
begin

text \<open>
  \<open>nebula-protocol/src/header.rs\<close>: the 16-byte packet header, its encoder and its parser.
\<close>

definition LEN :: nat where "LEN = 16"
definition VERSION :: u8 where "VERSION = 1"

definition HANDSHAKE :: u8 where "HANDSHAKE = 0"
definition MESSAGE :: u8 where "MESSAGE = 1"
definition RECV_ERROR :: u8 where "RECV_ERROR = 2"
definition LIGHTHOUSE :: u8 where "LIGHTHOUSE = 3"
definition TEST :: u8 where "TEST = 4"
definition CLOSE_TUNNEL :: u8 where "CLOSE_TUNNEL = 5"
definition CONTROL :: u8 where "CONTROL = 6"
definition IX_PSK0 :: u8 where "IX_PSK0 = 0"

lemmas header_consts = LEN_def VERSION_def HANDSHAKE_def MESSAGE_def RECV_ERROR_def LIGHTHOUSE_def
  TEST_def CLOSE_TUNNEL_def CONTROL_def IX_PSK0_def

record header =
  version :: u8
  msg_type :: u8
  subtype :: u8
  remote_index :: u32
  message_counter :: u64

text \<open>The encoder fills the whole 16-byte output array.\<close>

definition header_encode :: "header \<Rightarrow> bytes" where
  "header_encode h =
     [push_bit 4 (version h) OR (msg_type h AND 0x0f), subtype h]
       @ to_be 2 (0 :: u16) @ to_be 4 (remote_index h) @ to_be 8 (message_counter h)"

definition header_parse :: "bytes \<Rightarrow> header result" where
  "header_parse b =
     (if length b < LEN then Inl (HeaderTooShort LEN (length b))
      else Inr \<lparr>version = drop_bit 4 (b ! 0) AND 0x0f, msg_type = b ! 0 AND 0x0f, subtype = b ! 1,
        remote_index = from_be (take 4 (drop 4 b)), message_counter = from_be (take 8 (drop 8 b))\<rparr>)"

text \<open>The header's two nibbles hold the values the code puts there.\<close>

definition header_valid :: "header \<Rightarrow> bool" where
  "header_valid h = (version h < 16 \<and> msg_type h < 16)"

lemma length_header_encode [simp]: "length (header_encode h) = 16"
  by (simp add: header_encode_def)

lemma nibble_high: "drop_bit 4 (push_bit 4 v OR (t AND 0x0f)) AND 0x0f = v AND (0x0f :: u8)"
proof -
  have *: "(0x0f :: u8) = mask 4" by (simp add: mask_eq_exp_minus_1)
  show ?thesis unfolding * by (rule bit_word_eqI) (auto simp: bit_simps)
qed

lemma nibble_low: "(push_bit 4 v OR (t AND 0x0f)) AND 0x0f = t AND (0x0f :: u8)"
proof -
  have *: "(0x0f :: u8) = mask 4" by (simp add: mask_eq_exp_minus_1)
  show ?thesis unfolding * by (rule bit_word_eqI) (auto simp: bit_simps)
qed

lemma nibbles_join: "push_bit 4 (drop_bit 4 b AND 0x0f) OR (b AND 0x0f AND 0x0f) = (b :: u8)"
proof -
  have *: "(0x0f :: u8) = mask 4" by (simp add: mask_eq_exp_minus_1)
  show ?thesis unfolding * by (rule bit_word_eqI) (auto simp: bit_simps)
qed

lemma nibble_small: "v < 16 \<Longrightarrow> v AND 0x0f = (v :: u8)"
  using less_mask_eq [of v 4] by (simp add: mask_eq_exp_minus_1)

lemma header_parse_encode:
  "header_parse (header_encode h @ payload) = Inr (h\<lparr>version := version h AND 0x0f, msg_type := msg_type h AND 0x0f\<rparr>)"
proof -
  let ?first = "push_bit 4 (version h) OR (msg_type h AND 0x0f)"
  have idx: "take 4 (drop 4 (header_encode h @ payload)) = to_be 4 (remote_index h)"
    and ctr: "take 8 (drop 8 (header_encode h @ payload)) = to_be 8 (message_counter h)"
    and b0: "(header_encode h @ payload) ! 0 = ?first"
    and b1: "(header_encode h @ payload) ! 1 = subtype h"
    by (simp_all add: header_encode_def numeral_eq_Suc)
  show ?thesis
    unfolding header_parse_def idx ctr b0 b1 nibble_high nibble_low by (simp add: LEN_def)
qed

lemma header_encode_parse:
  assumes "header_parse b = Inr h"
  shows "header_encode h = take 2 b @ [0, 0] @ take 12 (drop 4 b)"
proof -
  from assms have len: "16 \<le> length b" by (auto simp: header_parse_def LEN_def split: if_splits)
  then obtain b0 b1 r where b: "b = b0 # b1 # r" and r: "14 \<le> length r"
    by (cases b; cases "tl b") auto
  have "take 12 (drop 4 b) = take 4 (drop 4 b) @ take 8 (drop 8 b)"
    using take_add [of 4 8 "drop 4 b"] by simp
  moreover have "header_encode h = [b0, b1] @ [0, 0] @ take 4 (drop 4 b) @ take 8 (drop 8 b)"
    using assms len nibbles_join [of b0]
    by (auto simp: header_parse_def header_encode_def b LEN_def numeral_2_eq_2 simp flip: and.assoc split: if_splits)
  ultimately show ?thesis by (simp add: b numeral_2_eq_2)
qed

interpretation hdr: codec header_encode "\<lambda>b. case header_parse b of Inr h \<Rightarrow> Some h | Inl e \<Rightarrow> None" header_valid
  by unfold_locales (use header_parse_encode [where payload = "[]"] in \<open>simp add: header_valid_def nibble_small\<close>)

section \<open>Properties\<close>

text \<open>A header whose version and type fit their nibbles survives the wire, whatever payload
  follows it.\<close>

theorem header_round_trip:
  assumes "version h < 16" and "msg_type h < 16"
  shows "header_parse (header_encode h @ payload) = Inr h"
  using assms by (simp add: header_parse_encode nibble_small)

theorem header_round_trip_witness:
  "header_parse (header_encode \<lparr>version = VERSION, msg_type = MESSAGE, subtype = 0,
     remote_index = 0xdeadbeef, message_counter = 0x0102030405060708\<rparr> @ [7, 7]) =
   Inr \<lparr>version = VERSION, msg_type = MESSAGE, subtype = 0, remote_index = 0xdeadbeef,
     message_counter = 0x0102030405060708\<rparr>"
  by (rule header_round_trip) (simp_all add: header_consts)

text \<open>A parsed header re-encodes to the bytes it came from except for the two reserved bytes,
  which come back as zero; so the received bytes and a re-encoding agree exactly when the reserved
  bytes are zero, which is why decryption is given the bytes as received.\<close>

theorem header_reencode:
  assumes "header_parse b = Inr h"
  shows "header_encode h = take 2 b @ [0, 0] @ take 12 (drop 4 b) \<and>
    (header_encode h = take LEN b \<longleftrightarrow> b ! 2 = 0 \<and> b ! 3 = 0)"
proof -
  from assms have len: "16 \<le> length b" by (auto simp: header_parse_def LEN_def split: if_splits)
  then obtain b0 b1 b2 b3 r where b: "b = b0 # b1 # b2 # b3 # r"
    by (cases b; cases "tl b"; cases "tl (tl b)"; cases "tl (tl (tl b))") auto
  show ?thesis
    using header_encode_parse [OF assms] by (auto simp: b LEN_def numeral_eq_Suc)
qed

theorem header_reencode_witness:
  "header_encode \<lparr>version = 1, msg_type = 1, subtype = 0, remote_index = 7, message_counter = 9\<rparr>
    \<noteq> [0x11, 0, 0, 5, 0, 0, 0, 7, 0, 0, 0, 0, 0, 0, 0, 9]"
  using header_reencode [of "[0x11, 0, 0, 5, 0, 0, 0, 7, 0, 0, 0, 0, 0, 0, 0, 9]"
      "\<lparr>version = 1, msg_type = 1, subtype = 0, remote_index = 7, message_counter = 9\<rparr>"]
  by (simp add: header_parse_def LEN_def from_be_def)

end
