(* ===== verification/Transport.thy ===== *)
theory Transport
  imports Header "HOL-Library.Monad_Syntax"
begin

text \<open>
  \<open>nebula-protocol/src/transport.rs\<close>: the sliding replay window and the steady-state packet
  encryption. The two AEAD ciphers are other crates: they are the fields of \<open>aead_ops\<close>, and
  \<open>aead_laws\<close> states what is relied on. An outer \<open>option\<close> marks a possible panic.
\<close>

section \<open>The replay window\<close>

definition WINDOW_SIZE :: u64 where "WINDOW_SIZE = 1024"

record replay_window =
  current :: u64
  seen :: "u64 list"

definition replay_new :: replay_window where
  "replay_new = \<lparr>current = 0, seen = replicate 16 0\<rparr>"

definition word_bit :: "u64 \<Rightarrow> nat \<times> nat" where
  "word_bit offset = (unat (offset div 64), unat (offset mod 64))"

definition mark :: "replay_window \<Rightarrow> u64 \<Rightarrow> replay_window option" where
  "mark w offset =
     (let (word, b) = word_bit offset
      in do { v \<leftarrow> get (seen w) word; Some (w\<lparr>seen := (seen w)[word := v OR push_bit b 1]\<rparr>) })"

definition is_marked :: "replay_window \<Rightarrow> u64 \<Rightarrow> bool option" where
  "is_marked w offset =
     (let (word, b) = word_bit offset
      in do { v \<leftarrow> get (seen w) word; Some (v AND push_bit b 1 \<noteq> 0) })"

fun shift_words :: "u64 \<Rightarrow> u64 list \<Rightarrow> u64 list" where
  "shift_words carry [] = []"
| "shift_words carry (v # vs) = (push_bit 1 v OR carry) # shift_words (drop_bit 63 v) vs"

definition shift_left :: "replay_window \<Rightarrow> u64 \<Rightarrow> replay_window" where
  "shift_left w n = w\<lparr>seen := (shift_words 0 ^^ unat n) (seen w)\<rparr>"

definition check_and_update :: "replay_window \<Rightarrow> u64 \<Rightarrow> (bool \<times> replay_window) option" where
  "check_and_update w counter =
     (if counter > current w then do {
        let shift = counter - current w;
        let w = (if shift \<ge> WINDOW_SIZE then w\<lparr>seen := replicate 16 0\<rparr> else shift_left w shift);
        w \<leftarrow> mark (w\<lparr>current := counter\<rparr>) 0;
        Some (True, w)
      }
      else do {
        let diff = current w - counter;
        if diff \<ge> WINDOW_SIZE then Some (False, w)
        else do {
          dup \<leftarrow> is_marked w diff;
          if dup then Some (False, w)
          else do { w \<leftarrow> mark w diff; Some (True, w) }
        }
      })"

section \<open>The window as a set of counters\<close>

text \<open>Bit \<open>i\<close> of the 1024-bit integer the words hold.\<close>

definition marked :: "u64 list \<Rightarrow> nat \<Rightarrow> bool" where
  "marked ws i = (i < 64 * length ws \<and> bit (ws ! (i div 64)) (i mod 64))"

lemma marked_Cons: "marked (v # vs) i = (if i < 64 then bit v i else marked vs (i - 64))"
proof (cases "i < 64")
  case False
  then have "i div 64 = Suc ((i - 64) div 64)" and "i mod 64 = (i - 64) mod 64"
    by (simp_all add: le_div_geq le_mod_geq not_less)
  with False show ?thesis by (auto simp: marked_def)
qed (auto simp: marked_def)

lemma marked_replicate_0 [simp]: "\<not> marked (replicate n 0) i"
  by (auto simp: marked_def less_mult_imp_div_less mult.commute)

lemma length_shift_words [simp]: "length (shift_words c ws) = length ws"
  by (induction ws arbitrary: c) auto

lemma bit_drop_63: "bit (drop_bit 63 (v :: u64)) i = (i = 0 \<and> bit v 63)"
  using bit_imp_le_length [of v "63 + i"] by (auto simp: bit_simps)

lemma bit_shift_carry:
  fixes c v :: u64
  assumes "\<And>i. bit c i \<Longrightarrow> i = 0"
  shows "i < 64 \<Longrightarrow> bit (push_bit 1 v OR c) i = (if i = 0 then bit c 0 else bit v (i - 1))"
  using assms [of i] unfolding bit_or_iff bit_push_bit_iff by auto

lemma marked_shift_words:
  assumes "\<And>i. bit c i \<Longrightarrow> i = 0"
  shows "marked (shift_words c ws) i =
    (i < 64 * length ws \<and> (if i = 0 then bit c 0 else marked ws (i - 1)))"
  using assms
proof (induction ws arbitrary: c i)
  case Nil
  show ?case by (simp add: marked_def)
next
  case (Cons v vs)
  have tail: "marked (shift_words (drop_bit 63 v) vs) (i - 64) =
      (i - 64 < 64 * length vs \<and> (if i - 64 = 0 then bit v 63 else marked vs (i - 64 - 1)))"
    by (subst Cons.IH) (auto simp: bit_drop_63)
  show ?case
  proof (cases "i < 64")
    case True
    have "bit (push_bit 1 v OR c) i = (if i = 0 then bit c 0 else bit v (i - 1))"
      by (rule bit_shift_carry) (use Cons.prems True in auto)
    with True show ?thesis
      by (simp only: shift_words.simps marked_Cons) auto
  next
    case False
    with tail show ?thesis
      by (auto simp: marked_Cons)
  qed
qed

lemma marked_shift_left:
  "marked ((shift_words 0 ^^ n) ws) i = (n \<le> i \<and> i < 64 * length ws \<and> marked ws (i - n))"
proof (induction n arbitrary: i)
  case 0
  show ?case by (auto simp: marked_def)
next
  case (Suc n)
  have len: "length ((shift_words 0 ^^ n) ws) = length ws" by (induction n) auto
  have "marked (shift_words 0 ((shift_words 0 ^^ n) ws)) i =
      (i < 64 * length ws \<and> i \<noteq> 0 \<and> marked ((shift_words 0 ^^ n) ws) (i - 1))"
    by (subst marked_shift_words) (auto simp: len)
  then show ?case by (auto simp: Suc)
qed

lemma length_shift_left [simp]: "length ((shift_words 0 ^^ n) ws) = length ws"
  by (induction n) auto

lemma marked_update:
  assumes "i < 64 * length ws"
  shows "marked (ws[i div 64 := (ws ! (i div 64)) OR push_bit (i mod 64) 1]) j \<longleftrightarrow> marked ws j \<or> j = i"
proof (cases "j < 64 * length ws")
  case True
  then have j: "j div 64 < length ws" using less_mult_imp_div_less [of j "length ws" 64] by (simp add: mult.commute)
  have b: "bit (push_bit (i mod 64) (1 :: u64)) k \<longleftrightarrow> k = i mod 64" for k
    by (auto simp: bit_simps)
  show ?thesis
  proof (cases "j div 64 = i div 64")
    case same: True
    then have "j = i \<longleftrightarrow> j mod 64 = i mod 64" by (metis div_mult_mod_eq)
    with same True j b show ?thesis by (auto simp: marked_def bit_or_iff)
  next
    case False
    then have "j \<noteq> i" by auto
    with False True show ?thesis by (auto simp: marked_def)
  qed
qed (use assms in \<open>auto simp: marked_def\<close>)

lemma unat_word_bit: "word_bit offset = (unat offset div 64, unat offset mod 64)"
  by (simp add: word_bit_def unat_div unat_mod)

lemma mark_in_range:
  assumes "unat offset < 64 * length (seen w)"
  shows "\<exists>ws. mark w offset = Some (w\<lparr>seen := ws\<rparr>) \<and> length ws = length (seen w) \<and>
    (\<forall>j. marked ws j \<longleftrightarrow> marked (seen w) j \<or> j = unat offset)"
proof -
  have "unat offset div 64 < length (seen w)"
    using assms less_mult_imp_div_less [of "unat offset" "length (seen w)" 64] by (simp add: mult.commute)
  then have "mark w offset = Some (w\<lparr>seen := (seen w)[unat offset div 64 :=
      seen w ! (unat offset div 64) OR push_bit (unat offset mod 64) 1]\<rparr>)"
    by (simp add: mark_def unat_word_bit get_in_range)
  with marked_update [OF assms] show ?thesis
    by (metis length_list_update)
qed

lemma is_marked_in_range:
  assumes "unat offset < 64 * length (seen w)"
  shows "is_marked w offset = Some (marked (seen w) (unat offset))"
proof -
  have "unat offset div 64 < length (seen w)"
    using assms less_mult_imp_div_less [of "unat offset" "length (seen w)" 64] by (simp add: mult.commute)
  moreover have "(v AND push_bit k 1 \<noteq> 0) = bit v k" for v :: u64 and k
    by (simp add: and_exp_eq_0_iff_not_bit push_bit_eq_mult)
  ultimately show ?thesis
    using assms by (simp add: is_marked_def unat_word_bit get_in_range marked_def)
qed

text \<open>
  The specification: the highest counter so far and the set of all counters accepted. A counter
  is accepted when it is new and fewer than 1024 behind the highest.
\<close>

type_synonym replay_spec = "nat \<times> nat set"

definition spec_check :: "replay_spec \<Rightarrow> u64 \<Rightarrow> bool \<times> replay_spec" where
  "spec_check a counter =
     (let (hi, S) = a; c = unat counter
      in if hi < c + 1024 \<and> c \<notin> S then (True, (max hi c, insert c S)) else (False, a))"

definition window_rel :: "replay_window \<Rightarrow> replay_spec \<Rightarrow> bool" where
  "window_rel w a =
     (let (hi, S) = a
      in length (seen w) = 16 \<and> unat (current w) = hi \<and> (\<forall>c \<in> S. c \<le> hi) \<and>
         (\<forall>i < 1024. marked (seen w) i \<longleftrightarrow> i \<le> hi \<and> hi - i \<in> S))"

lemma window_rel_new: "window_rel replay_new (0, {})"
  by (simp add: window_rel_def replay_new_def)

lemma unat_1024 [simp]: "unat (1024 :: u64) = 1024"
  by simp

lemma check_above:
  assumes rel: "window_rel w (hi, S)" and gt: "current w < counter"
  shows "\<exists>w'. check_and_update w counter = Some (True, w') \<and>
    window_rel w' (unat counter, insert (unat counter) S)"
proof -
  let ?c = "unat counter" and ?n = "unat counter - hi"
  from rel have len: "length (seen w) = 16" and hi: "unat (current w) = hi"
    and below: "\<forall>c \<in> S. c \<le> hi"
    and bits: "\<And>i. i < 1024 \<Longrightarrow> marked (seen w) i \<longleftrightarrow> i \<le> hi \<and> hi - i \<in> S"
    by (auto simp: window_rel_def)
  from gt hi have less: "hi < ?c" by (simp add: word_less_nat_alt)
  have shift: "unat (counter - current w) = ?n"
    using gt hi by (simp add: unat_sub order_less_imp_le)
  define ws where "ws = (if counter - current w \<ge> WINDOW_SIZE then replicate 16 0
    else (shift_words 0 ^^ ?n) (seen w))"
  have ws: "length ws = 16" by (simp add: ws_def len)
  have ws_bits: "marked ws i \<longleftrightarrow> ?n \<le> i \<and> i \<le> ?c \<and> ?c - i \<in> S" if "i < 1024" for i
  proof (cases "1024 \<le> ?n")
    case True
    with that show ?thesis
      by (simp add: ws_def WINDOW_SIZE_def word_le_nat_alt shift)
  next
    case False
    have "marked ws i \<longleftrightarrow> ?n \<le> i \<and> marked (seen w) (i - ?n)"
      using False that by (simp add: ws_def WINDOW_SIZE_def word_le_nat_alt shift marked_shift_left len)
    moreover have "hi - (i - ?n) = ?c - i" "i - ?n \<le> hi \<longleftrightarrow> i \<le> ?c" if "?n \<le> i"
      using that less by auto
    ultimately show ?thesis using bits [of "i - ?n"] that by auto
  qed
  obtain ws' where mark: "mark (w\<lparr>seen := ws, current := counter\<rparr>) 0
      = Some (w\<lparr>seen := ws', current := counter\<rparr>)"
    and ws': "length ws' = 16" "\<And>j. marked ws' j \<longleftrightarrow> marked ws j \<or> j = 0"
    using mark_in_range [of 0 "w\<lparr>seen := ws, current := counter\<rparr>"] ws by (cases w) auto
  have "check_and_update w counter = Some (True, w\<lparr>seen := ws', current := counter\<rparr>)"
    using gt mark by (simp add: check_and_update_def Let_def ws_def shift_left_def shift split: if_splits)
  moreover have "window_rel (w\<lparr>seen := ws', current := counter\<rparr>) (?c, insert ?c S)"
    using less below ws' ws_bits by (auto simp: window_rel_def)
  ultimately show ?thesis by blast
qed

lemma check_below:
  assumes rel: "window_rel w (hi, S)" and le: "counter \<le> current w"
  shows "if hi < unat counter + 1024 \<and> unat counter \<notin> S
    then \<exists>w'. check_and_update w counter = Some (True, w') \<and>
      window_rel w' (hi, insert (unat counter) S)
    else check_and_update w counter = Some (False, w)"
proof -
  let ?c = "unat counter"
  from rel have len: "length (seen w) = 16" and hi: "unat (current w) = hi"
    and below: "\<forall>c \<in> S. c \<le> hi"
    and bits: "\<And>i. i < 1024 \<Longrightarrow> marked (seen w) i \<longleftrightarrow> i \<le> hi \<and> hi - i \<in> S"
    by (auto simp: window_rel_def)
  from le hi have c: "?c \<le> hi" by (simp add: word_le_nat_alt)
  have diff: "unat (current w - counter) = hi - ?c" using le hi by (simp add: unat_sub)
  have far: "current w - counter \<ge> WINDOW_SIZE \<longleftrightarrow> 1024 \<le> hi - ?c"
    by (simp add: WINDOW_SIZE_def word_le_nat_alt diff)
  show ?thesis
  proof (cases "1024 \<le> hi - ?c")
    case True
    with c far le have "check_and_update w counter = Some (False, w)"
      by (simp add: check_and_update_def Let_def leD)
    moreover have "\<not> hi < ?c + 1024" using True c by linarith
    ultimately show ?thesis by simp
  next
    case False
    then have near: "hi < ?c + 1024" by simp
    have dup: "is_marked w (current w - counter) = Some (?c \<in> S)"
      using is_marked_in_range [of "current w - counter" w] False c diff len bits [of "hi - ?c"] by simp
    obtain ws where mark: "mark w (current w - counter) = Some (w\<lparr>seen := ws\<rparr>)"
      and ws: "length ws = 16" "\<And>j. marked ws j \<longleftrightarrow> marked (seen w) j \<or> j = hi - ?c"
      using mark_in_range [of "current w - counter" w] False len diff by auto
    have "window_rel (w\<lparr>seen := ws\<rparr>) (hi, insert ?c S)"
      using ws hi below c bits by (auto simp: window_rel_def)
    moreover have "check_and_update w counter =
        (if ?c \<in> S then Some (False, w) else Some (True, w\<lparr>seen := ws\<rparr>))"
      using far False le dup mark by (simp add: check_and_update_def Let_def leD)
    ultimately show ?thesis using near by simp
  qed
qed

lemma check_and_update_sim:
  assumes "window_rel w a" and "spec_check a counter = (ok, a')"
  shows "\<exists>w'. check_and_update w counter = Some (ok, w') \<and> window_rel w' a'"
proof -
  obtain hi S where a: "a = (hi, S)" by (cases a)
  with assms(1) have hi: "unat (current w) = hi" and below: "\<forall>c \<in> S. c \<le> hi"
    by (auto simp: window_rel_def)
  show ?thesis
  proof (cases "current w < counter")
    case True
    then have "hi < unat counter" using hi by (simp add: word_less_nat_alt)
    moreover have "unat counter \<notin> S" using below calculation by auto
    ultimately have "ok" "a' = (unat counter, insert (unat counter) S)"
      using assms(2) a by (simp_all add: spec_check_def Let_def)
    with check_above [OF assms(1) [unfolded a] True] show ?thesis by simp
  next
    case False
    then have "unat counter \<le> hi" using hi by (simp add: word_less_nat_alt)
    with check_below [OF assms(1) [unfolded a], of counter] False assms a show ?thesis
      by (auto simp: spec_check_def Let_def max_absorb1 split: if_splits)
  qed
qed

interpretation replay: simulation check_and_update spec_check window_rel
  by unfold_locales (rule check_and_update_sim)

section \<open>Packet encryption\<close>

text \<open>\<open>handshake::Cipher\<close>, and the AEAD operations of the two cipher crates: key, nonce,
  associated data and message to ciphertext or plaintext, \<open>None\<close> for the opaque error.\<close>

datatype cipher = AesGcm | ChaChaPoly

record aead_ops =
  aes_encrypt :: "bytes \<Rightarrow> bytes \<Rightarrow> bytes \<Rightarrow> bytes \<Rightarrow> bytes option"
  aes_decrypt :: "bytes \<Rightarrow> bytes \<Rightarrow> bytes \<Rightarrow> bytes \<Rightarrow> bytes option"
  chacha_encrypt :: "bytes \<Rightarrow> bytes \<Rightarrow> bytes \<Rightarrow> bytes \<Rightarrow> bytes option"
  chacha_decrypt :: "bytes \<Rightarrow> bytes \<Rightarrow> bytes \<Rightarrow> bytes \<Rightarrow> bytes option"

text \<open>What an AEAD scheme documents: opening a sealed message with the same key, nonce and
  associated data gives the message.\<close>

definition aead_laws :: "aead_ops \<Rightarrow> bool" where
  "aead_laws A \<longleftrightarrow>
     (\<forall>key nonce aad msg c. aes_encrypt A key nonce aad msg = Some c \<longrightarrow>
        aes_decrypt A key nonce aad c = Some msg) \<and>
     (\<forall>key nonce aad msg c. chacha_encrypt A key nonce aad msg = Some c \<longrightarrow>
        chacha_decrypt A key nonce aad c = Some msg)"

datatype cipher_impl = AesGcmImpl bytes | ChaChaPolyImpl bytes

fun cipher_impl_new :: "cipher \<Rightarrow> bytes \<Rightarrow> cipher_impl" where
  "cipher_impl_new AesGcm key = AesGcmImpl key"
| "cipher_impl_new ChaChaPoly key = ChaChaPolyImpl key"

fun nonce :: "cipher_impl \<Rightarrow> u64 \<Rightarrow> bytes" where
  "nonce (AesGcmImpl key) counter = replicate 4 0 @ to_be 8 counter"
| "nonce (ChaChaPolyImpl key) counter = replicate 4 0 @ rev (to_be 8 counter)"

definition cipher_encrypt :: "aead_ops \<Rightarrow> cipher_impl \<Rightarrow> u64 \<Rightarrow> bytes \<Rightarrow> bytes \<Rightarrow> bytes result" where
  "cipher_encrypt A ci counter aad plaintext =
     ok_or DecryptFailed
       (case ci of
          AesGcmImpl key \<Rightarrow> aes_encrypt A key (nonce ci counter) aad plaintext
        | ChaChaPolyImpl key \<Rightarrow> chacha_encrypt A key (nonce ci counter) aad plaintext)"

definition cipher_decrypt :: "aead_ops \<Rightarrow> cipher_impl \<Rightarrow> u64 \<Rightarrow> bytes \<Rightarrow> bytes \<Rightarrow> bytes result" where
  "cipher_decrypt A ci counter aad ciphertext =
     ok_or DecryptFailed
       (case ci of
          AesGcmImpl key \<Rightarrow> aes_decrypt A key (nonce ci counter) aad ciphertext
        | ChaChaPolyImpl key \<Rightarrow> chacha_decrypt A key (nonce ci counter) aad ciphertext)"

record transport =
  send_cipher :: cipher_impl
  recv_cipher :: cipher_impl
  send_counter :: u64
  replay :: replay_window

definition transport_new :: "cipher \<Rightarrow> bytes \<Rightarrow> bytes \<Rightarrow> transport" where
  "transport_new c send_key recv_key =
     \<lparr>send_cipher = cipher_impl_new c send_key, recv_cipher = cipher_impl_new c recv_key,
      send_counter = 2, replay = replay_new\<rparr>"

text \<open>\<open>self.send_counter += 1\<close> wraps in a release build.\<close>

definition next_counter :: "transport \<Rightarrow> u64 \<times> transport" where
  "next_counter t = (let t = t\<lparr>send_counter := send_counter t + 1\<rparr> in (send_counter t, t))"

text \<open>\<open>out[..src.len()].copy_from_slice(&src)\<close>, which panics when \<open>out\<close> is shorter.\<close>

definition copy_prefix :: "bytes \<Rightarrow> bytes \<Rightarrow> bytes option" where
  "copy_prefix src out = (if length src \<le> length out then Some (src @ drop (length src) out) else None)"

definition transport_encrypt ::
  "aead_ops \<Rightarrow> transport \<Rightarrow> u64 \<Rightarrow> bytes \<Rightarrow> bytes \<Rightarrow> bytes \<Rightarrow> (nat result \<times> bytes) option" where
  "transport_encrypt A t counter aad plaintext out =
     (case cipher_encrypt A (send_cipher t) counter aad plaintext of
        Inl e \<Rightarrow> Some (Inl e, out)
      | Inr ciphertext \<Rightarrow> do {
          out \<leftarrow> copy_prefix ciphertext out;
          Some (Inr (length ciphertext), out) })"

definition transport_decrypt ::
  "aead_ops \<Rightarrow> transport \<Rightarrow> u64 \<Rightarrow> bytes \<Rightarrow> bytes \<Rightarrow> bytes \<Rightarrow> (nat result \<times> transport \<times> bytes) option" where
  "transport_decrypt A t counter aad ciphertext out = do {
     (fresh, w) \<leftarrow> check_and_update (replay t) counter;
     let t = t\<lparr>replay := w\<rparr>;
     if \<not> fresh then Some (Inl ReplayedPacket, t, out)
     else (case cipher_decrypt A (recv_cipher t) counter aad ciphertext of
             Inl e \<Rightarrow> Some (Inl e, t, out)
           | Inr plaintext \<Rightarrow> do {
               out \<leftarrow> copy_prefix plaintext out;
               Some (Inr (length plaintext), t, out) }) }"

lemma cipher_decrypt_encrypt:
  "aead_laws A \<Longrightarrow> cipher_encrypt A ci counter aad m = Inr c \<Longrightarrow> cipher_decrypt A ci counter aad c = Inr m"
  by (cases ci) (auto simp: aead_laws_def cipher_encrypt_def cipher_decrypt_def)

lemma length_nonce [simp]: "length (nonce ci counter) = 12"
  by (cases ci) auto

lemma nonce_inj: "nonce ci m = nonce ci n \<longleftrightarrow> m = n"
  by (cases ci) (auto simp: to_be_inj)

text \<open>The counters a transport hands out, in order.\<close>

fun counters :: "nat \<Rightarrow> transport \<Rightarrow> u64 list" where
  "counters 0 t = []"
| "counters (Suc n) t = (let (c, t) = next_counter t in c # counters n t)"

lemma counters_eq: "counters n t = map (\<lambda>i. send_counter t + of_nat i) [1..<Suc n]"
proof (induction n arbitrary: t)
  case (Suc n)
  have "map (\<lambda>i. send_counter t + of_nat i) [1..<Suc (Suc n)] =
      (send_counter t + 1) # map (\<lambda>i. send_counter t + of_nat i) [Suc 1..<Suc (Suc n)]"
    by (simp add: upt_conv_Cons del: upt_Suc)
  also have "map (\<lambda>i. send_counter t + of_nat i) [Suc 1..<Suc (Suc n)] =
      map (\<lambda>i. send_counter t + 1 + of_nat i) [1..<Suc n]"
    by (simp add: map_Suc_upt [symmetric] add.assoc del: upt_Suc)
  finally show ?case by (simp add: next_counter_def Suc del: upt_Suc)
qed simp

lemma of_nat_u64_inj: "m < 2 ^ 64 \<Longrightarrow> n < 2 ^ 64 \<Longrightarrow> (of_nat m :: u64) = of_nat n \<longleftrightarrow> m = n"
  by (simp add: word_of_nat_eq_iff take_bit_nat_eq_self)

text \<open>An AEAD of the documented shape for concrete inputs: a one-byte keyed checksum.\<close>

definition checksum :: "bytes \<Rightarrow> bytes \<Rightarrow> bytes \<Rightarrow> bytes \<Rightarrow> u8" where
  "checksum key iv aad msg = foldr (+) (key @ iv @ aad @ msg) 0"

definition checksum_seal :: "bytes \<Rightarrow> bytes \<Rightarrow> bytes \<Rightarrow> bytes \<Rightarrow> bytes option" where
  "checksum_seal key iv aad msg = Some (msg @ [checksum key iv aad msg])"

definition checksum_open :: "bytes \<Rightarrow> bytes \<Rightarrow> bytes \<Rightarrow> bytes \<Rightarrow> bytes option" where
  "checksum_open key iv aad c =
     (if c \<noteq> [] \<and> last c = checksum key iv aad (butlast c) then Some (butlast c) else None)"

definition checksum_aead :: aead_ops where
  "checksum_aead = \<lparr>aes_encrypt = checksum_seal, aes_decrypt = checksum_open,
     chacha_encrypt = checksum_seal, chacha_decrypt = checksum_open\<rparr>"

lemma checksum_aead_laws: "aead_laws checksum_aead"
  by (simp add: aead_laws_def checksum_aead_def checksum_seal_def checksum_open_def)

lemma spec_accepts_once:
  assumes "fst (run_spec spec_check (hi, S) cs) = oks"
  shows "length oks = length cs \<and> distinct (map fst (filter snd (zip cs oks))) \<and>
    (\<forall>c \<in> set (map fst (filter snd (zip cs oks))). unat c \<notin> S)"
  using assms
proof (induction cs arbitrary: hi S oks)
  case (Cons c cs)
  show ?case
  proof (cases "hi < unat c + 1024 \<and> unat c \<notin> S")
    case True
    let ?oks = "fst (run_spec spec_check (max hi (unat c), insert (unat c) S) cs)"
    from True Cons.prems have "oks = True # ?oks"
      by (auto simp: spec_check_def [of "(hi, S)"] Let_def split_def)
    with Cons.IH [OF refl, of "max hi (unat c)" "insert (unat c) S"] True show ?thesis
      by (simp del: set_map) (metis insertCI)
  next
    case False
    with Cons.prems have "oks = False # fst (run_spec spec_check (hi, S) cs)"
      by (auto simp: spec_check_def [of "(hi, S)"] Let_def split_def)
    with Cons.IH [OF refl, of hi S] show ?thesis by simp
  qed
qed simp

lemma window_replays:
  assumes "window_rel w (hi, S)" and "unat c \<in> S \<or> unat c + 1024 \<le> hi"
  shows "check_and_update w c = Some (False, w)"
proof -
  have "unat (current w) = hi" and "\<forall>c \<in> S. c \<le> hi" using assms(1) by (auto simp: window_rel_def)
  with assms(2) have "c \<le> current w" by (auto simp: word_le_nat_alt)
  from check_below [OF assms(1) this] assms(2) show ?thesis by (simp split: if_splits)
qed

text \<open>Opening what the other end sealed, under a counter that is new to the window.\<close>

lemma transport_opens:
  assumes "aead_laws A" and "recv_cipher b = send_cipher a"
    and "transport_encrypt A a counter aad msg out = Some (Inr n, out')"
    and "window_rel (replay b) (hi, S)" and "hi < unat counter + 1024" and "unat counter \<notin> S"
    and "length msg \<le> length buf"
  obtains w where "transport_decrypt A b counter aad (take n out') buf =
      Some (Inr (length msg), b\<lparr>replay := w\<rparr>, msg @ drop (length msg) buf)"
    and "window_rel w (max hi (unat counter), insert (unat counter) S)"
proof -
  obtain w where w: "check_and_update (replay b) counter = Some (True, w)"
    and rel: "window_rel w (max hi (unat counter), insert (unat counter) S)"
    using check_and_update_sim [OF assms(4), of counter True] assms(5,6)
    by (auto simp: spec_check_def Let_def)
  obtain c where c: "cipher_encrypt A (send_cipher a) counter aad msg = Inr c"
    and out': "take n out' = c"
    using assms(3)
    by (auto simp: transport_encrypt_def copy_prefix_def split: sum.splits if_splits)
  have "transport_decrypt A b counter aad (take n out') buf =
      Some (Inr (length msg), b\<lparr>replay := w\<rparr>, msg @ drop (length msg) buf)"
    using w cipher_decrypt_encrypt [OF assms(1) c] out' assms(2,7)
    by (simp add: transport_decrypt_def copy_prefix_def)
  with rel that show thesis by blast
qed

section \<open>Properties\<close>

text \<open>C11: Over any sequence of counters, the 1024-bit ring of words answers as a set of all
  counters ever accepted would: a counter is accepted exactly when it was not accepted before and
  is fewer than 1024 behind the highest. No index into the ring is out of range.\<close>

theorem replay_window_refines:
  "\<exists>w. run_machine check_and_update replay_new cs = Some (fst (run_spec spec_check (0, {}) cs), w)"
  using replay.run_sim [OF window_rel_new] by blast

text \<open>No message counter is ever accepted twice by a replay window.\<close>

theorem replay_never_accepts_twice:
  "\<exists>oks w. run_machine check_and_update replay_new cs = Some (oks, w) \<and> length oks = length cs \<and>
     distinct (map fst (filter snd (zip cs oks)))"
  using replay.run_sim [OF window_rel_new, of cs] spec_accepts_once [OF refl, of 0 "{}" cs] by blast

text \<open>C24: A packet sealed by one end opens at the other to the same plaintext when its counter is
  new to the receiver's window, and opening anything under that counter again is refused as a
  replay before the cipher is asked.\<close>

theorem transport_round_trip:
  assumes "aead_laws A" and "recv_cipher b = send_cipher a"
    and "transport_encrypt A a counter aad msg out = Some (Inr n, out')"
    and "window_rel (replay b) (hi, S)" and "hi < unat counter + 1024" and "unat counter \<notin> S"
    and "length msg \<le> length buf"
  shows "\<exists>b'. transport_decrypt A b counter aad (take n out') buf =
      Some (Inr (length msg), b', msg @ drop (length msg) buf) \<and>
    transport_decrypt A b' counter aad' c' buf' = Some (Inl ReplayedPacket, b', buf')"
proof -
  from transport_opens [OF assms] obtain w
    where open_ok: "transport_decrypt A b counter aad (take n out') buf =
      Some (Inr (length msg), b\<lparr>replay := w\<rparr>, msg @ drop (length msg) buf)"
    and rel: "window_rel w (max hi (unat counter), insert (unat counter) S)" .
  have "transport_decrypt A (b\<lparr>replay := w\<rparr>) counter aad' c' buf' =
      Some (Inl ReplayedPacket, b\<lparr>replay := w\<rparr>, buf')"
    using window_replays [OF rel] by (simp add: transport_decrypt_def)
  with open_ok show ?thesis by blast
qed

lemma checksum_packet:
  "transport_encrypt checksum_aead (transport_new ChaChaPoly [1] [2]) 3 [9] [104, 105] [0, 0, 0, 0] =
     Some (Inr 3, [104, 105, 222, 0])"
  by code_simp

theorem transport_round_trip_witness:
  "\<exists>b'. transport_decrypt checksum_aead (transport_new ChaChaPoly [2] [1]) 3 [9] [104, 105, 222] [0, 0, 0] =
      Some (Inr 2, b', [104, 105, 0]) \<and>
    transport_decrypt checksum_aead b' 3 [9] [1] [0] = Some (Inl ReplayedPacket, b', [0])"
  using transport_round_trip [OF checksum_aead_laws _ checksum_packet, of
      "transport_new ChaChaPoly [2] [1]" 0 "{}" "[0, 0, 0]" "[9]" "[1]" "[0]"] window_rel_new
  by (simp add: transport_new_def numeral_2_eq_2)

text \<open>The nonces under which one transport encrypts never repeat within \<open>2 ^ 64\<close> packets,
  for either byte order of the counter; the counter wraps only after that.\<close>

theorem nonces_never_repeat:
  assumes "n \<le> 2 ^ 64"
  shows "distinct (map (nonce ci) (counters n t))"
proof -
  have "inj_on (\<lambda>i. send_counter t + (of_nat i :: u64)) {1..<Suc n}"
  proof (rule inj_onI)
    fix i j assume i: "i \<in> {1..<Suc n}" and j: "j \<in> {1..<Suc n}"
      and eq: "send_counter t + (of_nat i :: u64) = send_counter t + of_nat j"
    then have "(of_nat (i - 1) :: u64) = of_nat (j - 1)" by (simp add: of_nat_diff)
    moreover have "i - 1 < 2 ^ 64" "j - 1 < 2 ^ 64" using i j assms by auto
    ultimately have "i - 1 = j - 1" by (simp only: of_nat_u64_inj)
    with i j show "i = j" by auto
  qed
  then have "distinct (counters n t)"
    unfolding counters_eq distinct_map by (simp del: upt_Suc)
  then show ?thesis by (simp add: distinct_map inj_on_def nonce_inj)
qed

theorem nonces_never_repeat_witness:
  "distinct (map (nonce (AesGcmImpl [1])) (counters 1000 (transport_new AesGcm [1] [2])))"
  by (rule nonces_never_repeat) simp

text \<open>C36: The replay window is advanced before the packet is authenticated: one forged packet
  with a high counter fails to decrypt, yet afterwards every genuine packet 1024 or more behind
  that counter, and the genuine packet with that counter, is refused as a replay.\<close>

theorem forged_packet_advances_window:
  assumes "window_rel (replay t) (hi, S)" and "hi < unat counter"
    and "cipher_decrypt A (recv_cipher t) counter aad forged = Inl e"
  shows "\<exists>t'. transport_decrypt A t counter aad forged out = Some (Inl e, t', out) \<and>
    (\<forall>c aad' ct buf. unat c + 1024 \<le> unat counter \<or> c = counter \<longrightarrow>
       transport_decrypt A t' c aad' ct buf = Some (Inl ReplayedPacket, t', buf))"
proof -
  from assms(1,2) have "current (replay t) < counter"
    by (auto simp: window_rel_def word_less_nat_alt)
  from check_above [OF assms(1) this] obtain w where
    w: "check_and_update (replay t) counter = Some (True, w)"
    and rel: "window_rel w (unat counter, insert (unat counter) S)" by blast
  have "transport_decrypt A t counter aad forged out = Some (Inl e, t\<lparr>replay := w\<rparr>, out)"
    using w assms(3) by (simp add: transport_decrypt_def)
  moreover have "transport_decrypt A (t\<lparr>replay := w\<rparr>) c aad' ct buf =
      Some (Inl ReplayedPacket, t\<lparr>replay := w\<rparr>, buf)"
    if "unat c + 1024 \<le> unat counter \<or> c = counter" for c aad' ct buf
    using window_replays [OF rel, of c] that by (auto simp: transport_decrypt_def)
  ultimately show ?thesis by blast
qed

lemma checksum_rejects: "cipher_decrypt checksum_aead (AesGcmImpl [2]) 5000 [9] [7, 7] = Inl DecryptFailed"
  by code_simp

theorem forged_packet_advances_window_witness:
  "\<exists>t'. transport_decrypt checksum_aead (transport_new AesGcm [1] [2]) 5000 [9] [7, 7] [0, 0] =
      Some (Inl DecryptFailed, t', [0, 0]) \<and>
    transport_decrypt checksum_aead t' 3 [9] [104, 105, 223] [0, 0] = Some (Inl ReplayedPacket, t', [0, 0])"
proof -
  have "window_rel (replay (transport_new AesGcm [1] [2])) (0, {})"
    and "cipher_decrypt checksum_aead (recv_cipher (transport_new AesGcm [1] [2])) 5000 [9] [7, 7] =
      Inl DecryptFailed"
    by (simp_all add: transport_new_def window_rel_new checksum_rejects)
  from forged_packet_advances_window [OF this(1) _ this(2), of "[0, 0]"] show ?thesis
    by fastforce
qed

end
