(* ===== verification/Lighthouse.thy ===== *)
theory Lighthouse
  imports Std_Net
begin

text \<open>
  The lighthouse messages of \<open>nebula-protocol/proto/nebula.proto\<close> as the generated Rust
  structs have them, and \<open>nebula-protocol/src/lighthouse.rs\<close>: building host updates and
  queries and reading the candidate addresses of a reply.
\<close>

section \<open>Messages\<close>

datatype meta_type = MetaNone | HostQuery | HostQueryReply | HostUpdateNotification
  | HostMovedNotification | HostPunchNotification | HostWhoami | HostWhoamiReply | PathCheck
  | PathCheckReply | HostUpdateNotificationAck

text \<open>\<open>MessageType::X as i32\<close>; an \<open>i32\<close> is its 32 bits.\<close>

fun meta_type_num :: "meta_type \<Rightarrow> u32" where
  "meta_type_num MetaNone = 0"
| "meta_type_num HostQuery = 1"
| "meta_type_num HostQueryReply = 2"
| "meta_type_num HostUpdateNotification = 3"
| "meta_type_num HostMovedNotification = 4"
| "meta_type_num HostPunchNotification = 5"
| "meta_type_num HostWhoami = 6"
| "meta_type_num HostWhoamiReply = 7"
| "meta_type_num PathCheck = 8"
| "meta_type_num PathCheckReply = 9"
| "meta_type_num HostUpdateNotificationAck = 10"

record addr_msg =
  addr_hi :: u64
  addr_lo :: u64

record v4_addr_port =
  v4_addr :: u32
  v4_port :: u32

record v6_addr_port =
  v6_hi :: u64
  v6_lo :: u64
  v6_port :: u32

record meta_details =
  old_vpn_addr :: u32
  vpn_addr :: "addr_msg option"
  old_relay_vpn_addrs :: "u32 list"
  relay_vpn_addrs :: "addr_msg list"
  v4_addr_ports :: "v4_addr_port list"
  v6_addr_ports :: "v6_addr_port list"
  meta_counter :: u32

record nebula_meta =
  meta_type :: u32
  meta_details :: "meta_details option"

definition meta_details_default :: meta_details where
  "meta_details_default = \<lparr>old_vpn_addr = 0, vpn_addr = None, old_relay_vpn_addrs = [],
     relay_vpn_addrs = [], v4_addr_ports = [], v6_addr_ports = [], meta_counter = 0\<rparr>"

section \<open>Operations\<close>

definition addr_to_ip :: "addr_msg \<Rightarrow> ipaddr" where
  "addr_to_ip a =
     (let octs = to_be 8 (addr_hi a) @ to_be 8 (addr_lo a); v6 = from_be octs
      in case to_ipv4_mapped v6 of Some v4 \<Rightarrow> V4 v4 | None \<Rightarrow> V6 v6)"

definition ip_to_addr :: "ipaddr \<Rightarrow> addr_msg" where
  "ip_to_addr ip =
     (let v6 = (case ip of V4 v4 \<Rightarrow> to_ipv6_mapped v4 | V6 v6 \<Rightarrow> v6); octs = to_be 16 v6
      in \<lparr>addr_hi = from_be (take 8 octs), addr_lo = from_be (drop 8 octs)\<rparr>)"

fun addr_to_v4_v6 ::
  "socketaddr \<Rightarrow> v4_addr_port list \<times> v6_addr_port list \<Rightarrow> v4_addr_port list \<times> v6_addr_port list" where
  "addr_to_v4_v6 (SockV4 ip port) (v4, v6) = (v4 @ [\<lparr>v4_addr = ip, v4_port = ucast port\<rparr>], v6)"
| "addr_to_v4_v6 (SockV6 ip port flowinfo scope) (v4, v6) =
     (let octs = to_be 16 ip
      in (v4, v6 @ [\<lparr>v6_hi = from_be (take 8 octs), v6_lo = from_be (drop 8 octs), v6_port = ucast port\<rparr>]))"

definition host_update_notification :: "ipaddr \<Rightarrow> socketaddr list \<Rightarrow> nebula_meta" where
  "host_update_notification ip reachable_at =
     (let (v4, v6) = fold addr_to_v4_v6 reachable_at ([], [])
      in \<lparr>meta_type = meta_type_num HostUpdateNotification,
          meta_details = Some (meta_details_default\<lparr>vpn_addr := Some (ip_to_addr ip),
            v4_addr_ports := v4, v6_addr_ports := v6\<rparr>)\<rparr>)"

definition host_query :: "ipaddr \<Rightarrow> nebula_meta" where
  "host_query ip =
     \<lparr>meta_type = meta_type_num HostQuery,
      meta_details = Some (meta_details_default\<lparr>vpn_addr := Some (ip_to_addr ip)\<rparr>)\<rparr>"

definition candidate_addrs :: "nebula_meta \<Rightarrow> socketaddr list" where
  "candidate_addrs meta =
     (case meta_details meta of
        None \<Rightarrow> []
      | Some d \<Rightarrow>
          map (\<lambda>a. socketaddr_new (V4 (v4_addr a)) (ucast (v4_port a))) (v4_addr_ports d)
            @ map (\<lambda>a. socketaddr_new (V6 (from_be (to_be 8 (v6_hi a) @ to_be 8 (v6_lo a)))) (ucast (v6_port a)))
                (v6_addr_ports d))"

section \<open>Round trips\<close>

lemma to_be_split: "to_be 8 (from_be (take 8 (to_be 16 w)) :: u64) @ to_be 8 (from_be (drop 8 (to_be 16 w)) :: u64) = to_be 16 (w :: u128)"
  by simp

lemma join_split [simp]:
  "from_be (to_be 8 (from_be (take 8 (to_be 16 w)) :: u64) @ to_be 8 (from_be (drop 8 (to_be 16 w)) :: u64)) = (w :: u128)"
  by (simp only: to_be_split) simp

lemma split_join_parts:
  "from_be (take 8 (to_be 16 (from_be (to_be 8 h @ to_be 8 l) :: u128))) = (h :: u64)"
  "from_be (drop 8 (to_be 16 (from_be (to_be 8 h @ to_be 8 l) :: u128))) = (l :: u64)"
  by simp_all

text \<open>An IPv4-mapped IPv6 address and the IPv4 address are one address on the wire.\<close>

fun canonical_ip :: "ipaddr \<Rightarrow> ipaddr" where
  "canonical_ip (V4 a) = V4 a"
| "canonical_ip (V6 a) = (case to_ipv4_mapped a of Some v4 \<Rightarrow> V4 v4 | None \<Rightarrow> V6 a)"

lemma addr_to_ip_to_addr: "addr_to_ip (ip_to_addr ip) = canonical_ip ip"
  by (cases ip) (simp_all add: addr_to_ip_def ip_to_addr_def Let_def split: option.split)

lemma ip_to_addr_to_ip: "ip_to_addr (addr_to_ip a) = a"
  by (cases a) (auto simp: addr_to_ip_def ip_to_addr_def Let_def split_join_parts split: option.split
      dest: to_ipv4_mapped_Some)

text \<open>What a peer learns of a socket address: the scope and flow label of a V6 one are lost.\<close>

fun plain_addr :: "socketaddr \<Rightarrow> socketaddr" where
  "plain_addr (SockV4 ip port) = SockV4 ip port"
| "plain_addr (SockV6 ip port flowinfo scope) = SockV6 ip port 0 0"

fun is_v4_addr :: "socketaddr \<Rightarrow> bool" where
  "is_v4_addr (SockV4 _ _) = True"
| "is_v4_addr (SockV6 _ _ _ _) = False"

lemma ucast_port [simp]: "(ucast (ucast (p :: u16) :: u32) :: u16) = p"
  by (rule bit_word_eqI) (auto simp: bit_simps)

lemma fold_addr_to_v4_v6:
  assumes "fold addr_to_v4_v6 addrs (v4, v6) = (v4', v6')"
  shows "map (\<lambda>a. socketaddr_new (V4 (v4_addr a)) (ucast (v4_port a))) v4' =
      map (\<lambda>a. socketaddr_new (V4 (v4_addr a)) (ucast (v4_port a))) v4 @ filter is_v4_addr addrs"
    and "map (\<lambda>a. socketaddr_new (V6 (from_be (to_be 8 (v6_hi a) @ to_be 8 (v6_lo a)))) (ucast (v6_port a))) v6' =
      map (\<lambda>a. socketaddr_new (V6 (from_be (to_be 8 (v6_hi a) @ to_be 8 (v6_lo a)))) (ucast (v6_port a))) v6 @
        map plain_addr (filter (\<lambda>a. \<not> is_v4_addr a) addrs)"
  using assms
proof (induction addrs arbitrary: v4 v6)
  case (Cons a addrs)
  {
    case 1
    with Cons show ?case by (cases a) (auto simp: Let_def)
  next
    case 2
    with Cons show ?case by (cases a) (auto simp: Let_def simp del: to_be_from_be)
  }
qed auto

section \<open>Properties\<close>

text \<open>A vpn address survives the wire except that an IPv4-mapped IPv6 address arrives as the
  IPv4 address it stands for, and every wire address is the encoding of the address read from it,
  so no two wire forms name one address.\<close>

theorem vpn_addr_round_trip:
  "addr_to_ip (ip_to_addr ip) = canonical_ip ip \<and> ip_to_addr (addr_to_ip a) = a"
  by (simp add: addr_to_ip_to_addr ip_to_addr_to_ip)

text \<open>A host update carries every reachable address of the sender: the receiver's candidates
  are the IPv4 addresses in order followed by the IPv6 ones in order, ports intact, with the V6
  scope and flow label dropped; and a query names the host it asks about.\<close>

theorem host_update_candidates:
  "candidate_addrs (host_update_notification ip addrs) =
     filter is_v4_addr addrs @ map plain_addr (filter (\<lambda>a. \<not> is_v4_addr a) addrs) \<and>
   (\<exists>d w. meta_details (host_query ip) = Some d \<and> vpn_addr d = Some w \<and> addr_to_ip w = canonical_ip ip \<and>
     candidate_addrs (host_query ip) = [])"
proof -
  obtain v4 v6 where f: "fold addr_to_v4_v6 addrs ([], []) = (v4, v6)" by fastforce
  from fold_addr_to_v4_v6 [OF f] show ?thesis
    by (simp add: candidate_addrs_def host_update_notification_def host_query_def f
        meta_details_default_def addr_to_ip_to_addr del: to_be_from_be)
qed

end
