(* ===== verification/Handshake.thy ===== *)
theory Handshake
  imports Transport Lighthouse
begin

text \<open>
  \<open>nebula-protocol/src/handshake.rs\<close>: the two-message Noise IX handshake. The Noise library
  \<open>snow\<close> and the protobuf codec \<open>prost\<close> are other crates: their functions are the
  fields of \<open>noise_ops\<close> and \<open>pb_ops\<close>, over an abstract handshake state \<open>'hs\<close>, and
  \<open>noise_laws\<close> and \<open>pb_laws\<close> state what their documentation promises. The clock is an
  argument.
\<close>

section \<open>Messages and parameters\<close>

record handshake_details =
  hd_cert :: bytes
  initiator_index :: u32
  responder_index :: u32
  cookie :: u64
  hd_time :: u64
  cert_version :: u32

record nebula_handshake =
  nh_details :: "handshake_details option"
  nh_hmac :: bytes

text \<open>\<open>noise_initiator\<close> and \<open>noise_responder\<close> build a state from the parameter string and
  the private key; \<open>noise_write\<close> and \<open>noise_read\<close> return the message or payload and the
  next state; errors are texts.\<close>

record 'hs noise_ops =
  noise_initiator :: "string \<Rightarrow> bytes \<Rightarrow> string + 'hs"
  noise_responder :: "string \<Rightarrow> bytes \<Rightarrow> string + 'hs"
  noise_write :: "'hs \<Rightarrow> bytes \<Rightarrow> string + bytes \<times> 'hs"
  noise_read :: "'hs \<Rightarrow> bytes \<Rightarrow> string + bytes \<times> 'hs"
  get_remote_static :: "'hs \<Rightarrow> bytes option"
  raw_split :: "'hs \<Rightarrow> bytes \<times> bytes"
  is_initiator :: "'hs \<Rightarrow> bool"

record pb_ops =
  encode_handshake :: "nebula_handshake \<Rightarrow> bytes"
  decode_handshake :: "bytes \<Rightarrow> string + nebula_handshake"
  encode_meta :: "nebula_meta \<Rightarrow> bytes"
  decode_meta :: "bytes \<Rightarrow> string + nebula_meta"

definition pb_laws :: "pb_ops \<Rightarrow> bool" where
  "pb_laws P \<longleftrightarrow> (\<forall>h. decode_handshake P (encode_handshake P h) = Inr h)"

text \<open>The IX pattern: a message written by one side is read by the other to the same payload;
  after both messages the two states know each other's static key, agree on the split and know
  their roles.\<close>

definition noise_laws :: "'hs noise_ops \<Rightarrow> (bytes \<Rightarrow> bytes) \<Rightarrow> bool" where
  "noise_laws N public \<longleftrightarrow>
     (\<forall>params ki kr hi hr p1 m1 hi1.
        noise_initiator N params ki = Inr hi \<longrightarrow> noise_responder N params kr = Inr hr \<longrightarrow>
        noise_write N hi p1 = Inr (m1, hi1) \<longrightarrow>
        (\<exists>hr1. noise_read N hr m1 = Inr (p1, hr1) \<and>
          (\<forall>p2 m2 hr2. noise_write N hr1 p2 = Inr (m2, hr2) \<longrightarrow>
             get_remote_static N hr2 = Some (public ki) \<and> \<not> is_initiator N hr2 \<and>
             (\<exists>hi2. noise_read N hi1 m2 = Inr (p2, hi2) \<and> get_remote_static N hi2 = Some (public kr) \<and>
                is_initiator N hi2 \<and> raw_split N hi2 = raw_split N hr2))))"

section \<open>The handshake\<close>

fun noise_params :: "cipher \<Rightarrow> string" where
  "noise_params AesGcm = ''Noise_IX_25519_AESGCM_SHA256''"
| "noise_params ChaChaPoly = ''Noise_IX_25519_ChaChaPoly_SHA256''"

text \<open>When \<open>snow\<close> reports no error: it builds a state of either role from the keys, and writes a
  message for every payload of at most \<open>n\<close> bytes, the responder after a message it has read.\<close>

definition noise_accepts :: "'hs noise_ops \<Rightarrow> cipher \<Rightarrow> bytes \<Rightarrow> bytes \<Rightarrow> nat \<Rightarrow> bool" where
  "noise_accepts N c ki kr n \<longleftrightarrow>
     (\<exists>hi hr. noise_initiator N (noise_params c) ki = Inr hi \<and> noise_responder N (noise_params c) kr = Inr hr \<and>
        (\<forall>p. length p \<le> n \<longrightarrow> (\<exists>m hi1. noise_write N hi p = Inr (m, hi1))) \<and>
        (\<forall>m p hr1. noise_read N hr m = Inr (p, hr1) \<longrightarrow>
           (\<forall>p2. length p2 \<le> n \<longrightarrow> (\<exists>m2 hr2. noise_write N hr1 p2 = Inr (m2, hr2)))))"

record split_keys =
  remote_static :: bytes
  send_key :: bytes
  recv_key :: bytes

definition split_keys_of :: "'hs noise_ops \<Rightarrow> 'hs \<Rightarrow> split_keys result" where
  "split_keys_of N hs =
     and_then (ok_or (HandshakeFailed ''handshake completed with no remote static key'')
       (get_remote_static N hs)) (\<lambda>rs.
     let (k1, k2) = raw_split N hs;
         (sk, rk) = (if is_initiator N hs then (k1, k2) else (k2, k1))
     in Inr \<lparr>remote_static = rs, send_key = sk, recv_key = rk\<rparr>)"

definition stage0 ::
  "'hs noise_ops \<Rightarrow> pb_ops \<Rightarrow> u64 \<Rightarrow> cipher \<Rightarrow> bytes \<Rightarrow> bytes \<Rightarrow> u32 \<Rightarrow> ('hs \<times> bytes) result" where
  "stage0 N P now_nanos c local_private_key my_cert_handshake_bytes index =
     and_then (map_err Noise (noise_initiator N (noise_params c) local_private_key)) (\<lambda>hs.
     let payload = \<lparr>nh_details = Some \<lparr>hd_cert = my_cert_handshake_bytes, initiator_index = index,
           responder_index = 0, cookie = 0, hd_time = now_nanos, cert_version = 2\<rparr>, nh_hmac = []\<rparr>;
         payload_bytes = encode_handshake P payload
     in and_then (map_err Noise (noise_write N hs payload_bytes)) (\<lambda>(msg, hs).
     Inr (hs, msg)))"

definition respond ::
  "'hs noise_ops \<Rightarrow> pb_ops \<Rightarrow> u64 \<Rightarrow> cipher \<Rightarrow> bytes \<Rightarrow> bytes \<Rightarrow> u32 \<Rightarrow> bytes \<Rightarrow>
     (handshake_details \<times> bytes \<times> split_keys) result" where
  "respond N P now_nanos c local_private_key my_cert_handshake_bytes index stage0_noise_payload =
     and_then (map_err Noise (noise_responder N (noise_params c) local_private_key)) (\<lambda>hs.
     and_then (map_err Noise (noise_read N hs stage0_noise_payload)) (\<lambda>(payload, hs).
     and_then (map_err ProtobufDecode (decode_handshake P payload)) (\<lambda>stage0_msg.
     and_then (ok_or (HandshakeFailed ''stage 0 message had no details'') (nh_details stage0_msg)) (\<lambda>their_details.
     if initiator_index their_details = 0 then Inl HandshakeInvalidRemoteIndex
     else
       let reply = \<lparr>nh_details = Some \<lparr>hd_cert = my_cert_handshake_bytes,
             initiator_index = initiator_index their_details, responder_index = index, cookie = 0,
             hd_time = now_nanos, cert_version = 2\<rparr>, nh_hmac = []\<rparr>;
           reply_bytes = encode_handshake P reply
       in and_then (map_err Noise (noise_write N hs reply_bytes)) (\<lambda>(msg, hs).
       and_then (split_keys_of N hs) (\<lambda>keys.
       Inr (their_details, msg, keys)))))))"

definition finish_initiator ::
  "'hs noise_ops \<Rightarrow> pb_ops \<Rightarrow> 'hs \<Rightarrow> bytes \<Rightarrow> (handshake_details \<times> split_keys) result" where
  "finish_initiator N P hs stage2_noise_payload =
     and_then (map_err Noise (noise_read N hs stage2_noise_payload)) (\<lambda>(payload, hs).
     and_then (map_err ProtobufDecode (decode_handshake P payload)) (\<lambda>handshake.
     and_then (ok_or (HandshakeFailed ''stage 2 message had no details'') (nh_details handshake)) (\<lambda>details.
     if responder_index details = 0 then Inl HandshakeInvalidRemoteIndex
     else
       and_then (split_keys_of N hs) (\<lambda>keys.
       Inr (details, keys)))))"

section \<open>Two ends\<close>

text \<open>The keys of one end are those of the other, exchanged.\<close>

definition mirrored :: "split_keys \<Rightarrow> split_keys \<Rightarrow> bool" where
  "mirrored a b \<longleftrightarrow> send_key a = recv_key b \<and> recv_key a = send_key b"

lemma split_keys_mirrored:
  assumes "split_keys_of N hr = Inr kr" and "is_initiator N hi" and "\<not> is_initiator N hr"
    and "raw_split N hi = raw_split N hr" and "get_remote_static N hi = Some p"
  shows "\<exists>ki. split_keys_of N hi = Inr ki \<and> mirrored ki kr \<and> remote_static ki = p"
  using assms by (cases "raw_split N hr") (auto simp: split_keys_of_def mirrored_def result_simps)

lemma respond_index: "respond N P now c key cert index body = Inr (d, msg, keys) \<Longrightarrow> initiator_index d \<noteq> 0"
  by (auto simp: respond_def result_simps Let_def split: if_splits)

lemma finish_index: "finish_initiator N P hs body = Inr (d, keys) \<Longrightarrow> responder_index d \<noteq> 0"
  by (auto simp: finish_initiator_def result_simps split: if_splits)

lemma handshake_ends_agree:
  assumes laws: "noise_laws N public" "pb_laws P"
    and s0: "stage0 N P ti c ki cert_i i = Inr (hs, m1)"
    and r: "respond N P tr c kr cert_r j m1 = Inr (d_r, m2, keys_r)" and "j \<noteq> 0"
  shows "hd_cert d_r = cert_i \<and> initiator_index d_r = i \<and> remote_static keys_r = public ki \<and>
    (\<exists>d_i keys_i. finish_initiator N P hs m2 = Inr (d_i, keys_i) \<and> hd_cert d_i = cert_r \<and>
       responder_index d_i = j \<and> remote_static keys_i = public kr \<and> mirrored keys_i keys_r)"
proof -
  let ?p1 = "encode_handshake P \<lparr>nh_details = Some \<lparr>hd_cert = cert_i, initiator_index = i,
    responder_index = 0, cookie = 0, hd_time = ti, cert_version = 2\<rparr>, nh_hmac = []\<rparr>"
  let ?p2 = "encode_handshake P \<lparr>nh_details = Some \<lparr>hd_cert = cert_r, initiator_index = i,
    responder_index = j, cookie = 0, hd_time = tr, cert_version = 2\<rparr>, nh_hmac = []\<rparr>"
  from s0 obtain hi where hi: "noise_initiator N (noise_params c) ki = Inr hi"
    and w1: "noise_write N hi ?p1 = Inr (m1, hs)"
    by (auto simp: stage0_def result_simps)
  from r obtain hr where hr: "noise_responder N (noise_params c) kr = Inr hr"
    by (auto simp: respond_def result_simps)
  from laws(1) hi hr w1 obtain hr1 where rd: "noise_read N hr m1 = Inr (?p1, hr1)"
    and second: "\<And>p2 m2 hr2. noise_write N hr1 p2 = Inr (m2, hr2) \<Longrightarrow>
      get_remote_static N hr2 = Some (public ki) \<and> \<not> is_initiator N hr2 \<and>
      (\<exists>hi2. noise_read N hs m2 = Inr (p2, hi2) \<and> get_remote_static N hi2 = Some (public kr) \<and>
         is_initiator N hi2 \<and> raw_split N hi2 = raw_split N hr2)"
    unfolding noise_laws_def by blast
  have dec: "decode_handshake P (encode_handshake P h) = Inr h" for h
    using laws(2) by (simp add: pb_laws_def)
  from r hr rd dec obtain hr2 where w2: "noise_write N hr1 ?p2 = Inr (m2, hr2)"
    and keys: "split_keys_of N hr2 = Inr keys_r"
    and d: "hd_cert d_r = cert_i" "initiator_index d_r = i"
    by (auto simp: respond_def result_simps Let_def split: if_splits)
  from second [OF w2] obtain hi2 where hi2: "noise_read N hs m2 = Inr (?p2, hi2)"
    "get_remote_static N hi2 = Some (public kr)" "is_initiator N hi2" "raw_split N hi2 = raw_split N hr2"
    and rs: "get_remote_static N hr2 = Some (public ki)" "\<not> is_initiator N hr2" by blast
  from split_keys_mirrored [OF keys hi2(3) rs(2) hi2(4) hi2(2)] obtain keys_i where
    "split_keys_of N hi2 = Inr keys_i" "mirrored keys_i keys_r" "remote_static keys_i = public kr" by blast
  moreover have "remote_static keys_r = public ki"
    using keys rs(1) by (auto simp: split_keys_of_def split: prod.splits)
  ultimately show ?thesis
    using d hi2(1) dec \<open>j \<noteq> 0\<close> by (simp add: finish_initiator_def)
qed

text \<open>The payload of a handshake message, and that both messages are made and accepted when the library
  has room for their payloads.\<close>

definition hello :: "pb_ops \<Rightarrow> bytes \<Rightarrow> u32 \<Rightarrow> u32 \<Rightarrow> u64 \<Rightarrow> bytes" where
  "hello P cert i j t = encode_handshake P \<lparr>nh_details = Some \<lparr>hd_cert = cert, initiator_index = i,
     responder_index = j, cookie = 0, hd_time = t, cert_version = 2\<rparr>, nh_hmac = []\<rparr>"

lemma handshake_succeeds:
  assumes laws: "noise_laws N public" "pb_laws P" and "noise_accepts N c ki kr n" and "i \<noteq> 0"
    and fits: "length (hello P cert_i i 0 ti) \<le> n" "length (hello P cert_r i j tr) \<le> n"
  obtains hs m1 d m2 keys where "stage0 N P ti c ki cert_i i = Inr (hs, m1)"
    and "respond N P tr c kr cert_r j m1 = Inr (d, m2, keys)"
proof -
  from assms(3) obtain hi hr where hi: "noise_initiator N (noise_params c) ki = Inr hi"
    and hr: "noise_responder N (noise_params c) kr = Inr hr"
    and w1: "\<And>p. length p \<le> n \<Longrightarrow> \<exists>m hi1. noise_write N hi p = Inr (m, hi1)"
    and w2: "\<And>m p hr1 p2. noise_read N hr m = Inr (p, hr1) \<Longrightarrow> length p2 \<le> n \<Longrightarrow> \<exists>m2 hr2. noise_write N hr1 p2 = Inr (m2, hr2)"
    unfolding noise_accepts_def by blast
  from w1 [OF fits(1)] obtain m1 hs where m1: "noise_write N hi (hello P cert_i i 0 ti) = Inr (m1, hs)" by blast
  from laws(1) [unfolded noise_laws_def, rule_format, OF hi hr m1]
  obtain hr1 where rd: "noise_read N hr m1 = Inr (hello P cert_i i 0 ti, hr1)"
    and second: "\<And>p2 m2 hr2. noise_write N hr1 p2 = Inr (m2, hr2) \<Longrightarrow> get_remote_static N hr2 = Some (public ki)"
    by blast
  from w2 [OF rd fits(2)] obtain m2 hr2 where m2: "noise_write N hr1 (hello P cert_r i j tr) = Inr (m2, hr2)" by blast
  obtain keys where "split_keys_of N hr2 = Inr keys"
    using second [OF m2] by (cases "raw_split N hr2"; cases "is_initiator N hr2") (auto simp: split_keys_of_def)
  with hr rd m2 laws(2) \<open>i \<noteq> 0\<close> have "\<exists>d. respond N P tr c kr cert_r j m1 = Inr (d, m2, keys)"
    by (simp add: respond_def hello_def pb_laws_def)
  moreover have "stage0 N P ti c ki cert_i i = Inr (hs, m1)" using hi m1 by (simp add: stage0_def hello_def)
  ultimately show thesis using that by blast
qed

section \<open>Instances of the external interfaces\<close>

text \<open>A Noise pattern without secrecy that has the documented shape: a message carries the
  sender's 32-byte public value and the payload.\<close>

type_synonym plain_state = "bool \<times> bytes \<times> bytes option"

definition plain_public :: "bytes \<Rightarrow> bytes" where
  "plain_public k = take 32 (k @ replicate 32 0)"

fun plain_split :: "plain_state \<Rightarrow> bytes \<times> bytes" where
  "plain_split (initiator, k, rs) =
     (let own = plain_public k; other = (case rs of Some r \<Rightarrow> r | None \<Rightarrow> [])
      in if initiator then (own @ other, other @ own) else (other @ own, own @ other))"

definition plain_noise :: "plain_state noise_ops" where
  "plain_noise = \<lparr>noise_initiator = (\<lambda>params k. Inr (True, k, None)),
     noise_responder = (\<lambda>params k. Inr (False, k, None)),
     noise_write = (\<lambda>(i, k, rs) p. Inr (plain_public k @ p, (i, k, rs))),
     noise_read = (\<lambda>(i, k, rs) m. if length m < 32 then Inl ''short'' else Inr (drop 32 m, (i, k, Some (take 32 m)))),
     get_remote_static = (\<lambda>(i, k, rs). rs), raw_split = plain_split, is_initiator = fst\<rparr>"

lemma length_plain_public [simp]: "length (plain_public k) = 32"
  by (simp add: plain_public_def)

lemma plain_noise_laws: "noise_laws plain_noise plain_public"
  unfolding noise_laws_def
proof (intro allI impI, goal_cases)
  case (1 params ki kr hsi hsr p1 m1 hsi1)
  then have "hsr = (False, kr, None)" "m1 = plain_public ki @ p1" "hsi1 = (True, ki, None)"
    by (auto simp: plain_noise_def)
  then show ?case
    by (intro exI [of _ "(False, kr, Some (plain_public ki))"]) (auto simp: plain_noise_def Let_def)
qed

lemma plain_noise_accepts: "noise_accepts plain_noise c ki kr n"
  by (auto simp: noise_accepts_def plain_noise_def)

text \<open>A self-delimiting codec for the handshake message.\<close>

fun put_bytes :: "bytes \<Rightarrow> bytes" where
  "put_bytes [] = [0]"
| "put_bytes (b # bs) = 1 # b # put_bytes bs"

fun take_bytes :: "bytes \<Rightarrow> (bytes \<times> bytes) option" where
  "take_bytes [] = None"
| "take_bytes [t] = (if t = 0 then Some ([], []) else None)"
| "take_bytes (t # b # r) =
     (if t = 0 then Some ([], b # r) else map_option (\<lambda>(bs, r). (b # bs, r)) (take_bytes r))"

lemma take_put_bytes [simp]: "take_bytes (put_bytes bs @ r) = Some (bs, r)"
  by (induction bs) (cases r; simp)+

lemma length_put_bytes [simp]: "length (put_bytes bs) = 2 * length bs + 1"
  by (induction bs) simp_all

definition put_details :: "handshake_details \<Rightarrow> bytes" where
  "put_details d = to_be 4 (initiator_index d) @ to_be 4 (responder_index d) @ to_be 8 (cookie d)
     @ to_be 8 (hd_time d) @ to_be 4 (cert_version d) @ put_bytes (hd_cert d)"

definition take_details :: "bytes \<Rightarrow> (handshake_details \<times> bytes) option" where
  "take_details b =
     map_option (\<lambda>(c, r). (\<lparr>hd_cert = c, initiator_index = from_be (take 4 b),
       responder_index = from_be (take 4 (drop 4 b)), cookie = from_be (take 8 (drop 8 b)),
       hd_time = from_be (take 8 (drop 16 b)), cert_version = from_be (take 4 (drop 24 b))\<rparr>, r))
       (take_bytes (drop 28 b))"

lemma take_put_details [simp]: "take_details (put_details d @ r) = Some (d, r)"
  by (simp add: take_details_def put_details_def)

definition simple_encode :: "nebula_handshake \<Rightarrow> bytes" where
  "simple_encode h = put_bytes (nh_hmac h) @ (case nh_details h of None \<Rightarrow> [] | Some d \<Rightarrow> put_details d)"

definition simple_decode :: "bytes \<Rightarrow> string + nebula_handshake" where
  "simple_decode b =
     (case take_bytes b of
        None \<Rightarrow> Inl ''hmac''
      | Some (h, r) \<Rightarrow>
          if r = [] then Inr \<lparr>nh_details = None, nh_hmac = h\<rparr>
          else (case take_details r of
                  None \<Rightarrow> Inl ''details''
                | Some (d, _) \<Rightarrow> Inr \<lparr>nh_details = Some d, nh_hmac = h\<rparr>))"

definition simple_pb :: pb_ops where
  "simple_pb = \<lparr>encode_handshake = simple_encode, decode_handshake = simple_decode,
     encode_meta = (\<lambda>m. []), decode_meta = (\<lambda>b. Inr (host_query (V4 0)))\<rparr>"

lemma length_simple_hello: "length (hello simple_pb cert i j t) = 2 * length cert + 30"
  by (simp add: hello_def simple_pb_def simple_encode_def put_details_def)

lemma simple_pb_laws: "pb_laws simple_pb"
proof -
  have "simple_decode (simple_encode h) = Inr h" for h
  proof (cases "nh_details h")
    case None
    then show ?thesis using take_put_bytes [of "nh_hmac h" "[]"]
      by (simp add: simple_decode_def simple_encode_def)
  next
    case (Some d)
    have "put_details d \<noteq> []" by (simp add: put_details_def numeral_eq_Suc)
    with Some take_put_details [of d "[]"] show ?thesis
      by (simp add: simple_decode_def simple_encode_def)
  qed
  then show ?thesis by (simp add: pb_laws_def simple_pb_def)
qed

section \<open>Properties\<close>

text \<open>C25: When the responder accepts an initiator's first message, its reply completes the
  handshake at the initiator: each side holds the other's certificate bytes, tunnel index and
  static key, and each side's sending key is the other's receiving key.\<close>

theorem handshake_agreement:
  assumes "noise_laws N public" and "pb_laws P"
    and "stage0 N P ti c ki cert_i i = Inr (hs, m1)"
    and "respond N P tr c kr cert_r j m1 = Inr (d_r, m2, keys_r)" and "j \<noteq> 0"
  shows "hd_cert d_r = cert_i \<and> initiator_index d_r = i \<and> remote_static keys_r = public ki \<and>
    (\<exists>d_i keys_i. finish_initiator N P hs m2 = Inr (d_i, keys_i) \<and> hd_cert d_i = cert_r \<and>
       responder_index d_i = j \<and> remote_static keys_i = public kr \<and>
       send_key keys_i = recv_key keys_r \<and> recv_key keys_i = send_key keys_r)"
  using handshake_ends_agree [OF assms] by (simp add: mirrored_def)

lemma plain_stage0:
  "stage0 plain_noise simple_pb 1 AesGcm [1] [8] 42 = Inr ((True, [1], None),
     plain_public [1] @ simple_encode \<lparr>nh_details = Some \<lparr>hd_cert = [8], initiator_index = 42,
       responder_index = 0, cookie = 0, hd_time = 1, cert_version = 2\<rparr>, nh_hmac = []\<rparr>)"
  by (simp add: stage0_def plain_noise_def simple_pb_def)

lemma plain_respond:
  "respond plain_noise simple_pb 2 AesGcm [2] [9] 99
     (plain_public [1] @ simple_encode \<lparr>nh_details = Some \<lparr>hd_cert = [8], initiator_index = 42,
       responder_index = 0, cookie = 0, hd_time = 1, cert_version = 2\<rparr>, nh_hmac = []\<rparr>) =
   Inr (\<lparr>hd_cert = [8], initiator_index = 42, responder_index = 0, cookie = 0, hd_time = 1, cert_version = 2\<rparr>,
     plain_public [2] @ simple_encode \<lparr>nh_details = Some \<lparr>hd_cert = [9], initiator_index = 42,
       responder_index = 99, cookie = 0, hd_time = 2, cert_version = 2\<rparr>, nh_hmac = []\<rparr>,
     \<lparr>remote_static = plain_public [1], send_key = plain_public [2] @ plain_public [1],
      recv_key = plain_public [1] @ plain_public [2]\<rparr>)"
  using simple_pb_laws
  by (simp add: respond_def plain_noise_def pb_laws_def simple_pb_def split_keys_of_def Let_def)

theorem handshake_agreement_witness:
  "\<exists>d keys. finish_initiator plain_noise simple_pb (True, [1], None)
      (plain_public [2] @ simple_encode \<lparr>nh_details = Some \<lparr>hd_cert = [9], initiator_index = 42,
         responder_index = 99, cookie = 0, hd_time = 2, cert_version = 2\<rparr>, nh_hmac = []\<rparr>) = Inr (d, keys) \<and>
    hd_cert d = [9] \<and> responder_index d = 99 \<and> send_key keys = plain_public [1] @ plain_public [2]"
  using handshake_agreement [OF plain_noise_laws simple_pb_laws plain_stage0 plain_respond] by auto

text \<open>Neither side accepts a zero tunnel index: \<open>respond\<close> succeeds only on a nonzero
  initiator index and \<open>finish_initiator\<close> only on a nonzero responder index, and a first
  message that otherwise reads correctly but carries index 0 gives exactly that error.\<close>

theorem zero_index_rejected:
  assumes "noise_laws N public" and "pb_laws P"
    and "stage0 N P ti c ki cert_i 0 = Inr (hs, m1)" and "noise_responder N (noise_params c) kr = Inr hr"
  shows "respond N P tr c kr cert_r j m1 = Inl HandshakeInvalidRemoteIndex \<and>
    (\<forall>body d msg keys. respond N P tr c kr cert_r j body = Inr (d, msg, keys) \<longrightarrow> initiator_index d \<noteq> 0) \<and>
    (\<forall>h body d keys. finish_initiator N P h body = Inr (d, keys) \<longrightarrow> responder_index d \<noteq> 0)"
proof -
  let ?p = "\<lparr>nh_details = Some \<lparr>hd_cert = cert_i, initiator_index = 0, responder_index = 0,
    cookie = 0, hd_time = ti, cert_version = 2\<rparr>, nh_hmac = []\<rparr>"
  from assms(3) obtain h0 where "noise_initiator N (noise_params c) ki = Inr h0"
    and "noise_write N h0 (encode_handshake P ?p) = Inr (m1, hs)"
    by (auto simp: stage0_def result_simps)
  with assms(1,4) obtain h1 where "noise_read N hr m1 = Inr (encode_handshake P ?p, h1)"
    unfolding noise_laws_def by blast
  with assms(2,4) have "respond N P tr c kr cert_r j m1 = Inl HandshakeInvalidRemoteIndex"
    by (simp add: respond_def pb_laws_def)
  then show ?thesis by (auto dest: respond_index finish_index)
qed

theorem zero_index_rejected_witness:
  "respond plain_noise simple_pb 2 AesGcm [2] [9] 99
     (plain_public [1] @ simple_encode \<lparr>nh_details = Some \<lparr>hd_cert = [8], initiator_index = 0,
       responder_index = 0, cookie = 0, hd_time = 1, cert_version = 2\<rparr>, nh_hmac = []\<rparr>) =
   Inl HandshakeInvalidRemoteIndex"
proof -
  have "stage0 plain_noise simple_pb 1 AesGcm [1] [8] 0 = Inr ((True, [1], None),
     plain_public [1] @ simple_encode \<lparr>nh_details = Some \<lparr>hd_cert = [8], initiator_index = 0,
       responder_index = 0, cookie = 0, hd_time = 1, cert_version = 2\<rparr>, nh_hmac = []\<rparr>)"
    by (simp add: stage0_def plain_noise_def simple_pb_def)
  from zero_index_rejected [OF plain_noise_laws simple_pb_laws this, of "[2]" "(False, [2], None)" 2 "[9]" 99]
  show ?thesis by (simp add: plain_noise_def)
qed

end
