(* ===== verification/Der_Tlv.thy ===== *)
theory Der_Tlv
  imports Proto_Error Std_String
begin

text \<open>
  The codec layer of \<open>nebula-protocol/src/cert/der.rs\<close>: tag-length-value writing, the
  \<open>Reader\<close> cursor, and DER integers. The functions the code calls on a mutable reader return
  the moved reader beside the value; on an error the code drops the reader, and so does the model.
  Sizes are \<open>nat\<close>; a Rust slice is shorter than \<open>usize_bound\<close>, which the lemmas state
  where the overflow checks of the code need it.
\<close>

section \<open>Writing\<close>

definition write_length :: "bytes \<Rightarrow> nat \<Rightarrow> bytes" where
  "write_length out len =
     (if len < 0x80 then out @ [of_nat len]
      else
        let bs = to_be 8 (of_nat len :: u64);
            zeros = length (takeWhile (\<lambda>b. b = 0) bs);
            first_nonzero = (if zeros < length bs then zeros else length bs - 1);
            significant = drop first_nonzero bs
        in out @ [0x80 OR of_nat (length significant)] @ significant)"

definition write_tlv :: "bytes \<Rightarrow> u8 \<Rightarrow> bytes \<Rightarrow> bytes" where
  "write_tlv out tag content = write_length (out @ [tag]) (length content) @ content"

section \<open>Reading\<close>

record reader =
  data :: bytes
  pos :: nat

definition reader_new :: "bytes \<Rightarrow> reader" where
  "reader_new d = \<lparr>data = d, pos = 0\<rparr>"

definition reader_is_empty :: "reader \<Rightarrow> bool" where
  "reader_is_empty r = (pos r \<ge> length (data r))"

definition peek_tag :: "reader \<Rightarrow> u8 option" where
  "peek_tag r = get (data r) (pos r)"

definition checked_add :: "nat \<Rightarrow> nat \<Rightarrow> nat option" where
  "checked_add a b = (if a + b < usize_bound then Some (a + b) else None)"

definition read_length :: "reader \<Rightarrow> (nat \<times> reader) result" where
  "read_length r =
     and_then (ok_or (Der ''truncated length'') (get (data r) (pos r))) (\<lambda>first.
     let r = r\<lparr>pos := pos r + 1\<rparr> in
     if first AND 0x80 = 0 then Inr (unat first, r)
     else
       let num_bytes = unat (first AND 0x7f) in
       if num_bytes = 0 \<or> num_bytes > 8 then Inl (Der ''unsupported length encoding'')
       else
         and_then (ok_or (Der ''length overflow'') (checked_add (pos r) num_bytes)) (\<lambda>end.
         and_then (ok_or (Der ''truncated length'') (get_range (data r) (pos r) end)) (\<lambda>slice.
         let buf = replicate (8 - num_bytes) 0 @ slice in
         Inr (unat (from_be buf :: u64), r\<lparr>pos := end\<rparr>))))"

definition read_tlv :: "reader \<Rightarrow> u8 \<Rightarrow> (bytes \<times> reader) result" where
  "read_tlv r expected_tag =
     and_then (ok_or (Der ''truncated tag'') (get (data r) (pos r))) (\<lambda>tag.
     if tag \<noteq> expected_tag
     then Inl (Der (''expected tag '' @ show_hex (unat expected_tag) @ '', got '' @ show_hex (unat tag)))
     else
       and_then (read_length (r\<lparr>pos := pos r + 1\<rparr>)) (\<lambda>(len, r).
       and_then (ok_or (Der ''length overflow'') (checked_add (pos r) len)) (\<lambda>end.
       and_then (ok_or (Der ''truncated content'') (get_range (data r) (pos r) end)) (\<lambda>content.
       Inr (content, r\<lparr>pos := end\<rparr>)))))"

text \<open>The slice \<open>data[start..pos]\<close> lies in the data the reader has just passed.\<close>

definition read_tlv_raw :: "reader \<Rightarrow> u8 \<Rightarrow> (bytes \<times> reader) result" where
  "read_tlv_raw r expected_tag =
     and_then (read_tlv r expected_tag) (\<lambda>(_, r'). Inr (take (pos r' - pos r) (drop (pos r) (data r)), r'))"

definition read_tlv_opt :: "reader \<Rightarrow> u8 \<Rightarrow> (bytes option \<times> reader) result" where
  "read_tlv_opt r expected_tag =
     (if peek_tag r = Some expected_tag
      then and_then (read_tlv r expected_tag) (\<lambda>(content, r). Inr (Some content, r))
      else Inr (None, r))"

section \<open>Integers\<close>

text \<open>An \<open>i64\<close> is its 64 bits; comparisons of it are signed.\<close>

type_synonym i64 = "64 word"

text \<open>The loop drops a zero byte while the next byte has its top bit clear, and stops at the
  last byte.\<close>

fun strip_int :: "bytes \<Rightarrow> bytes" where
  "strip_int (b0 # b1 # bs) = (if b0 = 0 \<and> b1 AND 0x80 = 0 then strip_int (b1 # bs) else b0 # b1 # bs)"
| "strip_int bs = bs"

definition encode_der_int :: "i64 \<Rightarrow> bytes" where
  "encode_der_int v = strip_int (to_be 8 v)"

definition decode_der_int :: "bytes \<Rightarrow> i64 result" where
  "decode_der_int b =
     (if b = [] \<or> length b > 8 then Inl (Der ''invalid integer length'')
      else
        let fill = (if b ! 0 AND 0x80 \<noteq> 0 then 0xff else 0)
        in Inr (from_be (replicate (8 - length b) fill @ b)))"

section \<open>The cursor as a suffix\<close>

text \<open>
  \<open>view\<close> is what is left to read. A successful read depends only on the bytes it consumes:
  \<open>tlv_split\<close> computes the content and the number of bytes consumed from the suffix alone.
\<close>

definition view :: "reader \<Rightarrow> bytes" where
  "view r = drop (pos r) (data r)"

definition reader_ok :: "reader \<Rightarrow> bool" where
  "reader_ok r = (pos r \<le> length (data r) \<and> length (data r) < usize_bound)"

definition advance :: "reader \<Rightarrow> nat \<Rightarrow> reader" where
  "advance r k = r\<lparr>pos := pos r + k\<rparr>"

definition length_split :: "bytes \<Rightarrow> (nat \<times> nat) option" where
  "length_split s =
     (case s of
        [] \<Rightarrow> None
      | first # t \<Rightarrow>
          if first AND 0x80 = 0 then Some (unat first, 1)
          else
            let n = unat (first AND 0x7f) in
            if n = 0 \<or> n > 8 \<or> length t < n then None
            else Some (unat (from_be (take n t) :: u64), 1 + n))"

definition tlv_split :: "u8 \<Rightarrow> bytes \<Rightarrow> (bytes \<times> nat) option" where
  "tlv_split tag s =
     (case s of
        [] \<Rightarrow> None
      | t # s \<Rightarrow>
          if t \<noteq> tag then None
          else
            (case length_split s of
               None \<Rightarrow> None
             | Some (n, k) \<Rightarrow>
                 if length s < k + n then None else Some (take n (drop k s), 1 + k + n)))"

lemma view_advance: "view (advance r k) = drop k (view r)"
  by (simp add: view_def advance_def add.commute)

lemma reader_ok_advance: "reader_ok r \<Longrightarrow> k \<le> length (view r) \<Longrightarrow> reader_ok (advance r k)"
  by (auto simp: reader_ok_def view_def advance_def)

lemma view_new [simp]: "view (reader_new d) = d"
  by (simp add: view_def reader_new_def)

lemma reader_ok_new [simp]: "reader_ok (reader_new d) \<longleftrightarrow> length d < usize_bound"
  by (simp add: reader_ok_def reader_new_def)

lemma from_be_leading_zeros [simp]: "from_be (replicate n 0 @ bs) = from_be bs"
  by (induction n) (simp_all add: from_be_Cons)

lemma length_view: "length (view r) = length (data r) - pos r"
  by (simp add: view_def)

lemma get_view: "get (data r) (pos r + i) = get (view r) i"
  by (auto simp: get_def view_def)

lemma get_range_view:
  "reader_ok r \<Longrightarrow> get_range (data r) (pos r) (pos r + n) = (if n \<le> length (view r) then Some (take n (view r)) else None)"
  by (auto simp: get_range_def view_def reader_ok_def)

lemma read_length_split:
  assumes "reader_ok r"
  shows "read_length r = Inr (n, r') \<longleftrightarrow> (\<exists>k. length_split (view r) = Some (n, k) \<and> r' = advance r k)"
proof (cases "view r")
  case Nil
  then have "get (data r) (pos r) = None" using get_view [of r 0] by simp
  with Nil show ?thesis by (simp add: read_length_def length_split_def get_def)
next
  case (Cons first t)
  then have first: "get (data r) (pos r) = Some first" using get_view [of r 0] by simp
  have t: "view (advance r 1) = t" and ok: "reader_ok (advance r 1)"
    using Cons assms by (simp_all add: view_advance reader_ok_advance)
  have rng: "get_range (data r) (Suc (pos r)) (Suc (pos r) + m) = (if m \<le> length t then Some (take m t) else None)" for m
    using get_range_view [OF ok, of m] t by (simp add: advance_def)
  have add: "checked_add (Suc (pos r)) m = Some (Suc (pos r) + m)" if "m \<le> length t" for m
    using ok that t by (auto simp: checked_add_def reader_ok_def advance_def length_view [symmetric] view_def)
  show ?thesis
    using first Cons rng add
    by (auto simp: read_length_def length_split_def result_simps Let_def advance_def
        checked_add_def split: if_splits)
qed

lemma length_split_bounds: "length_split s = Some (n, k) \<Longrightarrow> 0 < k \<and> k \<le> length s \<and> n < usize_bound"
  using unsigned_less [where 'a = nat, of "from_be (take (k - 1) (tl s)) :: u64"]
    unsigned_less [where 'a = nat, of "hd s"]
  by (auto simp: length_split_def Let_def split: list.splits if_splits)

lemma read_tlv_split:
  assumes "reader_ok r"
  shows "read_tlv r tag = Inr (c, r') \<longleftrightarrow> (\<exists>k. tlv_split tag (view r) = Some (c, k) \<and> r' = advance r k)"
proof (cases "view r")
  case Nil
  then have "get (data r) (pos r) = None" using get_view [of r 0] by simp
  with Nil show ?thesis by (simp add: read_tlv_def tlv_split_def get_def)
next
  case (Cons t s)
  then have t: "get (data r) (pos r) = Some t" using get_view [of r 0] by simp
  let ?r = "advance r 1"
  have s: "view ?r = s" and ok: "reader_ok ?r"
    using Cons assms by (simp_all add: view_advance reader_ok_advance)
  have content: "(\<exists>e. checked_add (pos r'') n = Some e \<and> get_range (data r'') (pos r'') e = Some c \<and> r' = r''\<lparr>pos := e\<rparr>)
      \<longleftrightarrow> k + n \<le> length s \<and> c = take n (drop k s) \<and> r' = advance r (1 + k + n)"
    if "length_split s = Some (n, k)" and r'': "r'' = advance ?r k" for n k r''
  proof -
    have "reader_ok r''" and view: "view r'' = drop k s"
      using ok s length_split_bounds [OF that(1)] by (simp_all add: r'' view_advance reader_ok_advance)
    moreover have "r''\<lparr>pos := pos r'' + n\<rparr> = advance r (1 + k + n)"
      by (simp add: r'' advance_def)
    moreover have "pos r'' + n < usize_bound" if "k + n \<le> length s"
      using \<open>reader_ok r''\<close> view that length_view [of r''] by (auto simp: reader_ok_def)
    ultimately show ?thesis
      using get_range_view [of r'' n] length_split_bounds [OF that(1)]
      by (auto simp: checked_add_def)
  qed
  have "read_tlv r tag = Inr (c, r') \<longleftrightarrow> t = tag \<and> (\<exists>n r''. read_length ?r = Inr (n, r'') \<and>
      (\<exists>e. checked_add (pos r'') n = Some e \<and> get_range (data r'') (pos r'') e = Some c \<and> r' = r''\<lparr>pos := e\<rparr>))"
    using t by (auto simp: read_tlv_def result_simps advance_def)
  also have "\<dots> \<longleftrightarrow> t = tag \<and> (\<exists>n k. length_split s = Some (n, k) \<and>
      k + n \<le> length s \<and> c = take n (drop k s) \<and> r' = advance r (1 + k + n))"
    using content unfolding read_length_split [OF ok] s by blast
  also have "\<dots> \<longleftrightarrow> (\<exists>k. tlv_split tag (view r) = Some (c, k) \<and> r' = advance r k)"
    by (auto simp: tlv_split_def Cons split: option.split)
  finally show ?thesis .
qed

lemma tlv_split_bounds: "tlv_split tag s = Some (c, k) \<Longrightarrow> 2 \<le> k \<and> k \<le> length s \<and> length c < usize_bound"
  by (auto simp: tlv_split_def split: list.splits if_splits option.splits dest!: length_split_bounds)

lemma length_split_local:
  assumes "length_split s = Some (n, k)" and "k \<le> m"
  shows "length_split (take m s @ rest) = Some (n, k)"
proof -
  obtain first t where s: "s = first # t" using assms(1) by (cases s) (auto simp: length_split_def)
  from assms(2) length_split_bounds [OF assms(1)] obtain j where m: "m = Suc j" by (cases m) auto
  show ?thesis
    using assms by (auto simp: length_split_def s m Let_def min_def split: if_splits)
qed

lemma tlv_split_local:
  assumes "tlv_split tag s = Some (c, k)"
  shows "tlv_split tag (take k s @ rest) = Some (c, k)"
proof -
  obtain t u where s: "s = t # u" using assms by (cases s) (auto simp: tlv_split_def)
  from assms obtain n j where j: "length_split u = Some (n, j)" "k = Suc (j + n)" "j + n \<le> length u"
    and c: "t = tag" "c = take n (drop j u)"
    by (auto simp: tlv_split_def s split: if_splits option.splits)
  from length_split_local [OF j(1), of "j + n" rest] j c show ?thesis
    by (auto simp: tlv_split_def s min_def drop_take)
qed

lemma tlv_split_self: "tlv_split tag s = Some (c, k) \<Longrightarrow> tlv_split tag (take k s) = Some (c, k)"
  using tlv_split_local [where rest = "[]"] by simp

section \<open>Reading what was written\<close>

abbreviation tlv :: "u8 \<Rightarrow> bytes \<Rightarrow> bytes" where
  "tlv tag content \<equiv> write_tlv [] tag content"

lemma write_length_append: "write_length out n = out @ write_length [] n"
  by (simp add: write_length_def Let_def)

lemma write_tlv_append: "write_tlv out tag content = out @ tlv tag content"
  unfolding write_tlv_def
  by (subst write_length_append, subst (2) write_length_append) simp

lemma fold_write_tlv:
  "fold (\<lambda>x out. write_tlv out tag (f x)) xs out = out @ concat (map (\<lambda>x. tlv tag (f x)) xs)"
proof (induction xs arbitrary: out)
  case (Cons x xs)
  then show ?case by (simp add: write_tlv_append [of out])
qed simp

lemma of_nat_u8_small: "n < 0x80 \<Longrightarrow> (of_nat n :: u8) AND 0x80 = 0 \<and> unat (of_nat n :: u8) = n"
proof -
  assume n: "n < 0x80"
  have "\<not> bit (unat (of_nat n :: u8)) 7"
    using n by (simp add: unat_of_nat bit_iff_odd)
  then have "\<not> bit (of_nat n :: u8) 7" by (simp add: bit_unsigned_iff)
  then have "(of_nat n :: u8) AND 2 ^ 7 = 0" by (simp only: and_exp_eq_0_iff_not_bit) simp
  with n show ?thesis by (simp add: unat_of_nat)
qed

lemma long_length_byte:
  assumes "1 \<le> k" and "k \<le> (8 :: nat)"
  shows "(0x80 OR of_nat k :: u8) AND 0x80 \<noteq> 0" and "unat ((0x80 OR of_nat k :: u8) AND 0x7f) = k"
proof -
  from assms have "k \<in> {1, 2, 3, 4, 5, 6, 7, 8}" by auto
  then show "(0x80 OR of_nat k :: u8) AND 0x80 \<noteq> 0" and "unat ((0x80 OR of_nat k :: u8) AND 0x7f) = k"
    by auto
qed

lemma from_be_drop_zeros: "from_be (dropWhile (\<lambda>b. b = 0) bs) = from_be bs"
  by (induction bs) (simp_all add: from_be_Cons)

lemma length_split_write:
  assumes "n < usize_bound"
  shows "length_split (write_length [] n @ rest) = Some (n, length (write_length [] n))"
proof (cases "n < 0x80")
  case True
  with of_nat_u8_small [OF True] show ?thesis by (simp add: write_length_def length_split_def)
next
  case False
  define bs where "bs = to_be 8 (of_nat n :: u64)"
  define sig where "sig = dropWhile (\<lambda>b. b = 0) bs"
  have len: "length bs = 8" by (simp add: bs_def)
  have val: "from_be sig = (of_nat n :: u64)" by (simp add: sig_def from_be_drop_zeros bs_def)
  have unat: "unat (of_nat n :: u64) = n" using assms by (simp add: unat_of_nat)
  with False have "(of_nat n :: u64) \<noteq> 0" by (metis not_less unsigned_0 zero_less_numeral)
  with val have "sig \<noteq> []" by auto
  then have sig: "1 \<le> length sig" "length sig \<le> 8"
    using len length_dropWhile_le [of "\<lambda>b. b = 0" bs] by (simp_all add: sig_def Suc_leI)
  have zeros: "length (takeWhile (\<lambda>b. b = 0) bs) < length bs"
    using \<open>sig \<noteq> []\<close> by (metis sig_def append_Nil2 length_takeWhile_le nat_less_le takeWhile_dropWhile_id
        append_same_eq length_append add_cancel_right_right length_0_conv)
  have "drop (length (takeWhile (\<lambda>b. b = 0) bs)) bs = sig" by (simp add: sig_def dropWhile_eq_drop)
  with False zeros have "write_length [] n = (0x80 OR of_nat (length sig)) # sig"
    by (simp add: write_length_def Let_def bs_def [symmetric] del: length_drop)
  with long_length_byte [OF sig] val unat sig show ?thesis
    by (auto simp: length_split_def Let_def)
qed

lemma tlv_split_write:
  assumes "length c < usize_bound"
  shows "tlv_split tag (tlv tag c @ rest) = Some (c, length (tlv tag c))"
proof -
  have "tlv tag c = tag # write_length [] (length c) @ c"
    by (simp add: write_tlv_def write_length_append [of "[tag]"])
  with length_split_write [OF assms, of "c @ rest"] show ?thesis
    by (simp add: tlv_split_def)
qed

lemma tlv_head: "\<exists>t. tlv tag c = tag # t"
  by (simp add: write_tlv_def write_length_append [of "[tag]"])

lemma tlv_not_Nil [simp]: "tlv tag c \<noteq> []"
  using tlv_head [of tag c] by auto

lemma length_tlv_ge: "length c < length (tlv tag c)"
  by (simp add: write_tlv_def write_length_append [of "[tag]"])

lemma read_tlv_view:
  assumes "reader_ok r" and "view r = tlv tag c @ rest"
  obtains r' where "read_tlv r tag = Inr (c, r')" and "view r' = rest" and "reader_ok r'"
proof
  have "length c < usize_bound"
    using assms length_tlv_ge [of c tag] length_view [of r] by (auto simp: reader_ok_def)
  then show "read_tlv r tag = Inr (c, advance r (length (tlv tag c)))"
    using read_tlv_split [OF assms(1)] tlv_split_write assms(2) by simp
  show "view (advance r (length (tlv tag c))) = rest" by (simp add: view_advance assms(2))
  show "reader_ok (advance r (length (tlv tag c)))" using assms by (simp add: reader_ok_advance)
qed

lemma peek_view: "peek_tag r = get (view r) 0"
  using get_view [of r 0] by (simp add: peek_tag_def)

text \<open>An optional field: present when it was written, absent when another tag follows.\<close>

lemma read_tlv_opt_view:
  assumes "reader_ok r" and "view r = (if present then tlv tag c else []) @ rest"
    and "\<not> present \<Longrightarrow> get rest 0 \<noteq> Some tag"
  obtains r' where "read_tlv_opt r tag = Inr (if present then Some c else None, r')"
    and "view r' = rest" and "reader_ok r'"
proof (cases present)
  case True
  with assms have v: "view r = tlv tag c @ rest" by simp
  from read_tlv_view [OF assms(1) this] obtain r'
    where r': "read_tlv r tag = Inr (c, r')" "view r' = rest" "reader_ok r'" .
  have "peek_tag r = Some tag" using v tlv_head [of tag c] by (auto simp: peek_view)
  with r' True that show thesis by (simp add: read_tlv_opt_def)
next
  case False
  with assms that show thesis by (simp add: read_tlv_opt_def peek_view)
qed

lemma reader_is_empty_view: "reader_is_empty r \<longleftrightarrow> view r = []"
  by (simp add: reader_is_empty_def view_def)

section \<open>Integers round trip\<close>

lemma strip_int_drop:
  "\<exists>k \<le> length bs. bs = replicate k 0 @ strip_int bs \<and> (0 < k \<longrightarrow> strip_int bs ! 0 AND 0x80 = 0) \<and>
     (bs \<noteq> [] \<longrightarrow> strip_int bs \<noteq> [])"
proof (induction bs rule: strip_int.induct)
  case (1 b0 b1 bs)
  show ?case
  proof (cases "b0 = 0 \<and> b1 AND 0x80 = 0")
    case True
    with 1 obtain k where k: "k \<le> length (b1 # bs)" "b1 # bs = replicate k 0 @ strip_int (b1 # bs)"
      "0 < k \<longrightarrow> strip_int (b1 # bs) ! 0 AND 0x80 = 0" "strip_int (b1 # bs) \<noteq> []" by auto
    have "strip_int (b1 # bs) ! 0 AND 0x80 = 0"
    proof (cases "k = 0")
      case True
      with k(2) have "strip_int (b1 # bs) = b1 # bs" by simp
      with \<open>b0 = 0 \<and> b1 AND 0x80 = 0\<close> show ?thesis by simp
    qed (use k in simp)
    with True k show ?thesis by (intro exI [of _ "Suc k"]) auto
  next
    case False
    then show ?thesis by (intro exI [of _ 0]) auto
  qed
qed (intro exI [of _ 0], simp)+

lemma decode_encode_der_int [simp]: "decode_der_int (encode_der_int v) = Inr v"
proof -
  obtain k where k: "to_be 8 v = replicate k 0 @ encode_der_int v"
    and msb: "0 < k \<longrightarrow> encode_der_int v ! 0 AND 0x80 = 0" and ne: "encode_der_int v \<noteq> []"
    using strip_int_drop [of "to_be 8 v"] length_greater_0_conv [of "to_be 8 v"]
    by (auto simp: encode_der_int_def)
  have len: "8 = k + length (encode_der_int v)" using arg_cong [OF k, of length] by simp
  have "from_be (replicate k 0 @ encode_der_int v) = v" by (simp only: k [symmetric]) simp
  with msb ne len show ?thesis
    by (cases "k = 0") (simp_all add: decode_der_int_def Let_def flip: One_nat_def)
qed

end
