(* ===== verification/Cert_Der.thy ===== *)
theory Cert_Der
  imports Der_Tlv
begin

text \<open>
  The certificate layer of \<open>nebula-protocol/src/cert/der.rs\<close>: curves, networks, the details
  block and the certificate with its three encodings (full, for signing, for a handshake).
\<close>

section \<open>Tags\<close>

definition CLASS_CONSTRUCTED :: u8 where "CLASS_CONSTRUCTED = 0x20"
definition CLASS_CONTEXT :: u8 where "CLASS_CONTEXT = 0x80"
definition TAG_CERT_DETAILS :: u8 where "TAG_CERT_DETAILS = 0 OR CLASS_CONSTRUCTED OR CLASS_CONTEXT"
definition TAG_CERT_CURVE :: u8 where "TAG_CERT_CURVE = 1 OR CLASS_CONTEXT"
definition TAG_CERT_PUBLIC_KEY :: u8 where "TAG_CERT_PUBLIC_KEY = 2 OR CLASS_CONTEXT"
definition TAG_CERT_SIGNATURE :: u8 where "TAG_CERT_SIGNATURE = 3 OR CLASS_CONTEXT"
definition TAG_DETAILS_NAME :: u8 where "TAG_DETAILS_NAME = 0 OR CLASS_CONTEXT"
definition TAG_DETAILS_NETWORKS :: u8 where
  "TAG_DETAILS_NETWORKS = 1 OR CLASS_CONSTRUCTED OR CLASS_CONTEXT"
definition TAG_DETAILS_UNSAFE_NETWORKS :: u8 where
  "TAG_DETAILS_UNSAFE_NETWORKS = 2 OR CLASS_CONSTRUCTED OR CLASS_CONTEXT"
definition TAG_DETAILS_GROUPS :: u8 where
  "TAG_DETAILS_GROUPS = 3 OR CLASS_CONSTRUCTED OR CLASS_CONTEXT"
definition TAG_DETAILS_IS_CA :: u8 where "TAG_DETAILS_IS_CA = 4 OR CLASS_CONTEXT"
definition TAG_DETAILS_NOT_BEFORE :: u8 where "TAG_DETAILS_NOT_BEFORE = 5 OR CLASS_CONTEXT"
definition TAG_DETAILS_NOT_AFTER :: u8 where "TAG_DETAILS_NOT_AFTER = 6 OR CLASS_CONTEXT"
definition TAG_DETAILS_ISSUER :: u8 where "TAG_DETAILS_ISSUER = 7 OR CLASS_CONTEXT"
definition UNIVERSAL_OCTET_STRING :: u8 where "UNIVERSAL_OCTET_STRING = 0x04"
definition UNIVERSAL_UTF8_STRING :: u8 where "UNIVERSAL_UTF8_STRING = 0x0C"
definition UNIVERSAL_SEQUENCE :: u8 where "UNIVERSAL_SEQUENCE = 0x30"

lemmas tag_defs = CLASS_CONSTRUCTED_def CLASS_CONTEXT_def TAG_CERT_DETAILS_def TAG_CERT_CURVE_def
  TAG_CERT_PUBLIC_KEY_def TAG_CERT_SIGNATURE_def TAG_DETAILS_NAME_def TAG_DETAILS_NETWORKS_def
  TAG_DETAILS_UNSAFE_NETWORKS_def TAG_DETAILS_GROUPS_def TAG_DETAILS_IS_CA_def
  TAG_DETAILS_NOT_BEFORE_def TAG_DETAILS_NOT_AFTER_def TAG_DETAILS_ISSUER_def
  UNIVERSAL_OCTET_STRING_def UNIVERSAL_UTF8_STRING_def UNIVERSAL_SEQUENCE_def

section \<open>Curves and networks\<close>

datatype curve = Curve25519 | P256

definition curve_from_byte :: "u8 \<Rightarrow> curve result" where
  "curve_from_byte b =
     (if b = 0 then Inr Curve25519 else if b = 1 then Inr P256
      else Inl (Der (''unknown curve '' @ show_dec (unat b))))"

fun curve_to_byte :: "curve \<Rightarrow> u8" where
  "curve_to_byte Curve25519 = 0"
| "curve_to_byte P256 = 1"

record network =
  nw_addr :: ipaddr
  nw_prefix_len :: u8

text \<open>Both lengths are fixed before a byte is indexed.\<close>

definition network_decode :: "bytes \<Rightarrow> network result" where
  "network_decode b =
     (if length b = 5
      then Inr \<lparr>nw_addr = V4 (from_be [b ! 0, b ! 1, b ! 2, b ! 3]), nw_prefix_len = b ! 4\<rparr>
      else if length b = 17
      then Inr \<lparr>nw_addr = V6 (from_be (take 16 b)), nw_prefix_len = b ! 16\<rparr>
      else Inl (Der (''invalid network length '' @ show_dec (length b))))"

definition network_encode :: "network \<Rightarrow> bytes" where
  "network_encode n = octets (nw_addr n) @ [nw_prefix_len n]"

section \<open>Details\<close>

record details =
  d_name :: string
  d_networks :: "network list"
  d_unsafe_networks :: "network list"
  d_groups :: "string list"
  d_is_ca :: bool
  d_not_before :: i64
  d_not_after :: i64
  d_issuer :: bytes

definition encode_details :: "details \<Rightarrow> bytes" where
  "encode_details d =
     (let inner = write_tlv [] TAG_DETAILS_NAME (as_bytes (d_name d));
          inner = (if d_networks d \<noteq> [] then
              let nets = fold (\<lambda>n nets. write_tlv nets UNIVERSAL_OCTET_STRING (network_encode n)) (d_networks d) []
              in write_tlv inner TAG_DETAILS_NETWORKS nets
            else inner);
          inner = (if d_unsafe_networks d \<noteq> [] then
              let nets = fold (\<lambda>n nets. write_tlv nets UNIVERSAL_OCTET_STRING (network_encode n)) (d_unsafe_networks d) []
              in write_tlv inner TAG_DETAILS_UNSAFE_NETWORKS nets
            else inner);
          inner = (if d_groups d \<noteq> [] then
              let groups = fold (\<lambda>g groups. write_tlv groups UNIVERSAL_UTF8_STRING (as_bytes g)) (d_groups d) []
              in write_tlv inner TAG_DETAILS_GROUPS groups
            else inner);
          inner = (if d_is_ca d then write_tlv inner TAG_DETAILS_IS_CA [0xff] else inner);
          inner = write_tlv inner TAG_DETAILS_NOT_BEFORE (encode_der_int (d_not_before d));
          inner = write_tlv inner TAG_DETAILS_NOT_AFTER (encode_der_int (d_not_after d));
          inner = (if d_issuer d \<noteq> [] then write_tlv inner TAG_DETAILS_ISSUER (d_issuer d) else inner)
      in write_tlv [] TAG_CERT_DETAILS inner)"

lemma read_length_progress:
  "read_length r = Inr (n, r') \<Longrightarrow> data r' = data r \<and> pos r < pos r' \<and> pos r < length (data r)"
  by (auto simp: read_length_def result_simps Let_def checked_add_def get_def split: if_splits)

lemma read_tlv_progress:
  "read_tlv r tag = Inr (c, r') \<Longrightarrow> data r' = data r \<and> pos r < pos r' \<and> pos r < length (data r)"
  by (auto simp: read_tlv_def result_simps checked_add_def get_def split: if_splits
      dest!: read_length_progress)

text \<open>The three loops of \<open>decode_details\<close> read items of one tag until the reader is empty.\<close>

function read_items :: "u8 \<Rightarrow> (bytes \<Rightarrow> 'a result) \<Rightarrow> reader \<Rightarrow> 'a list result" where
  "read_items tag dec r =
     (if reader_is_empty r then Inr []
      else
        and_then (read_tlv r tag) (\<lambda>(content, r).
        and_then (dec content) (\<lambda>x.
        and_then (read_items tag dec r) (\<lambda>xs.
        Inr (x # xs)))))"
  by pat_completeness auto
termination
  by (relation "measure (\<lambda>(tag, dec, r). length (data r) - pos r)") (auto dest!: read_tlv_progress)

declare read_items.simps [simp del]

definition read_networks :: "bytes \<Rightarrow> network list result" where
  "read_networks nets = read_items UNIVERSAL_OCTET_STRING network_decode (reader_new nets)"

definition group_decode :: "bytes \<Rightarrow> string result" where
  "group_decode g = ok_or (Der ''group is not valid utf-8'') (from_utf8 g)"

definition read_groups :: "bytes \<Rightarrow> string list result" where
  "read_groups gs = read_items UNIVERSAL_UTF8_STRING group_decode (reader_new gs)"

text \<open>\<open>if let Some(bytes) = r.read_tlv_opt(tag)? \<dots>\<close> around one of the loops.\<close>

definition read_list_opt :: "reader \<Rightarrow> u8 \<Rightarrow> (bytes \<Rightarrow> 'a list result) \<Rightarrow> ('a list \<times> reader) result" where
  "read_list_opt r tag loop =
     and_then (read_tlv_opt r tag) (\<lambda>(field, r).
     case field of
       None \<Rightarrow> Inr ([], r)
     | Some content \<Rightarrow> and_then (loop content) (\<lambda>xs. Inr (xs, r)))"

definition decode_details :: "bytes \<Rightarrow> details result" where
  "decode_details raw_tlv =
     and_then (read_tlv (reader_new raw_tlv) TAG_CERT_DETAILS) (\<lambda>(inner_bytes, _).
     let r = reader_new inner_bytes in
     and_then (read_tlv r TAG_DETAILS_NAME) (\<lambda>(name_bytes, r).
     and_then (ok_or (Der ''name is not valid utf-8'') (from_utf8 name_bytes)) (\<lambda>name.
     and_then (read_list_opt r TAG_DETAILS_NETWORKS read_networks) (\<lambda>(networks, r).
     and_then (read_list_opt r TAG_DETAILS_UNSAFE_NETWORKS read_networks) (\<lambda>(unsafe_networks, r).
     and_then (read_list_opt r TAG_DETAILS_GROUPS read_groups) (\<lambda>(groups, r).
     and_then (read_tlv_opt r TAG_DETAILS_IS_CA) (\<lambda>(ca, r).
     and_then (read_tlv r TAG_DETAILS_NOT_BEFORE) (\<lambda>(nb, r).
     and_then (decode_der_int nb) (\<lambda>not_before.
     and_then (read_tlv r TAG_DETAILS_NOT_AFTER) (\<lambda>(na, r).
     and_then (decode_der_int na) (\<lambda>not_after.
     and_then (read_tlv_opt r TAG_DETAILS_ISSUER) (\<lambda>(issuer, r).
     Inr \<lparr>d_name = name, d_networks = networks, d_unsafe_networks = unsafe_networks,
       d_groups = groups, d_is_ca = (ca \<noteq> None), d_not_before = not_before,
       d_not_after = not_after, d_issuer = (case issuer of Some b \<Rightarrow> b | None \<Rightarrow> [])\<rparr>))))))))))))"

section \<open>Certificates\<close>

record certificate =
  cert_details :: details
  raw_details :: bytes
  cert_curve :: curve
  public_key :: bytes
  signature :: bytes

definition certificate_decode :: "bytes \<Rightarrow> certificate result" where
  "certificate_decode der_bytes =
     and_then (read_tlv (reader_new der_bytes) UNIVERSAL_SEQUENCE) (\<lambda>(envelope, _).
     and_then (read_tlv_raw (reader_new envelope) TAG_CERT_DETAILS) (\<lambda>(raw, r).
     and_then (decode_details raw) (\<lambda>d.
     and_then (read_tlv_opt r TAG_CERT_CURVE) (\<lambda>(cb, r).
     and_then (case cb of
         Some b \<Rightarrow> if length b = 1 then curve_from_byte (b ! 0) else Inl (Der ''invalid curve encoding'')
       | None \<Rightarrow> Inr Curve25519) (\<lambda>cv.
     and_then (read_tlv r TAG_CERT_PUBLIC_KEY) (\<lambda>(pk, r).
     and_then (read_tlv r TAG_CERT_SIGNATURE) (\<lambda>(sig, r).
     Inr \<lparr>cert_details = d, raw_details = raw, cert_curve = cv, public_key = pk, signature = sig\<rparr>)))))))"

definition certificate_encode :: "certificate \<Rightarrow> bytes" where
  "certificate_encode c =
     (let inner = raw_details c;
          inner = (if cert_curve c \<noteq> Curve25519
            then write_tlv inner TAG_CERT_CURVE [curve_to_byte (cert_curve c)] else inner);
          inner = write_tlv inner TAG_CERT_PUBLIC_KEY (public_key c);
          inner = write_tlv inner TAG_CERT_SIGNATURE (signature c)
      in write_tlv [] UNIVERSAL_SEQUENCE inner)"

definition signing_bytes :: "certificate \<Rightarrow> bytes" where
  "signing_bytes c = raw_details c @ [curve_to_byte (cert_curve c)] @ public_key c"

definition encode_for_handshake :: "certificate \<Rightarrow> bytes" where
  "encode_for_handshake c =
     write_tlv [] UNIVERSAL_SEQUENCE (write_tlv (raw_details c) TAG_CERT_SIGNATURE (signature c))"

definition recombine :: "bytes \<Rightarrow> bytes \<Rightarrow> curve \<Rightarrow> certificate result" where
  "recombine handshake_bytes peer_public_key cv =
     and_then (read_tlv (reader_new handshake_bytes) UNIVERSAL_SEQUENCE) (\<lambda>(envelope, _).
     and_then (read_tlv_raw (reader_new envelope) TAG_CERT_DETAILS) (\<lambda>(raw, r).
     and_then (decode_details raw) (\<lambda>d.
     and_then (read_tlv r TAG_CERT_SIGNATURE) (\<lambda>(sig, r).
     Inr \<lparr>cert_details = d, raw_details = raw, cert_curve = cv, public_key = peer_public_key,
       signature = sig\<rparr>))))"

section \<open>Details round trip\<close>

text \<open>A DER list item: its decoder inverts its encoder, so the loop reads back a written list.\<close>

locale der_item =
  fixes enc :: "'a \<Rightarrow> bytes"
    and dec :: "bytes \<Rightarrow> 'a result"
    and valid :: "'a \<Rightarrow> bool"
  assumes dec_enc: "valid x \<Longrightarrow> dec (enc x) = Inr x"
begin

lemma read_written:
  assumes "reader_ok r" and "view r = concat (map (\<lambda>x. tlv tag (enc x)) xs)" and "\<forall>x \<in> set xs. valid x"
  shows "read_items tag dec r = Inr xs"
  using assms
proof (induction xs arbitrary: r)
  case Nil
  then show ?case by (simp add: read_items.simps [of tag dec r] reader_is_empty_view)
next
  case (Cons x xs)
  then obtain r' where r': "read_tlv r tag = Inr (enc x, r')"
    "view r' = concat (map (\<lambda>x. tlv tag (enc x)) xs)" "reader_ok r'"
    using read_tlv_view [of r tag "enc x" "concat (map (\<lambda>x. tlv tag (enc x)) xs)"] by auto
  have "\<not> reader_is_empty r" using Cons.prems by (simp add: reader_is_empty_view)
  with r' Cons show ?case
    by (simp add: read_items.simps [of tag dec r] dec_enc)
qed

lemma read_list_opt_written:
  assumes "reader_ok r"
    and "view r = (if xs \<noteq> [] then tlv tag (concat (map (\<lambda>x. tlv t (enc x)) xs)) else []) @ rest"
    and "xs = [] \<Longrightarrow> get rest 0 \<noteq> Some tag" and "\<forall>x \<in> set xs. valid x"
    and "\<And>bs. loop bs = read_items t dec (reader_new bs)"
  obtains r' where "read_list_opt r tag loop = Inr (xs, r')" and "view r' = rest" and "reader_ok r'"
proof -
  let ?c = "concat (map (\<lambda>x. tlv t (enc x)) xs)"
  have "\<not> xs \<noteq> [] \<Longrightarrow> get rest 0 \<noteq> Some tag" using assms(3) by simp
  from read_tlv_opt_view [OF assms(1,2) this]
  obtain r' where r': "read_tlv_opt r tag = Inr (if xs \<noteq> [] then Some ?c else None, r')"
    "view r' = rest" "reader_ok r'" .
  have "length ?c < usize_bound" if "xs \<noteq> []"
    using assms(1,2) that length_tlv_ge [of ?c tag] length_view [of r] by (auto simp: reader_ok_def)
  then have "loop ?c = Inr xs" if "xs \<noteq> []"
    using assms(4,5) that read_written [of "reader_new ?c" t xs] by simp
  with r'(1) have "read_list_opt r tag loop = Inr (xs, r')"
    by (cases "xs = []") (simp_all add: read_list_opt_def)
  with r' that show thesis by blast
qed

end

lemma octets_from_be: "from_be (octets (V4 a)) = a" "from_be (octets (V6 b)) = b"
  by simp_all

lemma network_decode_encode: "network_decode (network_encode n) = Inr n"
proof (cases "nw_addr n")
  case (V4 a)
  have "from_be [to_be 4 a ! 0, to_be 4 a ! 1, to_be 4 a ! 2, to_be 4 a ! 3] = a"
    using from_be_to_be_full [of 4 a] by (simp add: numeral_eq_Suc)
  with V4 show ?thesis by (simp add: network_decode_def network_encode_def nth_append)
next
  case (V6 a)
  then show ?thesis by (simp add: network_decode_def network_encode_def nth_append)
qed

interpretation net_item: der_item network_encode network_decode "\<lambda>_. True"
  by unfold_locales (simp add: network_decode_encode)

interpretation group_item: der_item as_bytes group_decode "\<lambda>g. utf8_valid (as_bytes g)"
  by unfold_locales (simp add: group_decode_def from_utf8_as_bytes)

definition details_wf :: "details \<Rightarrow> bool" where
  "details_wf d \<longleftrightarrow> utf8_valid (as_bytes (d_name d)) \<and> (\<forall>g \<in> set (d_groups d). utf8_valid (as_bytes g))"

abbreviation opt_field :: "bool \<Rightarrow> u8 \<Rightarrow> bytes \<Rightarrow> bytes" where
  "opt_field present tag c \<equiv> (if present then tlv tag c else [])"

abbreviation list_field :: "u8 \<Rightarrow> u8 \<Rightarrow> ('a \<Rightarrow> bytes) \<Rightarrow> 'a list \<Rightarrow> bytes" where
  "list_field tag item enc xs \<equiv> opt_field (xs \<noteq> []) tag (concat (map (\<lambda>x. tlv item (enc x)) xs))"

definition details_tail :: "details \<Rightarrow> bytes" where
  "details_tail d =
     opt_field (d_is_ca d) TAG_DETAILS_IS_CA [0xff]
       @ tlv TAG_DETAILS_NOT_BEFORE (encode_der_int (d_not_before d))
       @ tlv TAG_DETAILS_NOT_AFTER (encode_der_int (d_not_after d))
       @ opt_field (d_issuer d \<noteq> []) TAG_DETAILS_ISSUER (d_issuer d)"

lemma encode_details_fields:
  "encode_details d = tlv TAG_CERT_DETAILS (tlv TAG_DETAILS_NAME (as_bytes (d_name d))
     @ list_field TAG_DETAILS_NETWORKS UNIVERSAL_OCTET_STRING network_encode (d_networks d)
     @ list_field TAG_DETAILS_UNSAFE_NETWORKS UNIVERSAL_OCTET_STRING network_encode (d_unsafe_networks d)
     @ list_field TAG_DETAILS_GROUPS UNIVERSAL_UTF8_STRING as_bytes (d_groups d)
     @ details_tail d)"
proof -
  have app: "write_tlv (x # xs) tag c = (x # xs) @ tlv tag c" for x xs tag c
    by (rule write_tlv_append)
  have app2: "write_tlv (xs @ ys) tag c = xs @ ys @ tlv tag c" for xs ys tag c
    by (subst write_tlv_append) simp
  have app1: "write_tlv (tlv t c') tag c = tlv t c' @ tlv tag c" for t c' tag c
    by (rule write_tlv_append)
  show ?thesis
    unfolding encode_details_def details_tail_def Let_def fold_write_tlv
    by (cases "d_networks d = []"; cases "d_unsafe_networks d = []"; cases "d_groups d = []";
        cases "d_is_ca d"; cases "d_issuer d = []") (simp_all add: app1 app2)
qed

lemma get_tlv_head: "get (tlv tag c @ rest) 0 = Some tag"
  using tlv_head [of tag c] by auto

lemma get_opt_field_head: "get (opt_field p tag c @ rest) 0 = (if p then Some tag else get rest 0)"
  by (simp add: get_tlv_head)

lemmas head_tags = get_tlv_head get_opt_field_head append_assoc

lemma details_tail_head:
  "get (details_tail d) 0 \<in> {Some TAG_DETAILS_IS_CA, Some TAG_DETAILS_NOT_BEFORE}"
  by (simp add: details_tail_def get_tlv_head)

lemma decode_encode_details:
  assumes "details_wf d" and "length (encode_details d) < usize_bound"
  shows "decode_details (encode_details d) = Inr d"
proof -
  let ?nets = "list_field TAG_DETAILS_NETWORKS UNIVERSAL_OCTET_STRING network_encode (d_networks d)"
  let ?unsafe = "list_field TAG_DETAILS_UNSAFE_NETWORKS UNIVERSAL_OCTET_STRING network_encode (d_unsafe_networks d)"
  let ?groups = "list_field TAG_DETAILS_GROUPS UNIVERSAL_UTF8_STRING as_bytes (d_groups d)"
  let ?nb = "tlv TAG_DETAILS_NOT_BEFORE (encode_der_int (d_not_before d))"
  let ?na = "tlv TAG_DETAILS_NOT_AFTER (encode_der_int (d_not_after d))"
  let ?issuer = "opt_field (d_issuer d \<noteq> []) TAG_DETAILS_ISSUER (d_issuer d)"
  let ?inner = "tlv TAG_DETAILS_NAME (as_bytes (d_name d)) @ ?nets @ ?unsafe @ ?groups @ details_tail d"
  have raw: "encode_details d = tlv TAG_CERT_DETAILS ?inner" by (rule encode_details_fields)
  have ok0: "reader_ok (reader_new (encode_details d))" using assms(2) by simp
  have v0: "view (reader_new (encode_details d)) = tlv TAG_CERT_DETAILS ?inner @ []" by (simp add: raw)
  obtain o' where outer: "read_tlv (reader_new (encode_details d)) TAG_CERT_DETAILS = Inr (?inner, o')"
    using read_tlv_view [OF ok0 v0] by metis
  have ok1: "reader_ok (reader_new ?inner)"
    using assms(2) raw length_tlv_ge [of ?inner TAG_CERT_DETAILS] by simp
  obtain r1 where r1: "read_tlv (reader_new ?inner) TAG_DETAILS_NAME = Inr (as_bytes (d_name d), r1)"
    and v1: "view r1 = ?nets @ ?unsafe @ ?groups @ details_tail d" "reader_ok r1"
    by (rule read_tlv_view [OF ok1]) simp_all
  have h2: "d_networks d = [] \<Longrightarrow> get (?unsafe @ ?groups @ details_tail d) 0 \<noteq> Some TAG_DETAILS_NETWORKS"
    and h3: "d_unsafe_networks d = [] \<Longrightarrow> get (?groups @ details_tail d) 0 \<noteq> Some TAG_DETAILS_UNSAFE_NETWORKS"
    and h4: "d_groups d = [] \<Longrightarrow> get (details_tail d) 0 \<noteq> Some TAG_DETAILS_GROUPS"
    and h5: "\<not> d_is_ca d \<Longrightarrow> get (?nb @ ?na @ ?issuer) 0 \<noteq> Some TAG_DETAILS_IS_CA"
    using details_tail_head [of d] by (auto simp: head_tags tag_defs)
  obtain r2 where r2: "read_list_opt r1 TAG_DETAILS_NETWORKS read_networks = Inr (d_networks d, r2)"
    and v2: "view r2 = ?unsafe @ ?groups @ details_tail d" "reader_ok r2"
    by (rule net_item.read_list_opt_written [OF v1(2,1) h2 _ read_networks_def]) simp_all
  obtain r3 where r3: "read_list_opt r2 TAG_DETAILS_UNSAFE_NETWORKS read_networks = Inr (d_unsafe_networks d, r3)"
    and v3: "view r3 = ?groups @ details_tail d" "reader_ok r3"
    by (rule net_item.read_list_opt_written [OF v2(2,1) h3 _ read_networks_def]) simp_all
  obtain r4 where r4: "read_list_opt r3 TAG_DETAILS_GROUPS read_groups = Inr (d_groups d, r4)"
    and v4: "view r4 = details_tail d" "reader_ok r4"
    by (rule group_item.read_list_opt_written [OF v3(2,1) h4 _ read_groups_def])
      (use assms(1) in \<open>simp_all add: details_wf_def\<close>)
  obtain r5 where r5: "read_tlv_opt r4 TAG_DETAILS_IS_CA = Inr (if d_is_ca d then Some [0xff] else None, r5)"
    and v5: "view r5 = ?nb @ ?na @ ?issuer" "reader_ok r5"
    by (rule read_tlv_opt_view [OF v4(2) v4(1) [unfolded details_tail_def] h5])
  obtain r6 where r6: "read_tlv r5 TAG_DETAILS_NOT_BEFORE = Inr (encode_der_int (d_not_before d), r6)"
    and v6: "view r6 = ?na @ ?issuer" "reader_ok r6"
    by (rule read_tlv_view [OF v5(2,1)])
  obtain r7 where r7: "read_tlv r6 TAG_DETAILS_NOT_AFTER = Inr (encode_der_int (d_not_after d), r7)"
    and v7: "view r7 = ?issuer" "reader_ok r7"
    by (rule read_tlv_view [OF v6(2,1)])
  obtain r8 where r8: "read_tlv_opt r7 TAG_DETAILS_ISSUER = Inr (if d_issuer d \<noteq> [] then Some (d_issuer d) else None, r8)"
    by (rule read_tlv_opt_view [OF v7(2), of "d_issuer d \<noteq> []" _ _ "[]"]) (use v7(1) in auto)
  show ?thesis
    using outer r1 r2 r3 r4 r5 r6 r7 r8 assms(1)
    by (simp add: decode_details_def from_utf8_as_bytes details_wf_def)
qed

section \<open>Certificates round trip\<close>

text \<open>What decoding establishes: the raw details are one whole TLV that decodes to the details.\<close>

definition cert_ok :: "certificate \<Rightarrow> bool" where
  "cert_ok c \<longleftrightarrow>
     map_option snd (tlv_split TAG_CERT_DETAILS (raw_details c)) = Some (length (raw_details c)) \<and>
     decode_details (raw_details c) = Inr (cert_details c)"

lemma cert_ok_whole:
  "cert_ok c \<Longrightarrow> map_option snd (tlv_split TAG_CERT_DETAILS (raw_details c)) = Some (length (raw_details c))"
  unfolding cert_ok_def by blast

lemma read_tlv_raw_view:
  assumes "reader_ok r" and "view r = raw @ rest"
    and "map_option snd (tlv_split tag raw) = Some (length raw)"
  obtains r' where "read_tlv_raw r tag = Inr (raw, r')" and "view r' = rest" and "reader_ok r'"
proof
  from assms(3) obtain c where "tlv_split tag raw = Some (c, length raw)" by auto
  from tlv_split_local [OF this, of rest] have "tlv_split tag (view r) = Some (c, length raw)"
    by (simp add: assms(2))
  with read_tlv_split [OF assms(1), of tag c] have "read_tlv r tag = Inr (c, advance r (length raw))"
    by simp
  moreover have "take (length raw) (drop (pos r) (data r)) = raw"
    using assms(2) by (simp add: view_def)
  ultimately show "read_tlv_raw r tag = Inr (raw, advance r (length raw))"
    by (simp add: read_tlv_raw_def advance_def)
  show "view (advance r (length raw)) = rest" by (simp add: view_advance assms(2))
  show "reader_ok (advance r (length raw))" using assms by (simp add: reader_ok_advance)
qed

lemma read_tlv_raw_whole:
  assumes "reader_ok r" and "read_tlv_raw r tag = Inr (raw, r')"
  shows "map_option snd (tlv_split tag raw) = Some (length raw)"
proof -
  from assms(2) obtain c where "read_tlv r tag = Inr (c, r')"
    and raw: "raw = take (pos r' - pos r) (drop (pos r) (data r))"
    by (auto simp: read_tlv_raw_def result_simps)
  with read_tlv_split [OF assms(1)] obtain k where k: "tlv_split tag (view r) = Some (c, k)"
    and "r' = advance r k" by auto
  then have "raw = take k (view r)" by (simp add: raw view_def advance_def)
  with tlv_split_self [OF k] tlv_split_bounds [OF k] show ?thesis by simp
qed

lemma read_envelope:
  assumes "length (tlv UNIVERSAL_SEQUENCE inner @ trailing) < usize_bound"
  shows "\<exists>r'. read_tlv (reader_new (tlv UNIVERSAL_SEQUENCE inner @ trailing)) UNIVERSAL_SEQUENCE = Inr (inner, r')"
    and "reader_ok (reader_new inner)"
proof -
  have ok: "reader_ok (reader_new (tlv UNIVERSAL_SEQUENCE inner @ trailing))" using assms by simp
  show "\<exists>r'. read_tlv (reader_new (tlv UNIVERSAL_SEQUENCE inner @ trailing)) UNIVERSAL_SEQUENCE = Inr (inner, r')"
    by (rule read_tlv_view [OF ok view_new]) blast
  show "reader_ok (reader_new inner)" using assms length_tlv_ge [of inner UNIVERSAL_SEQUENCE] by simp
qed

lemma curve_from_to [simp]: "curve_from_byte (curve_to_byte cv) = Inr cv"
  by (cases cv) (simp_all add: curve_from_byte_def)

lemma certificate_encode_fields:
  "certificate_encode c = tlv UNIVERSAL_SEQUENCE (raw_details c
     @ opt_field (cert_curve c \<noteq> Curve25519) TAG_CERT_CURVE [curve_to_byte (cert_curve c)]
     @ tlv TAG_CERT_PUBLIC_KEY (public_key c) @ tlv TAG_CERT_SIGNATURE (signature c))"
  unfolding certificate_encode_def Let_def
  by (simp add: write_tlv_append [of "_ @ _"] write_tlv_append [of "raw_details c"])

lemma certificate_decode_encode:
  assumes "cert_ok c" and "length (certificate_encode c @ trailing) < usize_bound"
  shows "certificate_decode (certificate_encode c @ trailing) = Inr c"
proof -
  let ?keys = "tlv TAG_CERT_PUBLIC_KEY (public_key c) @ tlv TAG_CERT_SIGNATURE (signature c)"
  let ?curve = "opt_field (cert_curve c \<noteq> Curve25519) TAG_CERT_CURVE [curve_to_byte (cert_curve c)]"
  let ?inner = "raw_details c @ ?curve @ ?keys"
  note env = read_envelope [OF assms(2) [unfolded certificate_encode_fields]]
  from env(1) obtain r0 where r0: "read_tlv (reader_new (certificate_encode c @ trailing)) UNIVERSAL_SEQUENCE
      = Inr (?inner, r0)" by (auto simp: certificate_encode_fields)
  obtain r1 where r1: "read_tlv_raw (reader_new ?inner) TAG_CERT_DETAILS = Inr (raw_details c, r1)"
    and v1: "view r1 = ?curve @ ?keys" "reader_ok r1"
    by (rule read_tlv_raw_view [OF env(2) view_new cert_ok_whole [OF assms(1)]])
  have h: "\<not> cert_curve c \<noteq> Curve25519 \<Longrightarrow> get ?keys 0 \<noteq> Some TAG_CERT_CURVE"
    by (simp add: get_tlv_head tag_defs)
  obtain r2 where r2: "read_tlv_opt r1 TAG_CERT_CURVE =
      Inr (if cert_curve c \<noteq> Curve25519 then Some [curve_to_byte (cert_curve c)] else None, r2)"
    and v2: "view r2 = ?keys" "reader_ok r2"
    by (rule read_tlv_opt_view [OF v1(2,1) h])
  obtain r3 where r3: "read_tlv r2 TAG_CERT_PUBLIC_KEY = Inr (public_key c, r3)"
    and v3: "view r3 = tlv TAG_CERT_SIGNATURE (signature c) @ []" "reader_ok r3"
    using read_tlv_view [OF v2(2,1)] by (metis append_Nil2)
  obtain r4 where r4: "read_tlv r3 TAG_CERT_SIGNATURE = Inr (signature c, r4)"
    by (rule read_tlv_view [OF v3(2,1)])
  show ?thesis
    using r0 r1 r2 r3 r4 assms(1)
    by (cases "cert_curve c = Curve25519")
      (simp_all add: certificate_decode_def cert_ok_def)
qed

lemma recombine_encode:
  assumes "cert_ok c" and "length (encode_for_handshake c @ trailing) < usize_bound"
  shows "recombine (encode_for_handshake c @ trailing) pk cv = Inr (c\<lparr>public_key := pk, cert_curve := cv\<rparr>)"
proof -
  let ?inner = "raw_details c @ tlv TAG_CERT_SIGNATURE (signature c) @ []"
  have enc: "encode_for_handshake c = tlv UNIVERSAL_SEQUENCE ?inner"
    by (simp add: encode_for_handshake_def write_tlv_append [of "raw_details c"])
  note env = read_envelope [OF assms(2) [unfolded enc]]
  from env(1) obtain r0 where r0: "read_tlv (reader_new (encode_for_handshake c @ trailing)) UNIVERSAL_SEQUENCE
      = Inr (?inner, r0)" by (auto simp: enc)
  obtain r1 where r1: "read_tlv_raw (reader_new ?inner) TAG_CERT_DETAILS = Inr (raw_details c, r1)"
    and v1: "view r1 = tlv TAG_CERT_SIGNATURE (signature c) @ []" "reader_ok r1"
    by (rule read_tlv_raw_view [OF env(2) view_new cert_ok_whole [OF assms(1)]])
  obtain r2 where r2: "read_tlv r1 TAG_CERT_SIGNATURE = Inr (signature c, r2)"
    by (rule read_tlv_view [OF v1(2,1)])
  show ?thesis using r0 r1 r2 assms(1) by (simp add: recombine_def cert_ok_def)
qed

lemma read_tlv_content_small: "reader_ok r \<Longrightarrow> read_tlv r tag = Inr (c, r') \<Longrightarrow> length c < usize_bound"
  using read_tlv_split [of r tag c r'] tlv_split_bounds by blast

text \<open>The raw details of an envelope are whole, whichever decoder read them.\<close>

lemma envelope_details_whole:
  assumes "length b < usize_bound" and "read_tlv (reader_new b) UNIVERSAL_SEQUENCE = Inr (envelope, r0)"
    and "read_tlv_raw (reader_new envelope) TAG_CERT_DETAILS = Inr (raw, r)"
  shows "map_option snd (tlv_split TAG_CERT_DETAILS raw) = Some (length raw)"
proof -
  have "reader_ok (reader_new envelope)"
    using assms(1) read_tlv_content_small [OF _ assms(2)] by simp
  from read_tlv_raw_whole [OF this assms(3)] show ?thesis .
qed

lemma certificate_decode_ok:
  assumes "certificate_decode b = Inr c" and "length b < usize_bound"
  shows "cert_ok c"
proof -
  from assms(1) obtain envelope r0 r where
    "read_tlv (reader_new b) UNIVERSAL_SEQUENCE = Inr (envelope, r0)"
    "read_tlv_raw (reader_new envelope) TAG_CERT_DETAILS = Inr (raw_details c, r)"
    "decode_details (raw_details c) = Inr (cert_details c)"
    by (auto simp: certificate_decode_def result_simps)
  with envelope_details_whole [OF assms(2)] show ?thesis unfolding cert_ok_def by blast
qed

lemma recombine_ok:
  assumes "recombine b pk cv = Inr c" and "length b < usize_bound"
  shows "cert_ok c" and "public_key c = pk" and "cert_curve c = cv"
proof -
  from assms(1) obtain envelope r0 r where
    "read_tlv (reader_new b) UNIVERSAL_SEQUENCE = Inr (envelope, r0)"
    "read_tlv_raw (reader_new envelope) TAG_CERT_DETAILS = Inr (raw_details c, r)"
    "decode_details (raw_details c) = Inr (cert_details c)"
    by (auto simp: recombine_def result_simps)
  with envelope_details_whole [OF assms(2)] show "cert_ok c" unfolding cert_ok_def by blast
  from assms(1) show "public_key c = pk" and "cert_curve c = cv"
    by (auto simp: recombine_def result_simps)
qed

lemma encode_details_whole:
  assumes "length (encode_details d) < usize_bound"
  shows "map_option snd (tlv_split TAG_CERT_DETAILS (encode_details d)) = Some (length (encode_details d))"
proof -
  obtain inner where e: "encode_details d = tlv TAG_CERT_DETAILS inner"
    using encode_details_fields by blast
  have "length inner < usize_bound" using assms length_tlv_ge [of inner TAG_CERT_DETAILS] by (simp add: e)
  from tlv_split_write [OF this, where rest = "[]"] show ?thesis by (simp add: e)
qed

lemma length_raw_less_encode: "length (raw_details c) < length (certificate_encode c)"
  using length_tlv_ge [of "raw_details c @ _" UNIVERSAL_SEQUENCE]
  by (simp add: certificate_encode_fields) (meson add_lessD1)

lemma signing_bytes_split:
  assumes "cert_ok c" and "cert_ok c'" and "signing_bytes c = signing_bytes c'"
  shows "raw_details c = raw_details c'"
proof -
  let ?rest = "\<lambda>c. curve_to_byte (cert_curve c) # public_key c"
  obtain x y where "tlv_split TAG_CERT_DETAILS (raw_details c) = Some (x, length (raw_details c))"
    and "tlv_split TAG_CERT_DETAILS (raw_details c') = Some (y, length (raw_details c'))"
    using cert_ok_whole [OF assms(1)] cert_ok_whole [OF assms(2)] by auto
  from tlv_split_local [OF this(1), of "?rest c"] tlv_split_local [OF this(2), of "?rest c'"]
  have "length (raw_details c) = length (raw_details c')"
    using assms(3) by (simp add: signing_bytes_def)
  with assms(3) show ?thesis by (simp add: signing_bytes_def)
qed

section \<open>Properties\<close>

text \<open>C26: A certificate built from well-formed details decodes from its own encoding to itself,
  bytes after the envelope being ignored.\<close>

theorem certificate_round_trip:
  assumes "details_wf d"
    and "c = \<lparr>cert_details = d, raw_details = encode_details d, cert_curve = cv, public_key = pk, signature = sig\<rparr>"
    and "length (certificate_encode c @ trailing) < usize_bound"
  shows "certificate_decode (certificate_encode c @ trailing) = Inr c"
proof -
  have len: "length (encode_details d) < usize_bound"
    using assms(2,3) length_raw_less_encode [of c] by simp
  have "cert_ok c"
    unfolding cert_ok_def using decode_encode_details [OF assms(1) len] encode_details_whole [OF len] assms(2)
    by simp
  from certificate_decode_encode [OF this assms(3)] show ?thesis .
qed

definition sample_details :: details where
  "sample_details = \<lparr>d_name = ''h'', d_networks = [\<lparr>nw_addr = V4 0x0A640001, nw_prefix_len = 16\<rparr>],
     d_unsafe_networks = [], d_groups = [''test''], d_is_ca = False, d_not_before = 100,
     d_not_after = 200, d_issuer = [1, 2]\<rparr>"

definition sample_cert :: certificate where
  "sample_cert = \<lparr>cert_details = sample_details, raw_details = encode_details sample_details,
     cert_curve = P256, public_key = [3], signature = [4, 5]\<rparr>"

lemma sample_details_wf: "details_wf sample_details"
  by code_simp

lemma sample_encode:
  "certificate_encode sample_cert = [0x30, 0x2B, 0xA0, 0x1F, 0x80, 1, 104, 0xA1, 7, 4, 5, 10, 100, 0, 1, 16,
     0xA3, 6, 0x0C, 4, 116, 101, 115, 116, 0x85, 1, 100, 0x86, 2, 0, 200, 0x87, 2, 1, 2, 0x81, 1, 1, 0x82, 1, 3, 0x83, 2, 4, 5]"
  by code_simp

theorem certificate_round_trip_witness:
  "certificate_decode (certificate_encode sample_cert @ [9]) = Inr sample_cert"
  by (rule certificate_round_trip [OF sample_details_wf sample_cert_def]) (simp add: sample_encode)

text \<open>C13: Re-encoding a decoded certificate, and the reduced encoding a handshake carries, lose
  nothing: decoding them again, with the public key and curve supplied by the Noise handshake in
  the second case, gives the same certificate, raw signed bytes included, also when the original
  encoding was not canonical.\<close>

theorem certificate_reencode:
  assumes "certificate_decode b = Inr c" and "length b < usize_bound"
    and "length (certificate_encode c) < usize_bound" and "length (encode_for_handshake c) < usize_bound"
  shows "certificate_decode (certificate_encode c) = Inr c \<and>
    recombine (encode_for_handshake c) (public_key c) (cert_curve c) = Inr c"
  using certificate_decode_ok [OF assms(1,2)] certificate_decode_encode [where trailing = "[]"]
    recombine_encode [where trailing = "[]"] assms(3,4) by simp

lemma sample_details_encode:
  "encode_details sample_details = [0xA0, 0x1F, 0x80, 1, 104, 0xA1, 7, 4, 5, 10, 100, 0, 1, 16,
     0xA3, 6, 0x0C, 4, 116, 101, 115, 116, 0x85, 1, 100, 0x86, 2, 0, 200, 0x87, 2, 1, 2]"
  by code_simp

lemma sample_cert_ok: "cert_ok (sample_cert\<lparr>signature := sig\<rparr>)"
  using decode_encode_details [OF sample_details_wf] encode_details_whole [of sample_details]
  by (simp add: cert_ok_def sample_cert_def sample_details_encode)

lemma sample_decode: "certificate_decode (certificate_encode sample_cert) = Inr sample_cert"
  using certificate_decode_encode [OF sample_cert_ok [of "signature sample_cert"], where trailing = "[]"]
  by (simp add: sample_encode)

lemma sample_resigned_encode:
  "certificate_encode (sample_cert\<lparr>signature := [6]\<rparr>) = [0x30, 0x2A, 0xA0, 0x1F, 0x80, 1, 104, 0xA1, 7, 4, 5, 10, 100, 0, 1, 16,
     0xA3, 6, 0x0C, 4, 116, 101, 115, 116, 0x85, 1, 100, 0x86, 2, 0, 200, 0x87, 2, 1, 2, 0x81, 1, 1, 0x82, 1, 3, 0x83, 1, 6]"
  by code_simp

lemma sample_resigned_decode:
  "certificate_decode (certificate_encode (sample_cert\<lparr>signature := [6]\<rparr>)) = Inr (sample_cert\<lparr>signature := [6]\<rparr>)"
  using certificate_decode_encode [OF sample_cert_ok [of "[6]"], where trailing = "[]"]
  by (simp add: sample_resigned_encode)

lemma sample_handshake_length: "length (encode_for_handshake sample_cert) = 39"
  by code_simp

theorem certificate_reencode_witness:
  "recombine (encode_for_handshake sample_cert) (public_key sample_cert) (cert_curve sample_cert) = Inr sample_cert"
  using certificate_reencode [OF sample_decode]
  by (simp add: sample_encode sample_handshake_length)

text \<open>C27: The bytes a signature covers determine what is signed: two decoded certificates with the
  same signing bytes have the same details, curve and public key, although the three parts are
  concatenated without separators.\<close>

theorem signing_bytes_injective:
  assumes "certificate_decode b = Inr c" and "length b < usize_bound"
    and "certificate_decode b' = Inr c'" and "length b' < usize_bound"
    and "signing_bytes c = signing_bytes c'"
  shows "raw_details c = raw_details c' \<and> cert_details c = cert_details c' \<and>
    cert_curve c = cert_curve c' \<and> public_key c = public_key c'"
proof -
  note ok = certificate_decode_ok [OF assms(1,2)] certificate_decode_ok [OF assms(3,4)]
  have raw: "raw_details c = raw_details c'" by (rule signing_bytes_split [OF ok assms(5)])
  moreover have "cert_details c = cert_details c'" using ok raw by (simp add: cert_ok_def)
  moreover have "curve_to_byte (cert_curve c) = curve_to_byte (cert_curve c')"
    and "public_key c = public_key c'" using raw assms(5) by (simp_all add: signing_bytes_def)
  ultimately show ?thesis by (metis curve_from_to sum.inject(2))
qed

theorem signing_bytes_injective_witness:
  "signing_bytes sample_cert = signing_bytes (sample_cert\<lparr>signature := [6]\<rparr>) \<and>
   cert_details sample_cert = cert_details (sample_cert\<lparr>signature := [6]\<rparr>)"
proof -
  have eq: "signing_bytes sample_cert = signing_bytes (sample_cert\<lparr>signature := [6]\<rparr>)"
    by (simp add: signing_bytes_def)
  with signing_bytes_injective [OF sample_decode _ sample_resigned_decode _ eq] show ?thesis
    by (simp add: sample_encode sample_resigned_encode)
qed

text \<open>Every \<open>i64\<close>, negative ones included, survives the integer codec.\<close>

theorem der_int_round_trip: "decode_der_int (encode_der_int v) = Inr v"
  by simp

end
