(* ===== verification/Cert_Verify.thy ===== *)
theory Cert_Verify
  imports Cert_Der
begin

text \<open>
  \<open>nebula-protocol/src/cert/verify.rs\<close> (signatures, fingerprints, expiry and the check of a
  host certificate against its CA) and \<open>cert/pem.rs\<close> (banner-checked PEM). Ed25519, SHA-256,
  hex and PEM are other crates: their functions are the fields of \<open>crypto_ops\<close> and
  \<open>pem_ops\<close>.
\<close>

section \<open>Verification\<close>

text \<open>\<open>ed_key_valid\<close> is the success of \<open>VerifyingKey::from_bytes\<close>; \<open>ed_verify\<close> takes
  the key, the message and the signature.\<close>

record crypto_ops =
  ed_key_valid :: "bytes \<Rightarrow> bool"
  ed_verify :: "bytes \<Rightarrow> bytes \<Rightarrow> bytes \<Rightarrow> bool"
  sha256 :: "bytes \<Rightarrow> bytes"
  hex_encode :: "bytes \<Rightarrow> string"

definition check_signature :: "crypto_ops \<Rightarrow> certificate \<Rightarrow> bytes \<Rightarrow> unit result" where
  "check_signature K c signer_public_key =
     (if cert_curve c \<noteq> Curve25519 then Inl CertUnsupportedCurve
      else if length signer_public_key \<noteq> 32 then Inl CertSignatureInvalid
      else if \<not> ed_key_valid K signer_public_key then Inl CertSignatureInvalid
      else if length (signature c) \<noteq> 64 then Inl CertSignatureInvalid
      else if \<not> ed_verify K signer_public_key (signing_bytes c) (signature c) then Inl CertSignatureInvalid
      else Inr ())"

definition fingerprint :: "crypto_ops \<Rightarrow> certificate \<Rightarrow> string" where
  "fingerprint K c = hex_encode K (sha256 K (signing_bytes c @ signature c))"

definition is_expired :: "certificate \<Rightarrow> i64 \<Rightarrow> bool" where
  "is_expired c now_unix =
     (now_unix <s d_not_before (cert_details c) \<or> d_not_after (cert_details c) <s now_unix)"

definition verify_host_cert :: "crypto_ops \<Rightarrow> certificate \<Rightarrow> certificate \<Rightarrow> i64 \<Rightarrow> unit result" where
  "verify_host_cert K cert ca now_unix =
     (if d_is_ca (cert_details cert) \<or> \<not> d_is_ca (cert_details ca) then Inl CertSignatureInvalid
      else if is_expired ca now_unix \<or> is_expired cert now_unix then Inl CertExpired
      else if hex_encode K (d_issuer (cert_details cert)) \<noteq> fingerprint K ca then Inl CertUntrusted
      else
        and_then (check_signature K cert (public_key ca)) (\<lambda>_.
        if d_networks (cert_details cert) = [] then Inl CertNoNetworks
        else Inr ()))"

section \<open>PEM\<close>

definition CERTIFICATE_V2_BANNER :: string where
  "CERTIFICATE_V2_BANNER = ''NEBULA CERTIFICATE V2''"
definition X25519_PRIVATE_KEY_BANNER :: string where
  "X25519_PRIVATE_KEY_BANNER = ''NEBULA X25519 PRIVATE KEY''"
definition X25519_PUBLIC_KEY_BANNER :: string where
  "X25519_PUBLIC_KEY_BANNER = ''NEBULA X25519 PUBLIC KEY''"
definition ED25519_PRIVATE_KEY_BANNER :: string where
  "ED25519_PRIVATE_KEY_BANNER = ''NEBULA ED25519 PRIVATE KEY''"
definition ED25519_PUBLIC_KEY_BANNER :: string where
  "ED25519_PUBLIC_KEY_BANNER = ''NEBULA ED25519 PUBLIC KEY''"

text \<open>\<open>pem_parse\<close> gives the tag and contents of a block or an error text; \<open>debug_str\<close> is
  the quoting of \<open>{:?}\<close>.\<close>

record pem_ops =
  pem_parse :: "bytes \<Rightarrow> string + string \<times> bytes"
  pem_print :: "string \<Rightarrow> bytes \<Rightarrow> string"
  debug_str :: "string \<Rightarrow> string"

definition pem_decode :: "pem_ops \<Rightarrow> bytes \<Rightarrow> string \<Rightarrow> bytes result" where
  "pem_decode P input expected_tag =
     and_then (map_err Pem (pem_parse P input)) (\<lambda>(tag, contents).
     if tag \<noteq> expected_tag
     then Inl (Pem (''expected PEM tag '' @ debug_str P expected_tag @ '', got '' @ debug_str P tag))
     else Inr contents)"

definition pem_encode :: "pem_ops \<Rightarrow> string \<Rightarrow> bytes \<Rightarrow> string" where
  "pem_encode P tag contents = pem_print P tag contents"

lemma pem_round_trip:
  assumes "pem_parse P (as_bytes (pem_print P tag contents)) = Inr (tag, contents)"
  shows "pem_decode P (as_bytes (pem_encode P tag contents)) tag = Inr contents"
    and "tag' \<noteq> tag \<Longrightarrow> \<exists>m. pem_decode P (as_bytes (pem_encode P tag contents)) tag' = Inl (Pem m)"
  using assms by (auto simp: pem_decode_def pem_encode_def)

section \<open>What verification establishes\<close>

text \<open>The conditions on the pair of certificates that do not depend on the time.\<close>

definition chain_ok :: "crypto_ops \<Rightarrow> certificate \<Rightarrow> certificate \<Rightarrow> bool" where
  "chain_ok K cert ca \<longleftrightarrow>
     \<not> d_is_ca (cert_details cert) \<and> d_is_ca (cert_details ca) \<and>
     hex_encode K (d_issuer (cert_details cert)) = hex_encode K (sha256 K (signing_bytes ca @ signature ca)) \<and>
     cert_curve cert = Curve25519 \<and> length (public_key ca) = 32 \<and> ed_key_valid K (public_key ca) \<and>
     length (signature cert) = 64 \<and> ed_verify K (public_key ca) (signing_bytes cert) (signature cert) \<and>
     d_networks (cert_details cert) \<noteq> []"

definition valid_at :: "certificate \<Rightarrow> int \<Rightarrow> bool" where
  "valid_at c t \<longleftrightarrow> sint (d_not_before (cert_details c)) \<le> t \<and> t \<le> sint (d_not_after (cert_details c))"

lemma is_expired_iff: "is_expired c now \<longleftrightarrow> \<not> valid_at c (sint now)"
  by (auto simp: is_expired_def valid_at_def word_sless_alt)

lemma check_signature_ok_iff:
  "check_signature K c key = Inr () \<longleftrightarrow> cert_curve c = Curve25519 \<and> length key = 32 \<and>
     ed_key_valid K key \<and> length (signature c) = 64 \<and> ed_verify K key (signing_bytes c) (signature c)"
  by (auto simp: check_signature_def)

lemma verify_ok_iff:
  "verify_host_cert K cert ca now = Inr () \<longleftrightarrow>
     chain_ok K cert ca \<and> valid_at ca (sint now) \<and> valid_at cert (sint now)"
  by (auto simp: verify_host_cert_def chain_ok_def is_expired_iff fingerprint_def result_simps
      check_signature_ok_iff)

section \<open>Properties\<close>

text \<open>A host certificate is accepted at a time exactly when it chains to the CA (neither
  posing as a CA itself nor issued by a non-CA, its issuer field naming the CA's fingerprint, a
  Curve25519 certificate whose 64-byte signature verifies under the CA's 32-byte key over the
  signing bytes, at least one network) and the time lies in both validity windows, bounds
  included, as signed numbers.\<close>

theorem verify_host_cert_iff:
  "verify_host_cert K cert ca now = Inr () \<longleftrightarrow>
     chain_ok K cert ca \<and> valid_at ca (sint now) \<and> valid_at cert (sint now)"
  by (rule verify_ok_iff)

text \<open>A certificate accepted once stays accepted throughout the intersection of the two
  validity windows and is refused as expired everywhere outside it.\<close>

theorem verify_over_time:
  assumes "verify_host_cert K cert ca t0 = Inr ()"
  shows "verify_host_cert K cert ca t =
    (if valid_at ca (sint t) \<and> valid_at cert (sint t) then Inr () else Inl CertExpired)"
proof (cases "valid_at ca (sint t) \<and> valid_at cert (sint t)")
  case True
  with assms show ?thesis by (simp add: verify_ok_iff)
next
  case False
  moreover from assms have "chain_ok K cert ca" by (simp add: verify_ok_iff)
  ultimately show ?thesis by (auto simp: verify_host_cert_def is_expired_iff chain_ok_def)
qed

definition demo_crypto :: crypto_ops where
  "demo_crypto = \<lparr>ed_key_valid = (\<lambda>key. True),
     ed_verify = (\<lambda>key msg sig. sig = replicate 64 (foldr (+) (key @ msg) 0)),
     sha256 = (\<lambda>msg. [foldr (+) msg 0]), hex_encode = of_bytes\<rparr>"

definition demo_ca :: certificate where
  "demo_ca = \<lparr>cert_details = \<lparr>d_name = ''ca'', d_networks = [], d_unsafe_networks = [], d_groups = [],
       d_is_ca = True, d_not_before = 0, d_not_after = 1000, d_issuer = []\<rparr>,
     raw_details = [1], cert_curve = Curve25519, public_key = replicate 32 2, signature = [3]\<rparr>"

definition demo_host :: certificate where
  "demo_host = \<lparr>cert_details = \<lparr>d_name = ''h'', d_networks = [\<lparr>nw_addr = V4 0x0A640001, nw_prefix_len = 16\<rparr>],
       d_unsafe_networks = [], d_groups = [''test''], d_is_ca = False, d_not_before = 100,
       d_not_after = 200, d_issuer = [68]\<rparr>,
     raw_details = [1], cert_curve = Curve25519, public_key = replicate 32 4, signature = replicate 64 193\<rparr>"

lemma demo_host_verifies: "verify_host_cert demo_crypto demo_host demo_ca 150 = Inr ()"
  by code_simp

theorem verify_over_time_witness:
  "verify_host_cert demo_crypto demo_host demo_ca 200 = Inr () \<and>
   verify_host_cert demo_crypto demo_host demo_ca 201 = Inl CertExpired"
  using verify_over_time [OF demo_host_verifies, of 200] verify_over_time [OF demo_host_verifies, of 201]
  by (simp add: valid_at_def demo_ca_def demo_host_def)

end
