(* ===== verification/Session.thy ===== *)
theory Session
  imports Handshake Cert_Verify
begin

text \<open>
  \<open>nebula-protocol/src/session.rs\<close>: the state behind the session lock and every critical
  section that changes it. The asynchronous shell is reduced to its effects: what is sent on the
  socket, what is put into the inbox and which waiting task is woken are values each operation
  returns. Operations take the external crates (\<open>externs\<close>) and the clock readings as
  arguments; an outer \<open>option\<close> is \<open>None\<close> where the code panics or keeps looping.
\<close>

section \<open>State\<close>

record 'hs externs =
  x_aead :: aead_ops
  x_crypto :: crypto_ops
  x_noise :: "'hs noise_ops"
  x_pb :: pb_ops
  x_pem :: pem_ops

text \<open>What an operation reads of the clock: the sub-second nanosecond readings of successive
  \<open>rand_index\<close> calls, unix seconds, unix nanoseconds.\<close>

record clock =
  subsec_nanos :: "u32 list"
  now_unix :: i64
  unix_nanos_now :: u64

text \<open>A reading of the system clock is a number of nanoseconds since 1970, negative before it. The
  functions that read it unwrap the result of \<open>duration_since(UNIX_EPOCH)\<close> and panic, \<open>None\<close>, on a
  negative one. The operations below take readings that did not panic.\<close>

definition since_epoch :: "int \<Rightarrow> int option" where
  "since_epoch t = (if t < 0 then None else Some t)"

definition now_unix_at :: "int \<Rightarrow> i64 option" where
  "now_unix_at t = map_option (\<lambda>d. word_of_int (d div 1000000000)) (since_epoch t)"

definition subsec_nanos_at :: "int \<Rightarrow> u32 option" where
  "subsec_nanos_at t = map_option (\<lambda>d. word_of_int (d mod 1000000000)) (since_epoch t)"

definition unix_nanos_at :: "int \<Rightarrow> u64 option" where
  "unix_nanos_at t = map_option word_of_int (since_epoch t)"

record session_config =
  ca_cert_pem :: bytes
  host_cert_pem :: bytes
  host_key_pem :: bytes
  cfg_cipher :: cipher
  bind_addr :: socketaddr
  cfg_lighthouses :: "ipaddr list"
  static_hosts :: "(ipaddr \<times> socketaddr) list"

datatype 'hs peer_state =
    Handshaking 'hs
  | Established (ps_transport: transport) (ps_remote: socketaddr) (ps_vpn_addr: ipaddr)
      (ps_cert: certificate) (ps_remote_index: u32)

text \<open>A one-shot channel is a number, and \<open>channels\<close> counts those created so far;
  \<open>connected\<close> and \<open>lighthouse_waiters\<close> hold the sending ends. The socket and the
  inbox sender of \<open>Inner\<close> are replaced by the effects the operations return.\<close>

type_synonym channel = nat

record 'hs inner =
  ca_cert :: certificate
  host_cert :: certificate
  host_private_key :: bytes
  in_cipher :: cipher
  own_vpn_addr :: ipaddr
  lighthouses :: "ipaddr list"
  known_addrs :: "ipaddr \<rightharpoonup> socketaddr"
  peers_by_index :: "u32 \<rightharpoonup> 'hs peer_state"
  index_by_vpn_addr :: "ipaddr \<rightharpoonup> u32"
  connected :: "ipaddr \<rightharpoonup> channel"
  lighthouse_waiters :: "ipaddr \<rightharpoonup> channel"
  channels :: nat

text \<open>A sender that an insertion replaces is dropped, which ends the wait on its channel with an
  error.\<close>

datatype effect =
    SendTo socketaddr bytes
  | Inbox ipaddr bytes
  | WakeConnect channel
  | WakeResolve channel "socketaddr list"
  | DropConnect channel
  | DropResolve channel

section \<open>Handlers of received packets\<close>

definition rand_index :: "u32 \<Rightarrow> u32" where
  "rand_index nanos = nanos XOR 0x9E3779B9"

text \<open>The loop tries one clock reading after another; \<open>None\<close> when the readings given do not
  contain a usable one.\<close>

fun allocate_index :: "'hs inner \<Rightarrow> u32 list \<Rightarrow> u32 option" where
  "allocate_index inner [] = None"
| "allocate_index inner (nanos # rest) =
     (let candidate = rand_index nanos
      in if candidate \<noteq> 0 \<and> peers_by_index inner candidate = None then Some candidate
         else allocate_index inner rest)"

definition handshake_header :: "u32 \<Rightarrow> u64 \<Rightarrow> header" where
  "handshake_header index ctr =
     \<lparr>version = VERSION, msg_type = HANDSHAKE, subtype = IX_PSK0, remote_index = index, message_counter = ctr\<rparr>"

text \<open>The checks both roles make on the certificate the peer presented: recombination with the
  Noise static key, verification against the CA, and the first network as its vpn address.\<close>

definition accept_cert :: "'hs externs \<Rightarrow> clock \<Rightarrow> 'hs inner \<Rightarrow> bytes \<Rightarrow> bytes \<Rightarrow> (certificate \<times> ipaddr) option" where
  "accept_cert X clk inner cert_bytes rs =
     (case recombine cert_bytes rs Curve25519 of
        Inl _ \<Rightarrow> None
      | Inr their_cert \<Rightarrow>
          (case verify_host_cert (x_crypto X) their_cert (ca_cert inner) (now_unix clk) of
             Inl _ \<Rightarrow> None
           | Inr _ \<Rightarrow>
               (case d_networks (cert_details their_cert) of
                  [] \<Rightarrow> None
                | n # _ \<Rightarrow> Some (their_cert, nw_addr n))))"

definition handle_stage0 ::
  "'hs externs \<Rightarrow> clock \<Rightarrow> 'hs inner \<Rightarrow> bytes \<Rightarrow> socketaddr \<Rightarrow> ('hs inner \<times> effect list) option" where
  "handle_stage0 X clk inner body from = do {
     index \<leftarrow> allocate_index inner (subsec_nanos clk);
     let cert_bytes = encode_for_handshake (host_cert inner);
     case respond (x_noise X) (x_pb X) (unix_nanos_now clk) (in_cipher inner) (host_private_key inner)
            cert_bytes index body of
       Inl _ \<Rightarrow> Some (inner, [])
     | Inr (their_details, reply, keys) \<Rightarrow>
         (case accept_cert X clk inner (hd_cert their_details) (remote_static keys) of
            None \<Rightarrow> Some (inner, [])
          | Some (their_cert, vpn) \<Rightarrow>
              let packet = header_encode (handshake_header (initiator_index their_details) 2) @ reply;
                  peer = Established (transport_new (in_cipher inner) (send_key keys) (recv_key keys))
                    from vpn their_cert (initiator_index their_details)
              in Some (inner\<lparr>peers_by_index := (peers_by_index inner)(index \<mapsto> peer),
                   index_by_vpn_addr := (index_by_vpn_addr inner)(vpn \<mapsto> index)\<rparr>,
                   [SendTo from packet])) }"

definition handle_stage2 ::
  "'hs externs \<Rightarrow> clock \<Rightarrow> 'hs inner \<Rightarrow> u32 \<Rightarrow> bytes \<Rightarrow> socketaddr \<Rightarrow> 'hs inner \<times> effect list" where
  "handle_stage2 X clk inner index body from =
     (case peers_by_index inner index of
        Some (Handshaking hs) \<Rightarrow>
          let inner = inner\<lparr>peers_by_index := (peers_by_index inner)(index := None)\<rparr> in
          (case finish_initiator (x_noise X) (x_pb X) hs body of
             Inl _ \<Rightarrow> (inner, [])
           | Inr (their_details, keys) \<Rightarrow>
               (case accept_cert X clk inner (hd_cert their_details) (remote_static keys) of
                  None \<Rightarrow> (inner, [])
                | Some (their_cert, vpn) \<Rightarrow>
                    let peer = Established (transport_new (in_cipher inner) (send_key keys) (recv_key keys))
                          from vpn their_cert (responder_index their_details);
                        inner = inner\<lparr>peers_by_index := (peers_by_index inner)(index \<mapsto> peer),
                          index_by_vpn_addr := (index_by_vpn_addr inner)(vpn \<mapsto> index)\<rparr>
                    in (case connected inner vpn of
                          Some tx \<Rightarrow> (inner\<lparr>connected := (connected inner)(vpn := None)\<rparr>, [WakeConnect tx])
                        | None \<Rightarrow> (inner, []))))
      | _ \<Rightarrow> (inner, []))"

definition handle_handshake ::
  "'hs externs \<Rightarrow> clock \<Rightarrow> 'hs inner \<Rightarrow> header \<Rightarrow> bytes \<Rightarrow> socketaddr \<Rightarrow> ('hs inner \<times> effect list) option" where
  "handle_handshake X clk inner hdr body from =
     (if remote_index hdr = 0 then handle_stage0 X clk inner body from
      else Some (handle_stage2 X clk inner (remote_index hdr) body from))"

text \<open>The part \<open>handle_message\<close> and \<open>handle_lighthouse_packet\<close> share: find the established
  peer, decrypt into a buffer of the body's size, keep the moved transport. The plaintext is
  \<open>None\<close> when the peer is missing or decryption fails.\<close>

definition decrypt_from ::
  "'hs externs \<Rightarrow> 'hs inner \<Rightarrow> header \<Rightarrow> bytes \<Rightarrow> bytes \<Rightarrow> ('hs inner \<times> (ipaddr \<times> bytes) option) option" where
  "decrypt_from X inner hdr header_bytes body =
     (case peers_by_index inner (remote_index hdr) of
        Some (Established t remote vpn cert ri) \<Rightarrow> do {
          (res, t', out) \<leftarrow> transport_decrypt (x_aead X) t (message_counter hdr) header_bytes body
            (replicate (length body) 0);
          let inner = inner\<lparr>peers_by_index :=
            (peers_by_index inner)(remote_index hdr \<mapsto> Established t' remote vpn cert ri)\<rparr>;
          Some (inner, case res of Inl _ \<Rightarrow> None | Inr len \<Rightarrow> Some (vpn, take len out)) }
      | _ \<Rightarrow> Some (inner, None))"

definition handle_message ::
  "'hs externs \<Rightarrow> 'hs inner \<Rightarrow> header \<Rightarrow> bytes \<Rightarrow> bytes \<Rightarrow> ('hs inner \<times> effect list) option" where
  "handle_message X inner hdr header_bytes body = do {
     (inner, plain) \<leftarrow> decrypt_from X inner hdr header_bytes body;
     Some (inner, case plain of None \<Rightarrow> [] | Some (vpn, msg) \<Rightarrow> [Inbox vpn msg]) }"

definition handle_lighthouse :: "'hs externs \<Rightarrow> 'hs inner \<Rightarrow> bytes \<Rightarrow> 'hs inner \<times> effect list" where
  "handle_lighthouse X inner body =
     (case decode_meta (x_pb X) body of
        Inl _ \<Rightarrow> (inner, [])
      | Inr meta \<Rightarrow>
          if meta_type meta = meta_type_num HostQueryReply \<or>
             meta_type meta = meta_type_num HostUpdateNotification
          then
            (case candidate_addrs meta of
               [] \<Rightarrow> (inner, [])
             | first # rest \<Rightarrow>
                 (case Option.bind (meta_details meta) (\<lambda>d. map_option addr_to_ip (vpn_addr d)) of
                    None \<Rightarrow> (inner, [])
                  | Some vpn \<Rightarrow>
                      let inner = inner\<lparr>known_addrs := (known_addrs inner)(vpn \<mapsto> first)\<rparr>
                      in (case lighthouse_waiters inner vpn of
                            Some tx \<Rightarrow> (inner\<lparr>lighthouse_waiters := (lighthouse_waiters inner)(vpn := None)\<rparr>,
                              [WakeResolve tx (first # rest)])
                          | None \<Rightarrow> (inner, []))))
          else (inner, []))"

definition handle_lighthouse_packet ::
  "'hs externs \<Rightarrow> 'hs inner \<Rightarrow> header \<Rightarrow> bytes \<Rightarrow> bytes \<Rightarrow> ('hs inner \<times> effect list) option" where
  "handle_lighthouse_packet X inner hdr header_bytes body = do {
     (inner, plain) \<leftarrow> decrypt_from X inner hdr header_bytes body;
     Some (case plain of None \<Rightarrow> (inner, []) | Some (_, msg) \<Rightarrow> handle_lighthouse X inner msg) }"

text \<open>One turn of the receive loop on a datagram of at most 65535 bytes.\<close>

definition recv_datagram ::
  "'hs externs \<Rightarrow> clock \<Rightarrow> 'hs inner \<Rightarrow> bytes \<Rightarrow> socketaddr \<Rightarrow> ('hs inner \<times> effect list) option" where
  "recv_datagram X clk inner buf from =
     (case header_parse buf of
        Inl _ \<Rightarrow> Some (inner, [])
      | Inr hdr \<Rightarrow>
          let header_bytes = take LEN buf; body = drop LEN buf in
          if msg_type hdr = HANDSHAKE then handle_handshake X clk inner hdr body from
          else if msg_type hdr = MESSAGE then handle_message X inner hdr header_bytes body
          else if msg_type hdr = LIGHTHOUSE then handle_lighthouse_packet X inner hdr header_bytes body
          else Some (inner, []))"

section \<open>Operations of the interface\<close>

record peer_info =
  info_name :: string
  info_groups :: "string list"
  info_networks :: "network list"
  info_unsafe_networks :: "network list"

definition cert_info :: "certificate \<Rightarrow> peer_info" where
  "cert_info cert = \<lparr>info_name = d_name (cert_details cert), info_groups = d_groups (cert_details cert),
     info_networks = d_networks (cert_details cert), info_unsafe_networks = d_unsafe_networks (cert_details cert)\<rparr>"

definition peer_info_of :: "'hs inner \<Rightarrow> ipaddr \<Rightarrow> peer_info option" where
  "peer_info_of inner vpn = do {
     index \<leftarrow> index_by_vpn_addr inner vpn;
     peer \<leftarrow> peers_by_index inner index;
     case peer of
       Established _ _ _ cert _ \<Rightarrow> Some (cert_info cert)
     | Handshaking _ \<Rightarrow> None }"

definition data_header :: "u8 \<Rightarrow> u32 \<Rightarrow> u64 \<Rightarrow> header" where
  "data_header ty index ctr =
     \<lparr>version = VERSION, msg_type = ty, subtype = 0, remote_index = index, message_counter = ctr\<rparr>"

text \<open>An error after the counter was taken leaves it taken.\<close>

definition send_typed ::
  "'hs externs \<Rightarrow> 'hs inner \<Rightarrow> ipaddr \<Rightarrow> u8 \<Rightarrow> bytes \<Rightarrow> (unit result \<times> 'hs inner \<times> effect list) option" where
  "send_typed X inner vpn ty payload =
     (case index_by_vpn_addr inner vpn of
        None \<Rightarrow> Some (Inl (PeerUnreachable vpn), inner, [])
      | Some index \<Rightarrow>
          (case peers_by_index inner index of
             Some (Established t remote v cert peer_index) \<Rightarrow>
               let (ctr, t) = next_counter t;
                   header_bytes = header_encode (data_header ty peer_index ctr);
                   inner = inner\<lparr>peers_by_index :=
                     (peers_by_index inner)(index \<mapsto> Established t remote v cert peer_index)\<rparr>
               in do {
                 (res, ciphertext) \<leftarrow> transport_encrypt (x_aead X) t ctr header_bytes payload
                   (replicate (length payload + 32) 0);
                 Some (case res of
                         Inl e \<Rightarrow> (Inl e, inner, [])
                       | Inr len \<Rightarrow> (Inr (), inner, [SendTo remote (header_bytes @ take len ciphertext)])) }
           | _ \<Rightarrow> Some (Inl (PeerUnreachable vpn), inner, [])))"

definition send :: "'hs externs \<Rightarrow> 'hs inner \<Rightarrow> ipaddr \<Rightarrow> bytes \<Rightarrow> (unit result \<times> 'hs inner \<times> effect list) option" where
  "send X inner vpn payload = send_typed X inner vpn MESSAGE payload"

text \<open>The second critical section of \<open>resolve\<close>, for an address not known: a new channel
  whose sender waits for the lighthouses' answer.\<close>

definition resolve_wait :: "'hs inner \<Rightarrow> ipaddr \<Rightarrow> channel \<times> 'hs inner \<times> effect list" where
  "resolve_wait inner vpn =
     (let tx = channels inner;
          dropped = (case lighthouse_waiters inner vpn of Some old \<Rightarrow> [DropResolve old] | None \<Rightarrow> [])
      in (tx, inner\<lparr>lighthouse_waiters := (lighthouse_waiters inner)(vpn \<mapsto> tx), channels := Suc tx\<rparr>, dropped))"

text \<open>What \<open>resolve\<close> returns once its wait ends: the woken address list, or \<open>None\<close> for the
  timeout and for a dropped sender.\<close>

definition resolve_finish :: "ipaddr \<Rightarrow> socketaddr list option \<Rightarrow> socketaddr result" where
  "resolve_finish vpn woken =
     and_then (ok_or (PeerUnreachable vpn) woken) (\<lambda>addrs.
     case addrs of a # _ \<Rightarrow> Inr a | [] \<Rightarrow> Inl (PeerUnreachable vpn))"

text \<open>The critical section of \<open>connect\<close>, and what it has done when it first reads the clock. Its
  channel is the number \<open>channels\<close> has before it.\<close>

definition connect_begin :: "'hs inner \<Rightarrow> ipaddr \<Rightarrow> 'hs inner \<times> effect list" where
  "connect_begin inner vpn =
     (inner\<lparr>connected := (connected inner)(vpn \<mapsto> channels inner), channels := Suc (channels inner)\<rparr>,
      case connected inner vpn of Some old \<Rightarrow> [DropConnect old] | None \<Rightarrow> [])"

declare connect_begin_def [simp]

definition connect_start ::
  "'hs externs \<Rightarrow> clock \<Rightarrow> 'hs inner \<Rightarrow> ipaddr \<Rightarrow> socketaddr \<Rightarrow> (unit result \<times> 'hs inner \<times> effect list) option" where
  "connect_start X clk inner vpn remote = do {
     let (inner, dropped) = connect_begin inner vpn;
     index \<leftarrow> allocate_index inner (subsec_nanos clk);
     let cert_bytes = encode_for_handshake (host_cert inner);
     Some (case stage0 (x_noise X) (x_pb X) (unix_nanos_now clk) (in_cipher inner) (host_private_key inner)
             cert_bytes index of
             Inl e \<Rightarrow> (Inl e, inner, dropped)
           | Inr (hs, msg) \<Rightarrow>
               let packet = header_encode (handshake_header 0 1) @ msg
               in (Inr (), inner\<lparr>peers_by_index := (peers_by_index inner)(index \<mapsto> Handshaking hs)\<rparr>,
                   dropped @ [SendTo remote packet])) }"

datatype wait_outcome = Woken | TimedOut | SenderDropped

fun connect_finish :: "wait_outcome \<Rightarrow> unit result" where
  "connect_finish Woken = Inr ()"
| "connect_finish TimedOut = Inl (Timeout ''handshake'')"
| "connect_finish SenderDropped = Inl (HandshakeFailed ''cancelled'')"

text \<open>The state \<open>build\<close> starts from.\<close>

definition build_inner :: "'hs externs \<Rightarrow> session_config \<Rightarrow> 'hs inner result" where
  "build_inner X cfg =
     and_then (pem_decode (x_pem X) (ca_cert_pem cfg) CERTIFICATE_V2_BANNER) (\<lambda>ca_der.
     and_then (certificate_decode ca_der) (\<lambda>ca.
     and_then (pem_decode (x_pem X) (host_cert_pem cfg) CERTIFICATE_V2_BANNER) (\<lambda>host_der.
     and_then (certificate_decode host_der) (\<lambda>host.
     and_then (pem_decode (x_pem X) (host_key_pem cfg) X25519_PRIVATE_KEY_BANNER) (\<lambda>key.
     if length key \<noteq> 32 then Inl (Pem ''host private key is not 32 bytes'')
     else
       (case d_networks (cert_details host) of
          [] \<Rightarrow> Inl CertNoNetworks
        | n # _ \<Rightarrow> Inr \<lparr>ca_cert = ca, host_cert = host, host_private_key = key, in_cipher = cfg_cipher cfg,
            own_vpn_addr = nw_addr n, lighthouses = cfg_lighthouses cfg, known_addrs = map_of (rev (static_hosts cfg)),
            peers_by_index = Map.empty, index_by_vpn_addr = Map.empty, connected = Map.empty,
            lighthouse_waiters = Map.empty, channels = 0\<rparr>))))))"

text \<open>The message \<open>register_with_lighthouses\<close> sends over the tunnel once \<open>connect\<close> to a
  lighthouse has returned.\<close>

definition register_send ::
  "'hs externs \<Rightarrow> 'hs inner \<Rightarrow> socketaddr \<Rightarrow> ipaddr \<Rightarrow> (unit result \<times> 'hs inner \<times> effect list) option" where
  "register_send X inner local_addr lh =
     send_typed X inner lh LIGHTHOUSE
       (encode_meta (x_pb X) (host_update_notification (own_vpn_addr inner) [local_addr]))"

text \<open>\<open>recv\<close> on the messages waiting in the inbox and the number of its senders that are alive;
  \<open>None\<close> while it waits.\<close>

definition session_recv :: "(ipaddr \<times> bytes) list \<Rightarrow> nat \<Rightarrow> ((ipaddr \<times> bytes) result \<times> (ipaddr \<times> bytes) list) option" where
  "session_recv queue senders =
     (case queue of
        m # rest \<Rightarrow> Some (Inr m, rest)
      | [] \<Rightarrow> if senders = 0 then Some (Inl (Timeout ''session closed''), []) else None)"

section \<open>The session as a transition system\<close>

text \<open>Every critical section is one step, with its effects; tasks interleave between them. A section
  that panics on the clock is a step as far as it got: \<open>connect\<close> has registered its channel, and the
  receive loop has removed the pending handshake of a reply (on a first message it has changed
  nothing). The lock is not poisoned, and the other tasks go on.\<close>

inductive session_step :: "'hs externs \<Rightarrow> 'hs inner \<Rightarrow> effect list \<Rightarrow> 'hs inner \<Rightarrow> bool"
  for X :: "'hs externs" where
  recv_step: "recv_datagram X clk s buf from = Some (s', out) \<Longrightarrow> session_step X s out s'"
| send_step: "send_typed X s vpn ty payload = Some (r, s', out) \<Longrightarrow> session_step X s out s'"
| resolve_step: "resolve_wait s vpn = (tx, s', out) \<Longrightarrow> session_step X s out s'"
| connect_step: "connect_start X clk s vpn remote = Some (r, s', out) \<Longrightarrow> session_step X s out s'"
| connect_panic: "connect_begin s vpn = (s', out) \<Longrightarrow> subsec_nanos_at t = None \<or> unix_nanos_at t = None \<Longrightarrow> session_step X s out s'"
| reply_panic: "peers_by_index s i = Some (Handshaking hs) \<Longrightarrow> i \<noteq> 0 \<Longrightarrow> now_unix_at t = None \<Longrightarrow>
    session_step X s [] (s\<lparr>peers_by_index := (peers_by_index s)(i := None)\<rparr>)"

definition session_init :: "'hs inner \<Rightarrow> bool" where
  "session_init s \<longleftrightarrow> peers_by_index s = Map.empty \<and> index_by_vpn_addr s = Map.empty \<and> connected s = Map.empty"

definition window_ok :: "replay_window \<Rightarrow> bool" where
  "window_ok w \<longleftrightarrow> (\<exists>a. window_rel w a)"

definition peer_ok :: "'hs externs \<Rightarrow> certificate \<Rightarrow> 'hs peer_state \<Rightarrow> bool" where
  "peer_ok X ca p =
     (case p of
        Handshaking _ \<Rightarrow> True
      | Established t remote v c ri \<Rightarrow>
          (\<exists>now. verify_host_cert (x_crypto X) c ca now = Inr ()) \<and>
          map nw_addr (take 1 (d_networks (cert_details c))) = [v] \<and> ri \<noteq> 0 \<and> window_ok (replay t))"

text \<open>The entry of an index is an established peer with this vpn address.\<close>

fun peer_is :: "ipaddr \<Rightarrow> 'hs peer_state option \<Rightarrow> bool" where
  "peer_is v (Some (Established t r v' c ri)) = (v' = v)"
| "peer_is v _ = False"

definition session_inv :: "'hs externs \<Rightarrow> certificate \<Rightarrow> 'hs inner \<Rightarrow> bool" where
  "session_inv X ca s \<longleftrightarrow>
     ca_cert s = ca \<and>
     (\<forall>i p. peers_by_index s i = Some p \<longrightarrow> i \<noteq> 0 \<and> peer_ok X ca p) \<and>
     (\<forall>v i. index_by_vpn_addr s v = Some i \<longrightarrow> peer_is v (peers_by_index s i))"

lemma session_invD:
  assumes "session_inv X ca s"
  shows "ca_cert s = ca"
    and "peers_by_index s i = Some p \<Longrightarrow> i \<noteq> 0 \<and> peer_ok X ca p"
    and "index_by_vpn_addr s v = Some i \<Longrightarrow> peer_is v (peers_by_index s i)"
  using assms by (auto simp: session_inv_def)

lemma peer_isE:
  assumes "peer_is v p"
  obtains t r c ri where "p = Some (Established t r v c ri)"
  using assms by (cases "(v, p)" rule: peer_is.cases) auto

text \<open>The three ways an operation changes the peer table.\<close>

lemma inv_transport:
  assumes "session_inv X ca s" and "peers_by_index s i = Some (Established t r v c ri)"
    and "window_ok (replay t')"
  shows "session_inv X ca (s\<lparr>peers_by_index := (peers_by_index s)(i \<mapsto> Established t' r v c ri)\<rparr>)"
proof -
  have "i \<noteq> 0 \<and> peer_ok X ca (Established t' r v c ri)"
    using session_invD(2) [OF assms(1,2)] assms(3) by (simp add: peer_ok_def)
  moreover have "peer_is v' (((peers_by_index s)(i \<mapsto> Established t' r v c ri)) j) = peer_is v' (peers_by_index s j)" for v' j
    using assms(2) by simp
  ultimately show ?thesis using session_invD [OF assms(1)] by (simp add: session_inv_def)
qed

lemma inv_establish:
  assumes "session_inv X ca s" and "\<And>v. \<not> peer_is v (peers_by_index s i)"
    and "i \<noteq> 0" and "peer_ok X ca (Established t r v c ri)"
  shows "session_inv X ca (s\<lparr>peers_by_index := (peers_by_index s)(i \<mapsto> Established t r v c ri),
    index_by_vpn_addr := (index_by_vpn_addr s)(v \<mapsto> i)\<rparr>)"
proof -
  have "j \<noteq> i" if "index_by_vpn_addr s v' = Some j" for v' j
    using session_invD(3) [OF assms(1) that] assms(2) by metis
  with assms session_invD [OF assms(1)] show ?thesis
    by (simp add: session_inv_def)
qed

lemma inv_handshaking:
  assumes "session_inv X ca s" and "\<And>v. \<not> peer_is v (peers_by_index s i)"
    and "i \<noteq> 0" and "p = None \<or> p = Some (Handshaking hs)"
  shows "session_inv X ca (s\<lparr>peers_by_index := (peers_by_index s)(i := p)\<rparr>)"
proof -
  have "j \<noteq> i" if "index_by_vpn_addr s v' = Some j" for v' j
    using session_invD(3) [OF assms(1) that] assms(2) by metis
  with assms session_invD [OF assms(1)] show ?thesis
    by (auto simp: session_inv_def peer_ok_def)
qed

lemma inv_other_fields:
  "session_inv X ca (s\<lparr>known_addrs := k\<rparr>) = session_inv X ca s"
  "session_inv X ca (s\<lparr>connected := cn\<rparr>) = session_inv X ca s"
  "session_inv X ca (s\<lparr>lighthouse_waiters := w\<rparr>) = session_inv X ca s"
  "session_inv X ca (s\<lparr>channels := n\<rparr>) = session_inv X ca s"
  by (simp_all add: session_inv_def)

lemma allocate_index_fresh:
  "allocate_index s ns = Some i \<Longrightarrow> i \<noteq> 0 \<and> peers_by_index s i = None"
  by (induction ns) (auto simp: Let_def split: if_splits)

lemma accept_cert_ok:
  assumes "accept_cert X clk s b rs = Some (c, v)" and "ri \<noteq> 0"
  shows "peer_ok X (ca_cert s) (Established (transport_new cph sk rk) from v c ri)"
proof -
  from assms(1) have "verify_host_cert (x_crypto X) c (ca_cert s) (now_unix clk) = Inr ()"
    and "map nw_addr (take 1 (d_networks (cert_details c))) = [v]"
    by (auto simp: accept_cert_def split: sum.splits list.splits)
  moreover have "window_ok (replay (transport_new cph sk rk))"
    using window_rel_new by (auto simp: transport_new_def window_ok_def)
  ultimately show ?thesis using assms(2) by (auto simp: peer_ok_def)
qed

lemma check_and_update_ok:
  assumes "window_ok w"
  obtains fresh w' where "check_and_update w c = Some (fresh, w')" and "window_ok w'"
proof -
  from assms obtain a where a: "window_rel w a" by (auto simp: window_ok_def)
  obtain fresh a' where "spec_check a c = (fresh, a')" by (cases "spec_check a c")
  from check_and_update_sim [OF a this] that show thesis unfolding window_ok_def by blast
qed

lemma transport_decrypt_window:
  assumes "window_ok (replay t)" and "transport_decrypt A t c aad ct out = Some (res, t', out')"
  shows "window_ok (replay t')"
proof -
  obtain fresh w where "check_and_update (replay t) c = Some (fresh, w)" and "window_ok w"
    by (rule check_and_update_ok [OF assms(1)])
  with assms(2) show ?thesis
    by (auto simp: transport_decrypt_def Let_def split: if_splits sum.splits Option.bind_splits)
qed

lemma decrypt_from_cases:
  assumes "decrypt_from X s hdr hb body = Some (s', plain)"
  obtains (none) "s' = s" and "plain = None"
  | (peer) t r v c ri res t' out where "peers_by_index s (remote_index hdr) = Some (Established t r v c ri)"
      and "transport_decrypt (x_aead X) t (message_counter hdr) hb body (replicate (length body) 0) = Some (res, t', out)"
      and "s' = s\<lparr>peers_by_index := (peers_by_index s)(remote_index hdr \<mapsto> Established t' r v c ri)\<rparr>"
      and "plain = (case res of Inl _ \<Rightarrow> None | Inr len \<Rightarrow> Some (v, take len out))"
  using assms
  by (auto simp: decrypt_from_def Let_def bind_eq_Some_conv split: option.splits peer_state.splits)

lemma decrypt_from_info: "decrypt_from X s hdr hb body = Some (s', plain) \<Longrightarrow> peer_info_of s' v = peer_info_of s v"
  by (erule decrypt_from_cases) (auto simp: peer_info_of_def bind_eq_Some_conv split: Option.bind_split)

lemma decrypt_from_inv:
  assumes "session_inv X ca s" and "decrypt_from X s hdr hb body = Some (s', plain)"
  shows "session_inv X ca s'"
  using assms(2)
proof (cases rule: decrypt_from_cases)
  case (peer t r v c ri res t' out)
  then have "window_ok (replay t)" using session_invD(2) [OF assms(1)] by (fastforce simp: peer_ok_def)
  with peer show ?thesis using inv_transport [OF assms(1)] transport_decrypt_window by blast
qed (use assms in simp)

lemma handle_lighthouse_inv:
  "session_inv X ca s \<Longrightarrow> session_inv X ca (fst (handle_lighthouse X s b))"
  by (auto simp: handle_lighthouse_def Let_def inv_other_fields split: sum.split list.split option.split)

lemma handle_stage0_inv:
  assumes "session_inv X ca s" and "handle_stage0 X clk s body from = Some (s', out)"
  shows "session_inv X ca s'"
proof -
  from assms(2) obtain i where i: "allocate_index s (subsec_nanos clk) = Some i"
    by (auto simp: handle_stage0_def bind_eq_Some_conv)
  note fresh = allocate_index_fresh [OF i] and ca = session_invD(1) [OF assms(1)]
  show ?thesis
    using assms i fresh ca
    by (auto simp: handle_stage0_def Let_def dest!: respond_index accept_cert_ok
        intro!: inv_establish split: sum.splits option.splits)
qed

lemma handle_stage2_inv:
  assumes "session_inv X ca s" and "i \<noteq> 0"
  shows "session_inv X ca (fst (handle_stage2 X clk s i body from))"
proof (cases "\<exists>hs. peers_by_index s i = Some (Handshaking hs)")
  case True
  then obtain hs where hs: "peers_by_index s i = Some (Handshaking hs)" by blast
  let ?s = "s\<lparr>peers_by_index := (peers_by_index s)(i := None)\<rparr>"
  have removed: "session_inv X ca ?s"
    by (rule inv_handshaking [OF assms(1) _ assms(2)]) (simp_all add: hs)
  have "session_inv X ca (?s\<lparr>peers_by_index := (peers_by_index ?s)(i \<mapsto> Established
      (transport_new (in_cipher s) (send_key keys) (recv_key keys)) from v c (responder_index d)),
      index_by_vpn_addr := (index_by_vpn_addr ?s)(v \<mapsto> i)\<rparr>)"
    if "finish_initiator (x_noise X) (x_pb X) hs body = Inr (d, keys)"
      and "accept_cert X clk ?s (hd_cert d) (remote_static keys) = Some (c, v)" for d keys c v
    by (rule inv_establish [OF removed _ assms(2)])
      (use accept_cert_ok [OF that(2) finish_index [OF that(1)]] session_invD(1) [OF removed] in simp_all)
  with removed hs show ?thesis
    by (auto simp: handle_stage2_def Let_def inv_other_fields split: sum.split option.split)
next
  case False
  with assms show ?thesis
    by (auto simp: handle_stage2_def split: option.split peer_state.split)
qed

lemma recv_datagram_cases:
  assumes "recv_datagram X clk s buf from = Some (s', out)"
  obtains (ignored) "s' = s" and "out = []"
  | (handshake) hdr where "handle_handshake X clk s hdr (drop LEN buf) from = Some (s', out)"
  | (message) hdr where "handle_message X s hdr (take LEN buf) (drop LEN buf) = Some (s', out)"
  | (lighthouse) hdr where "handle_lighthouse_packet X s hdr (take LEN buf) (drop LEN buf) = Some (s', out)"
proof (cases "header_parse buf")
  case (Inl e)
  with assms ignored show thesis by (simp add: recv_datagram_def)
next
  case (Inr hdr)
  then have branches: "recv_datagram X clk s buf from =
      (if msg_type hdr = HANDSHAKE then handle_handshake X clk s hdr (drop LEN buf) from
       else if msg_type hdr = MESSAGE then handle_message X s hdr (take LEN buf) (drop LEN buf)
       else if msg_type hdr = LIGHTHOUSE then handle_lighthouse_packet X s hdr (take LEN buf) (drop LEN buf)
       else Some (s, []))"
    by (simp add: recv_datagram_def Let_def)
  show thesis
    using assms unfolding branches by (auto split: if_splits intro: ignored handshake message lighthouse)
qed

lemma recv_datagram_inv:
  assumes "session_inv X ca s" and "recv_datagram X clk s buf from = Some (s', out)"
  shows "session_inv X ca s'"
  using assms(2)
proof (cases rule: recv_datagram_cases)
  case ignored
  with assms(1) show ?thesis by simp
next
  case (handshake hdr)
  with assms(1) handle_stage2_inv [OF assms(1), of "remote_index hdr" clk "drop LEN buf" "from"]
  show ?thesis
    by (auto simp: handle_handshake_def split: if_splits dest: handle_stage0_inv)
next
  case (message hdr)
  with assms(1) show ?thesis
    by (auto simp: handle_message_def bind_eq_Some_conv dest: decrypt_from_inv)
next
  case (lighthouse hdr)
  then obtain s1 plain where "decrypt_from X s hdr (take LEN buf) (drop LEN buf) = Some (s1, plain)"
    and "(s', out) = (case plain of None \<Rightarrow> (s1, []) | Some (_, msg) \<Rightarrow> handle_lighthouse X s1 msg)"
    by (auto simp: handle_lighthouse_packet_def bind_eq_Some_conv)
  with decrypt_from_inv [OF assms(1)] handle_lighthouse_inv [of X ca s1] show ?thesis
    by (auto split: option.splits) (metis fst_conv)
qed

text \<open>\<open>send_typed\<close> on an established peer, with the header and the moved transport named.\<close>

lemma send_typed_established:
  assumes "index_by_vpn_addr s v = Some i" and "peers_by_index s i = Some (Established t rm v' c ri)"
    and "next_counter t = (ctr, t')"
  shows "send_typed X s v ty payload =
    map_option (\<lambda>(res, ct).
      (map_sum id (\<lambda>_. ()) res, s\<lparr>peers_by_index := (peers_by_index s)(i \<mapsto> Established t' rm v' c ri)\<rparr>,
       case res of Inl e \<Rightarrow> [] | Inr len \<Rightarrow> [SendTo rm (header_encode (data_header ty ri ctr) @ take len ct)]))
      (transport_encrypt (x_aead X) t' ctr (header_encode (data_header ty ri ctr)) payload
        (replicate (length payload + 32) 0))"
  using assms
  by (cases "transport_encrypt (x_aead X) t' ctr (header_encode (data_header ty ri ctr)) payload
        (replicate (length payload + 32) 0)")
    (auto simp: send_typed_def Let_def split: sum.split)

lemma send_typed_unreachable:
  assumes "\<And>i t rm v' c ri. index_by_vpn_addr s v = Some i \<Longrightarrow> peers_by_index s i \<noteq> Some (Established t rm v' c ri)"
  shows "send_typed X s v ty payload = Some (Inl (PeerUnreachable v), s, [])"
proof (cases "index_by_vpn_addr s v")
  case (Some i)
  with assms [OF Some] show ?thesis
    by (auto simp: send_typed_def split: option.split peer_state.split)
qed (simp add: send_typed_def)

lemma send_typed_cases:
  assumes "send_typed X s v ty payload = Some (r, s', out)"
  obtains (unreachable) "r = Inl (PeerUnreachable v)" and "s' = s" and "out = []"
  | (peer) i t rm v' c ri where "index_by_vpn_addr s v = Some i"
      and "peers_by_index s i = Some (Established t rm v' c ri)"
      and "s' = s\<lparr>peers_by_index := (peers_by_index s)(i \<mapsto> Established (snd (next_counter t)) rm v' c ri)\<rparr>"
      and "out = [] \<or> (\<exists>pkt. out = [SendTo rm pkt])"
proof (cases "\<exists>i t rm v' c ri. index_by_vpn_addr s v = Some i \<and> peers_by_index s i = Some (Established t rm v' c ri)")
  case True
  then obtain i t rm v' c ri where p: "index_by_vpn_addr s v = Some i"
    "peers_by_index s i = Some (Established t rm v' c ri)" by blast
  from assms have "s' = s\<lparr>peers_by_index := (peers_by_index s)(i \<mapsto> Established (snd (next_counter t)) rm v' c ri)\<rparr>"
    and "out = [] \<or> (\<exists>pkt. out = [SendTo rm pkt])"
    unfolding send_typed_established [OF p surjective_pairing] by (auto split: sum.split)
  with p peer show thesis by blast
next
  case False
  with send_typed_unreachable [of s v X ty payload] assms unreachable show thesis by fastforce
qed

lemma send_typed_ok_sends:
  assumes "send_typed X s v ty payload = Some (Inr (), s', out)"
  shows "out \<noteq> []"
  using assms
proof (cases rule: send_typed_cases)
  case (peer i t rm v' c ri)
  let ?ctr = "fst (next_counter t)"
  show ?thesis
  proof (cases "transport_encrypt (x_aead X) (snd (next_counter t)) ?ctr (header_encode (data_header ty ri ?ctr)) payload
      (replicate (length payload + 32) 0)")
    case (Some z)
    with assms show ?thesis
      unfolding send_typed_established [OF peer(1,2) surjective_pairing] by (cases z; cases "fst z") auto
  qed (use assms in \<open>simp add: send_typed_established [OF peer(1,2) surjective_pairing]\<close>)
qed simp

lemma send_typed_inv:
  assumes "session_inv X ca s" and "send_typed X s v ty payload = Some (r, s', out)"
  shows "session_inv X ca s'"
  using assms(2)
proof (cases rule: send_typed_cases)
  case (peer i t rm v' c ri)
  with inv_transport [OF assms(1) peer(2), of "snd (next_counter t)"] session_invD(2) [OF assms(1) peer(2)]
  show ?thesis by (simp add: peer_ok_def next_counter_def)
qed (use assms in simp)

lemma resolve_wait_inv:
  "session_inv X ca s \<Longrightarrow> resolve_wait s v = (tx, s', out) \<Longrightarrow> session_inv X ca s'"
  by (auto simp: resolve_wait_def Let_def inv_other_fields)

lemma connect_start_inv:
  assumes "session_inv X ca s" and "connect_start X clk s v rm = Some (r, s', out)"
  shows "session_inv X ca s'"
proof -
  let ?s = "s\<lparr>connected := (connected s)(v \<mapsto> channels s), channels := Suc (channels s)\<rparr>"
  have inv: "session_inv X ca ?s" using assms(1) by (simp add: inv_other_fields)
  from assms(2) obtain i where i: "allocate_index ?s (subsec_nanos clk) = Some i"
    by (auto simp: connect_start_def bind_eq_Some_conv Let_def)
  have "session_inv X ca (?s\<lparr>peers_by_index := (peers_by_index ?s)(i \<mapsto> Handshaking hs)\<rparr>)" for hs
    by (rule inv_handshaking [OF inv]) (use allocate_index_fresh [OF i] in auto)
  with inv assms(2) i show ?thesis
    by (auto simp: connect_start_def Let_def split: sum.splits)
qed

lemma panic_inv:
  "session_inv X ca s \<Longrightarrow> connect_begin s v = (s', out) \<Longrightarrow> session_inv X ca s'"
  "session_inv X ca s \<Longrightarrow> peers_by_index s i = Some (Handshaking hs) \<Longrightarrow> i \<noteq> 0 \<Longrightarrow>
   session_inv X ca (s\<lparr>peers_by_index := (peers_by_index s)(i := None)\<rparr>)"
proof -
  show "session_inv X ca s \<Longrightarrow> connect_begin s v = (s', out) \<Longrightarrow> session_inv X ca s'"
    by (auto simp: inv_other_fields)
  assume "session_inv X ca s" and "peers_by_index s i = Some (Handshaking hs)" and "i \<noteq> 0"
  then show "session_inv X ca (s\<lparr>peers_by_index := (peers_by_index s)(i := None)\<rparr>)"
    using inv_handshaking [of X ca s i None] by simp
qed

lemma session_step_inv:
  assumes "session_inv X ca s" and "session_step X s out s'"
  shows "session_inv X ca s'"
  using assms(2)
proof cases
  case (connect_panic vpn t)
  then show ?thesis by (intro panic_inv(1) [OF assms(1)])
next
  case (reply_panic i hs t)
  then show ?thesis using panic_inv(2) [OF assms(1)] by simp
qed (use assms(1) in \<open>blast intro: recv_datagram_inv send_typed_inv resolve_wait_inv connect_start_inv\<close>)+

lemma session_init_inv: "session_init s \<Longrightarrow> ca_cert s = ca \<Longrightarrow> session_inv X ca s"
  by (simp add: session_init_def session_inv_def)

interpretation session: transition_invariant "\<lambda>s. session_init s \<and> ca_cert s = ca"
  "\<lambda>s s'. \<exists>out. session_step X s out s'" "session_inv X ca" for X :: "'hs externs" and ca
  by unfold_locales (auto intro: session_init_inv session_step_inv)

section \<open>What a step can do\<close>

text \<open>The documented sizes of an AEAD: a tag of at most 32 bytes, and no plaintext longer than its
  ciphertext.\<close>

definition aead_sizes :: "aead_ops \<Rightarrow> bool" where
  "aead_sizes A \<longleftrightarrow>
     (\<forall>ci ctr aad m c. cipher_encrypt A ci ctr aad m = Inr c \<longrightarrow> length c \<le> length m + 32) \<and>
     (\<forall>ci ctr aad m c. cipher_decrypt A ci ctr aad c = Inr m \<longrightarrow> length m \<le> length c)"

lemma transport_decrypt_total:
  assumes "aead_sizes A" and "window_ok (replay t)"
  shows "transport_decrypt A t ctr aad ct (replicate (length ct) 0) \<noteq> None"
proof -
  obtain fresh w where "check_and_update (replay t) ctr = Some (fresh, w)"
    by (rule check_and_update_ok [OF assms(2)])
  with assms(1) show ?thesis
    by (auto simp: transport_decrypt_def Let_def copy_prefix_def aead_sizes_def split: sum.split)
qed

lemma transport_encrypt_total:
  "aead_sizes A \<Longrightarrow> transport_encrypt A t ctr aad m (replicate (length m + 32) 0) \<noteq> None"
  by (auto simp: transport_encrypt_def copy_prefix_def aead_sizes_def split: sum.split)

lemma send_typed_total:
  assumes "aead_sizes (x_aead X)"
  shows "send_typed X s v ty payload \<noteq> None"
proof (cases "\<exists>i t rm v' c ri. index_by_vpn_addr s v = Some i \<and> peers_by_index s i = Some (Established t rm v' c ri)")
  case True
  then obtain i t rm v' c ri where p: "index_by_vpn_addr s v = Some i"
    "peers_by_index s i = Some (Established t rm v' c ri)" by blast
  show ?thesis
    unfolding send_typed_established [OF p surjective_pairing] using transport_encrypt_total [OF assms] by simp
next
  case False
  then show ?thesis by (subst send_typed_unreachable) auto
qed

lemma decrypt_from_total:
  assumes "session_inv X ca s" and "aead_sizes (x_aead X)"
  shows "decrypt_from X s hdr hb body \<noteq> None"
proof (cases "peers_by_index s (remote_index hdr)")
  case (Some p)
  show ?thesis
  proof (cases p)
    case (Established t r v c ri)
    with session_invD(2) [OF assms(1) Some] have "window_ok (replay t)" by (simp add: peer_ok_def)
    with transport_decrypt_total [OF assms(2), of t "message_counter hdr" hb body] obtain res t' out where
      "transport_decrypt (x_aead X) t (message_counter hdr) hb body (replicate (length body) 0) = Some (res, t', out)"
      by auto
    with Some Established show ?thesis by (simp add: decrypt_from_def Let_def)
  qed (simp add: decrypt_from_def Some)
qed (simp add: decrypt_from_def)

lemma transport_decrypt_ok:
  assumes "transport_decrypt A t ctr aad ct (replicate n 0) = Some (Inr len, t', out)"
  shows "cipher_decrypt A (recv_cipher t) ctr aad ct = Inr (take len out) \<and>
    map_option fst (check_and_update (replay t) ctr) = Some True"
  using assms
  by (auto simp: transport_decrypt_def Let_def copy_prefix_def bind_eq_Some_conv
      split: if_splits sum.splits)

lemma handle_stage0_effects:
  assumes "handle_stage0 X clk s body from = Some (s', out)"
  shows "Inbox v m \<notin> set out"
proof -
  from assms obtain i where "allocate_index s (subsec_nanos clk) = Some i"
    by (auto simp: handle_stage0_def bind_eq_Some_conv)
  with assms show ?thesis
    by (auto simp: handle_stage0_def Let_def split: sum.splits option.splits)
qed

lemma handle_stage2_effects: "Inbox v m \<notin> set (snd (handle_stage2 X clk s i body from))"
  by (auto simp: handle_stage2_def Let_def split: sum.split option.split peer_state.split)

lemma handle_lighthouse_effects: "Inbox v m \<notin> set (snd (handle_lighthouse X s b))"
  by (auto simp: handle_lighthouse_def Let_def split: sum.split option.split list.split)

lemma inbox_origin:
  assumes "recv_datagram X clk s buf from = Some (s', out)" and "Inbox v m \<in> set out"
  obtains hdr where "header_parse buf = Inr hdr" and "msg_type hdr = MESSAGE"
    and "decrypt_from X s hdr (take LEN buf) (drop LEN buf) = Some (s', Some (v, m))"
proof -
  from assms(1) assms(2) obtain hdr where hdr: "header_parse buf = Inr hdr"
    by (auto simp: recv_datagram_def split: sum.splits)
  let ?hb = "take LEN buf" and ?body = "drop LEN buf"
  have "\<not> (msg_type hdr = HANDSHAKE)"
  proof
    assume "msg_type hdr = HANDSHAKE"
    with assms(1) hdr have "handle_handshake X clk s hdr ?body from = Some (s', out)"
      by (simp add: recv_datagram_def)
    with handle_stage2_effects [of v m X clk s "remote_index hdr" ?body "from"] assms(2)
    show False by (auto simp: handle_handshake_def split: if_splits dest: handle_stage0_effects)
  qed
  moreover have "\<not> handle_lighthouse_packet X s hdr ?hb ?body = Some (s', out)"
  proof
    assume "handle_lighthouse_packet X s hdr ?hb ?body = Some (s', out)"
    then have "out = [] \<or> (\<exists>s1 b. handle_lighthouse X s1 b = (s', out))"
      by (auto simp: handle_lighthouse_packet_def bind_eq_Some_conv split: option.splits)
    with handle_lighthouse_effects [of v m X] assms(2) show False by (metis empty_iff list.set(1) snd_conv)
  qed
  ultimately have msg: "msg_type hdr = MESSAGE" "handle_message X s hdr ?hb ?body = Some (s', out)"
    using assms hdr by (auto simp: recv_datagram_def Let_def split: if_splits)
  then obtain plain where "decrypt_from X s hdr ?hb ?body = Some (s', plain)"
    and "out = (case plain of None \<Rightarrow> [] | Some (vpn, msg) \<Rightarrow> [Inbox vpn msg])"
    by (auto simp: handle_message_def bind_eq_Some_conv)
  with assms(2) have "decrypt_from X s hdr ?hb ?body = Some (s', Some (v, m))"
    by (auto split: option.splits)
  with that hdr msg(1) show thesis by blast
qed

lemma rand_index_nonzero: "unat nanos < 1000000000 \<Longrightarrow> rand_index nanos \<noteq> 0"
proof
  assume small: "unat nanos < 1000000000" and "rand_index nanos = 0"
  then have "(nanos XOR 0x9E3779B9) XOR 0x9E3779B9 = 0 XOR 0x9E3779B9" by (simp add: rand_index_def)
  then have "nanos = 0x9E3779B9" by (simp add: xor.assoc)
  with small show False by simp
qed

lemma rand_index_inj: "inj rand_index"
proof (rule injI)
  fix x y assume "rand_index x = rand_index y"
  then have "rand_index x XOR 0x9E3779B9 = rand_index y XOR 0x9E3779B9" by simp
  then show "x = y" by (simp add: rand_index_def xor.assoc)
qed

lemma allocate_index_None:
  "allocate_index s ns = None \<Longrightarrow> \<forall>n \<in> set ns. rand_index n \<noteq> 0 \<longrightarrow> rand_index n \<in> dom (peers_by_index s)"
  by (induction ns) (auto simp: Let_def split: if_splits)

end
