(* ===== verification/Tunnel.thy ===== *)
theory Tunnel
  imports Session
begin

text \<open>
  Properties of the session as a whole: what its peer table guarantees, where delivered data comes
  from, that no handler panics, and a tunnel between two sessions from the first handshake packet
  to the delivery of data.
\<close>

section \<open>A tunnel between two sessions\<close>

lemma accept_own_cert:
  assumes "cert_ok c" and "length (encode_for_handshake c) < usize_bound" and "cert_curve c = Curve25519"
    and "verify_host_cert (x_crypto X) c (ca_cert s) (now_unix clk) = Inr ()"
    and "map nw_addr (take 1 (d_networks (cert_details c))) = [v]"
  shows "accept_cert X clk s (encode_for_handshake c) (public_key c) = Some (c, v)"
proof -
  have "c\<lparr>public_key := public_key c, cert_curve := Curve25519\<rparr> = c" using assms(3) by (cases c) simp
  with recombine_encode [OF assms(1), of "[]" "public_key c" Curve25519] assms(2)
  have "recombine (encode_for_handshake c) (public_key c) Curve25519 = Inr c" by simp
  with assms(4,5) show ?thesis by (auto simp: accept_cert_def split: list.splits)
qed

lemma header_parse_typed:
  "header_parse (header_encode (handshake_header i ctr) @ body) = Inr (handshake_header i ctr)"
  "header_parse (header_encode (data_header MESSAGE i ctr) @ body) = Inr (data_header MESSAGE i ctr)"
  by (simp_all add: header_parse_encode nibble_small handshake_header_def data_header_def header_consts)

lemma take_drop_header:
  "take LEN (header_encode h @ body) = header_encode h" "drop LEN (header_encode h @ body) = body"
  by (simp_all add: LEN_def)

lemma header_sel [simp]:
  "msg_type (handshake_header i ctr) = HANDSHAKE" "remote_index (handshake_header i ctr) = i"
  "msg_type (data_header ty i ctr) = ty" "remote_index (data_header ty i ctr) = i"
  "message_counter (data_header ty i ctr) = ctr"
  by (simp_all add: handshake_header_def data_header_def)

lemma recv_handshake:
  "recv_datagram X clk s (header_encode (handshake_header i ctr) @ body) from =
     (if i = 0 then handle_stage0 X clk s body from else Some (handle_stage2 X clk s i body from))"
  unfolding recv_datagram_def header_parse_typed sum.case Let_def take_drop_header
  by (simp add: handle_handshake_def)

lemma recv_message:
  "recv_datagram X clk s (header_encode (data_header MESSAGE i ctr) @ body) from =
     handle_message X s (data_header MESSAGE i ctr) (header_encode (data_header MESSAGE i ctr)) body"
  unfolding recv_datagram_def header_parse_typed sum.case Let_def take_drop_header
  by (simp add: header_consts)

text \<open>One end of a tunnel: its certificate belongs to its key, verifies at the other end and gives
  its vpn address.\<close>

definition endpoint_ok :: "'hs externs \<Rightarrow> (bytes \<Rightarrow> bytes) \<Rightarrow> 'hs inner \<Rightarrow> ipaddr \<Rightarrow> 'hs inner \<Rightarrow> i64 \<Rightarrow> bool" where
  "endpoint_ok X public s v other now \<longleftrightarrow>
     cert_ok (host_cert s) \<and> length (encode_for_handshake (host_cert s)) < usize_bound \<and>
     cert_curve (host_cert s) = Curve25519 \<and> public_key (host_cert s) = public (host_private_key s) \<and>
     map nw_addr (take 1 (d_networks (cert_details (host_cert s)))) = [v] \<and>
     verify_host_cert (x_crypto X) (host_cert s) (ca_cert other) now = Inr ()"

lemma endpoint_accepted:
  "endpoint_ok X public s v other (now_unix clk) \<Longrightarrow> ca_cert o' = ca_cert other \<Longrightarrow>
   accept_cert X clk o' (encode_for_handshake (host_cert s)) (public (host_private_key s)) = Some (host_cert s, v)"
  using accept_own_cert [of "host_cert s" X o' clk v] by (simp add: endpoint_ok_def)

lemma connect_start_sent:
  assumes "connect_start X clk a v rm = Some (Inr (), a', dropped @ [SendTo rm pkt])"
  obtains i hs m where "i \<noteq> 0" and "pkt = header_encode (handshake_header 0 1) @ m"
    and "stage0 (x_noise X) (x_pb X) (unix_nanos_now clk) (in_cipher a) (host_private_key a)
      (encode_for_handshake (host_cert a)) i = Inr (hs, m)"
    and "a' = a\<lparr>connected := (connected a)(v \<mapsto> channels a), channels := Suc (channels a), peers_by_index := (peers_by_index a)(i \<mapsto> Handshaking hs)\<rparr>"
proof -
  let ?a = "a\<lparr>connected := (connected a)(v \<mapsto> channels a), channels := Suc (channels a)\<rparr>"
  from assms obtain i where i: "allocate_index ?a (subsec_nanos clk) = Some i"
    by (auto simp: connect_start_def bind_eq_Some_conv Let_def)
  with assms allocate_index_fresh [OF i] that [of i] show thesis
    by (auto simp: connect_start_def Let_def split: sum.splits option.splits)
qed

lemma handle_stage0_sent:
  assumes "handle_stage0 X clk b body from = Some (b', [SendTo from pkt])"
  obtains j d m keys c v where "j \<noteq> 0"
    and "respond (x_noise X) (x_pb X) (unix_nanos_now clk) (in_cipher b) (host_private_key b)
      (encode_for_handshake (host_cert b)) j body = Inr (d, m, keys)"
    and "accept_cert X clk b (hd_cert d) (remote_static keys) = Some (c, v)"
    and "pkt = header_encode (handshake_header (initiator_index d) 2) @ m"
    and "b' = b\<lparr>peers_by_index := (peers_by_index b)(j \<mapsto> Established
        (transport_new (in_cipher b) (send_key keys) (recv_key keys)) from v c (initiator_index d)),
      index_by_vpn_addr := (index_by_vpn_addr b)(v \<mapsto> j)\<rparr>"
proof -
  from assms obtain j where j: "allocate_index b (subsec_nanos clk) = Some j"
    by (auto simp: handle_stage0_def bind_eq_Some_conv)
  with assms allocate_index_fresh [OF j] that [of j] show thesis
    by (auto simp: handle_stage0_def Let_def split: sum.splits option.splits)
qed

text \<open>A session has room for the handshake messages that carry its certificate; then both messages of a
  handshake are sent.\<close>

definition hello_fits :: "'hs externs \<Rightarrow> 'hs inner \<Rightarrow> nat \<Rightarrow> bool" where
  "hello_fits X s n \<longleftrightarrow> (\<forall>i j t. length (hello (x_pb X) (encode_for_handshake (host_cert s)) i j t) \<le> n)"

lemma allocate_index_other [simp]:
  "allocate_index (s\<lparr>connected := cn, channels := k\<rparr>) ns = allocate_index s ns"
  by (induction ns) (simp_all add: Let_def)

lemma handshake_answered:
  assumes laws: "noise_laws (x_noise X) public" "pb_laws (x_pb X)"
    and cph: "in_cipher a = in_cipher b"
    and accepts: "noise_accepts (x_noise X) (in_cipher a) (host_private_key a) (host_private_key b) n"
    and fits: "hello_fits X a n" "hello_fits X b n" and "endpoint_ok X public a va b (now_unix clk_b)"
    and "allocate_index a (subsec_nanos clk_a) \<noteq> None" and "allocate_index b (subsec_nanos clk_b) \<noteq> None"
  obtains a1 pkt1 b1 pkt2 where
    "connect_start X clk_a a vb addr_b = Some (Inr (), a1, snd (connect_begin a vb) @ [SendTo addr_b pkt1])"
    and "recv_datagram X clk_b b pkt1 addr_a = Some (b1, [SendTo addr_a pkt2])"
proof -
  obtain i j where i: "allocate_index a (subsec_nanos clk_a) = Some i" and j: "allocate_index b (subsec_nanos clk_b) = Some j"
    using assms(8,9) by blast
  obtain hs m1 d m2 keys where s0: "stage0 (x_noise X) (x_pb X) (unix_nanos_now clk_a) (in_cipher a) (host_private_key a)
      (encode_for_handshake (host_cert a)) i = Inr (hs, m1)"
    and resp: "respond (x_noise X) (x_pb X) (unix_nanos_now clk_b) (in_cipher a) (host_private_key b)
      (encode_for_handshake (host_cert b)) j m1 = Inr (d, m2, keys)"
    by (rule handshake_succeeds [OF laws accepts])
      (use fits allocate_index_fresh [OF i] in \<open>unfold hello_fits_def, blast+\<close>)
  have "accept_cert X clk_b b (hd_cert d) (remote_static keys) = Some (host_cert a, va)"
    using handshake_ends_agree [OF laws s0 resp] allocate_index_fresh [OF j] endpoint_accepted [OF assms(7) refl] by simp
  then have "\<exists>b1 pkt2. recv_datagram X clk_b b (header_encode (handshake_header 0 1) @ m1) addr_a = Some (b1, [SendTo addr_a pkt2])"
    using j resp by (simp add: recv_handshake handle_stage0_def cph)
  moreover have "\<exists>a1. connect_start X clk_a a vb addr_b =
      Some (Inr (), a1, snd (connect_begin a vb) @ [SendTo addr_b (header_encode (handshake_header 0 1) @ m1)])"
    using i s0 by (simp add: connect_start_def)
  ultimately show thesis using that by blast
qed

text \<open>An established peer at each end whose transports are fresh and mirrored.\<close>

lemma data_delivered:
  assumes "aead_laws (x_aead X)"
    and "index_by_vpn_addr a v = Some i" and "peers_by_index a i = Some (Established ta rm v c j)"
    and "peers_by_index b j = Some (Established tb rm' w c' i')"
    and "recv_cipher tb = send_cipher ta"
    and "window_rel (replay tb) (hi, S)" and "hi < unat (send_counter ta + 1) + 1024" and "unat (send_counter ta + 1) \<notin> S"
    and "send X a v payload = Some (Inr (), a', out)"
    and sizes: "aead_sizes (x_aead X)"
  shows "\<exists>pkt b'. out = [SendTo rm pkt] \<and> recv_datagram X clk b pkt from = Some (b', [Inbox w payload])"
proof -
  let ?ta = "ta\<lparr>send_counter := send_counter ta + 1\<rparr>" and ?ctr = "send_counter ta + 1"
  let ?hb = "header_encode (data_header MESSAGE j ?ctr)"
  have nc: "next_counter ta = (?ctr, ?ta)" by (simp add: next_counter_def Let_def)
  from assms(9) obtain res ct where
    enc': "transport_encrypt (x_aead X) ?ta ?ctr ?hb payload (replicate (length payload + 32) 0) = Some (res, ct)"
    and ok: "map_sum id (\<lambda>_. ()) res = Inr ()"
    and out': "out = (case res of Inl e \<Rightarrow> [] | Inr len \<Rightarrow> [SendTo rm (?hb @ take len ct)])"
    unfolding send_def send_typed_established [OF assms(2,3) nc] by auto
  from ok obtain n where "res = Inr n" by (cases res) auto
  with enc' out' have enc: "transport_encrypt (x_aead X) ?ta ?ctr ?hb payload (replicate (length payload + 32) 0) = Some (Inr n, ct)"
    and out: "out = [SendTo rm (?hb @ take n ct)]" by simp_all
  let ?body = "take n ct"
  have cipher: "recv_cipher tb = send_cipher ?ta" using assms(5) by simp
  have "cipher_decrypt (x_aead X) (recv_cipher tb) ?ctr ?hb ?body = Inr payload"
    using enc cipher cipher_decrypt_encrypt [OF assms(1), of "send_cipher ta" ?ctr ?hb payload]
    by (auto simp: transport_encrypt_def copy_prefix_def split: sum.splits if_splits)
  with sizes have "length payload \<le> length ?body" unfolding aead_sizes_def by blast
  then have "length payload \<le> length (replicate (length ?body) (0 :: u8))" by (simp only: length_replicate)
  from transport_opens [OF assms(1) cipher enc assms(6,7,8) this] obtain w'
    where "transport_decrypt (x_aead X) tb ?ctr ?hb ?body (replicate (length ?body) 0) =
      Some (Inr (length payload), tb\<lparr>replay := w'\<rparr>, payload @ drop (length payload) (replicate (length ?body) 0))" .
  with assms(4) have "\<exists>b'. recv_datagram X clk b (?hb @ ?body) from = Some (b', [Inbox w payload])"
    by (simp add: recv_message handle_message_def decrypt_from_def)
  with out show ?thesis by blast
qed

text \<open>The initiator's side once the reply arrives.\<close>

lemma handle_stage2_completes:
  assumes "peers_by_index a i = Some (Handshaking hs)"
    and "finish_initiator (x_noise X) (x_pb X) hs body = Inr (d, keys)"
    and "accept_cert X clk (a\<lparr>peers_by_index := (peers_by_index a)(i := None)\<rparr>) (hd_cert d) (remote_static keys) = Some (c, v)"
    and "connected a v = Some tx"
  obtains a' where "handle_stage2 X clk a i body from = (a', [WakeConnect tx])"
    and "index_by_vpn_addr a' v = Some i"
    and "peers_by_index a' i = Some (Established (transport_new (in_cipher a) (send_key keys) (recv_key keys))
      from v c (responder_index d))"
  using assms by (simp add: handle_stage2_def Let_def)

lemma fresh_transport:
  "recv_cipher (transport_new c sk rk) = cipher_impl_new c rk"
  "send_cipher (transport_new c sk rk) = cipher_impl_new c sk"
  "send_counter (transport_new c sk rk) = 2"
  "window_rel (replay (transport_new c sk rk)) (0, {})"
  by (simp_all add: transport_new_def window_rel_new)

lemma tunnel_opens:
  assumes laws: "noise_laws (x_noise X) public" "pb_laws (x_pb X)"
    and cph: "in_cipher a = in_cipher b"
    and ends: "endpoint_ok X public a va b (now_unix clk_b)" "endpoint_ok X public b vb a (now_unix clk_a')"
    and start: "connect_start X clk_a a vb addr_b = Some (Inr (), a1, dropped @ [SendTo addr_b pkt1])"
    and reply: "recv_datagram X clk_b b pkt1 addr_a = Some (b1, [SendTo addr_a pkt2])"
  obtains i j ka kb a2 where
    "recv_datagram X clk_a' a1 pkt2 addr_b = Some (a2, [WakeConnect (channels a)])"
    and "index_by_vpn_addr a2 vb = Some i"
    and "peers_by_index a2 i = Some (Established (transport_new (in_cipher a) ka kb) addr_b vb (host_cert b) j)"
    and "index_by_vpn_addr b1 va = Some j"
    and "peers_by_index b1 j = Some (Established (transport_new (in_cipher a) kb ka) addr_a va (host_cert a) i)"
proof -
  obtain i hs m1 where i: "i \<noteq> 0" and pkt1: "pkt1 = header_encode (handshake_header 0 1) @ m1"
    and s0: "stage0 (x_noise X) (x_pb X) (unix_nanos_now clk_a) (in_cipher a) (host_private_key a)
      (encode_for_handshake (host_cert a)) i = Inr (hs, m1)"
    and a1: "a1 = a\<lparr>connected := (connected a)(vb \<mapsto> channels a), channels := Suc (channels a), peers_by_index := (peers_by_index a)(i \<mapsto> Handshaking hs)\<rparr>"
    by (rule connect_start_sent [OF start])
  from reply have "handle_stage0 X clk_b b m1 addr_a = Some (b1, [SendTo addr_a pkt2])"
    by (simp add: pkt1 recv_handshake)
  then obtain j d m2 keys_b c v where j: "j \<noteq> 0"
    and resp: "respond (x_noise X) (x_pb X) (unix_nanos_now clk_b) (in_cipher a) (host_private_key b)
      (encode_for_handshake (host_cert b)) j m1 = Inr (d, m2, keys_b)"
    and acc: "accept_cert X clk_b b (hd_cert d) (remote_static keys_b) = Some (c, v)"
    and pkt2: "pkt2 = header_encode (handshake_header (initiator_index d) 2) @ m2"
    and b1: "b1 = b\<lparr>peers_by_index := (peers_by_index b)(j \<mapsto> Established
        (transport_new (in_cipher a) (send_key keys_b) (recv_key keys_b)) addr_a v c (initiator_index d)),
      index_by_vpn_addr := (index_by_vpn_addr b)(v \<mapsto> j)\<rparr>"
    unfolding cph by (rule handle_stage0_sent)
  from handshake_ends_agree [OF laws s0 resp j] obtain d' keys_a where
    d: "hd_cert d = encode_for_handshake (host_cert a)" "initiator_index d = i"
    "remote_static keys_b = public (host_private_key a)"
    and fin: "finish_initiator (x_noise X) (x_pb X) hs m2 = Inr (d', keys_a)"
    and d': "hd_cert d' = encode_for_handshake (host_cert b)" "responder_index d' = j"
    "remote_static keys_a = public (host_private_key b)" and mir: "mirrored keys_a keys_b" by blast
  from acc endpoint_accepted [OF ends(1) refl] have cv: "c = host_cert a" "v = va" by (simp_all add: d)
  let ?a1 = "a1\<lparr>peers_by_index := (peers_by_index a1)(i := None)\<rparr>"
  have acc': "accept_cert X clk_a' ?a1 (hd_cert d') (remote_static keys_a) = Some (host_cert b, vb)"
    unfolding d' by (rule endpoint_accepted [OF ends(2)]) (simp add: a1)
  have hs: "peers_by_index a1 i = Some (Handshaking hs)" and tx: "connected a1 vb = Some (channels a)"
    by (simp_all add: a1)
  obtain a2 where a2: "handle_stage2 X clk_a' a1 i m2 addr_b = (a2, [WakeConnect (channels a)])"
    "index_by_vpn_addr a2 vb = Some i"
    "peers_by_index a2 i = Some (Established (transport_new (in_cipher a1) (send_key keys_a) (recv_key keys_a))
      addr_b vb (host_cert b) (responder_index d'))"
    by (rule handle_stage2_completes [OF hs fin acc' tx])
  show thesis
    by (rule that [of a2 i "send_key keys_a" "recv_key keys_a" j])
      (use a2 i mir in \<open>simp_all add: pkt2 d d' cv b1 a1 recv_handshake mirrored_def\<close>)
qed

lemmas tunnel_opens_once = tunnel_opens [where dropped = "[]", unfolded append_Nil]

lemma send_typed_succeeds:
  assumes "aead_sizes (x_aead X)" and "\<forall>ci ctr aad. \<exists>c. cipher_encrypt (x_aead X) ci ctr aad payload = Inr c"
    and "index_by_vpn_addr a v = Some i" and "peers_by_index a i = Some (Established t rm v' c ri)"
  obtains a' out where "send_typed X a v ty payload = Some (Inr (), a', out)"
proof -
  obtain ctr t' where nc: "next_counter t = (ctr, t')" by fastforce
  let ?hb = "header_encode (data_header ty ri ctr)"
  from assms(2) obtain ct where "cipher_encrypt (x_aead X) (send_cipher t') ctr ?hb payload = Inr ct" by blast
  moreover from this assms(1) have "length ct \<le> length payload + 32" unfolding aead_sizes_def by blast
  ultimately have "\<exists>out. transport_encrypt (x_aead X) t' ctr ?hb payload (replicate (length payload + 32) 0) = Some (Inr (length ct), out)"
    by (simp add: transport_encrypt_def copy_prefix_def)
  with that show thesis unfolding send_typed_established [OF assms(3,4) nc] by auto
qed

lemmas send_succeeds = send_typed_succeeds [where ty = MESSAGE, folded send_def]

text \<open>Only the index search and the decryption can leave a packet without a result.\<close>

lemma handlers_None:
  "handle_message X s hdr hb body = None \<longleftrightarrow> decrypt_from X s hdr hb body = None"
  "handle_lighthouse_packet X s hdr hb body = None \<longleftrightarrow> decrypt_from X s hdr hb body = None"
  by (cases "decrypt_from X s hdr hb body"; auto simp: handle_message_def handle_lighthouse_packet_def)+

lemma recv_datagram_None:
  "recv_datagram X clk s buf from = None \<Longrightarrow>
   (\<exists>body. handle_stage0 X clk s body from = None) \<or> (\<exists>hdr hb body. decrypt_from X s hdr hb body = None)"
  unfolding recv_datagram_def handle_handshake_def Let_def
  by (auto simp: handlers_None simp del: not_None_eq split: sum.splits if_splits)

section \<open>A concrete world\<close>

text \<open>Two hosts under one CA, over the instances of the external interfaces; the checks of Ed25519
  always succeed there.\<close>

definition world :: "plain_state externs" where
  "world = \<lparr>x_aead = checksum_aead,
     x_crypto = \<lparr>ed_key_valid = (\<lambda>k. True), ed_verify = (\<lambda>k m sig. True), sha256 = (\<lambda>m. []), hex_encode = (\<lambda>b. [])\<rparr>,
     x_noise = plain_noise,
     x_pb = simple_pb\<lparr>decode_meta := (\<lambda>b. Inr (host_update_notification (V4 7) [SockV4 8 9]))\<rparr>,
     x_pem = \<lparr>pem_parse = (\<lambda>b. Inr (if length b = 32 then X25519_PRIVATE_KEY_BANNER else CERTIFICATE_V2_BANNER, b)), pem_print = (\<lambda>t b. []), debug_str = id\<rparr>\<rparr>"

definition world_details :: "u32 \<Rightarrow> details" where
  "world_details ip = \<lparr>d_name = ''h'', d_networks = [\<lparr>nw_addr = V4 ip, nw_prefix_len = 16\<rparr>],
     d_unsafe_networks = [], d_groups = [], d_is_ca = False, d_not_before = 0, d_not_after = 100, d_issuer = []\<rparr>"

definition world_ca :: certificate where
  "world_ca = \<lparr>cert_details = (world_details 0)\<lparr>d_is_ca := True\<rparr>,
     raw_details = encode_details ((world_details 0)\<lparr>d_is_ca := True\<rparr>),
     cert_curve = Curve25519, public_key = replicate 32 0, signature = []\<rparr>"

definition world_cert :: "u32 \<Rightarrow> bytes \<Rightarrow> certificate" where
  "world_cert ip key = \<lparr>cert_details = world_details ip, raw_details = encode_details (world_details ip),
     cert_curve = Curve25519, public_key = plain_public key, signature = replicate 64 0\<rparr>"

definition world_node :: "u32 \<Rightarrow> bytes \<Rightarrow> ipaddr list \<Rightarrow> (ipaddr \<times> socketaddr) list \<Rightarrow> plain_state inner" where
  "world_node ip key lhs hosts = \<lparr>ca_cert = world_ca, host_cert = world_cert ip key, host_private_key = key,
     in_cipher = AesGcm, own_vpn_addr = V4 ip, lighthouses = lhs, known_addrs = map_of (rev hosts),
     peers_by_index = Map.empty, index_by_vpn_addr = Map.empty, connected = Map.empty, lighthouse_waiters = Map.empty,
     channels = 0\<rparr>"

definition world_inner :: "u32 \<Rightarrow> bytes \<Rightarrow> plain_state inner" where
  "world_inner ip key = world_node ip key [] []"

definition world_clock :: clock where
  "world_clock = \<lparr>subsec_nanos = [5], now_unix = 50, unix_nanos_now = 1\<rparr>"

lemma world_laws: "noise_laws (x_noise world) plain_public" "pb_laws (x_pb world)" "aead_laws (x_aead world)"
  using plain_noise_laws simple_pb_laws checksum_aead_laws by (simp_all add: world_def pb_laws_def)

lemma world_accepts:
  "noise_accepts (x_noise world) c ki kr n"
  "length (encode_for_handshake (host_cert s)) \<le> 128 \<Longrightarrow> hello_fits world s 286"
  using plain_noise_accepts by (simp_all add: world_def hello_fits_def hello_def length_simple_hello [unfolded hello_def])

lemma world_sizes: "aead_sizes (x_aead world)"
  by (auto simp: aead_sizes_def world_def checksum_aead_def cipher_encrypt_def cipher_decrypt_def
      checksum_seal_def checksum_open_def split: cipher_impl.splits if_splits)

lemma world_seals: "\<forall>ci ctr aad. \<exists>c. cipher_encrypt (x_aead world) ci ctr aad payload = Inr c"
  by (auto simp: world_def checksum_aead_def cipher_encrypt_def checksum_seal_def split: cipher_impl.split)

lemma world_details_encode:
  "encode_details (world_details 1) = [0xA0, 18, 0x80, 1, 104, 0xA1, 7, 4, 5, 0, 0, 0, 1, 16, 0x85, 1, 0, 0x86, 1, 100]"
  "encode_details (world_details 2) = [0xA0, 18, 0x80, 1, 104, 0xA1, 7, 4, 5, 0, 0, 0, 2, 16, 0x85, 1, 0, 0x86, 1, 100]"
  by code_simp+

lemma world_details_wf: "details_wf (world_details ip)"
  by (simp add: details_wf_def world_details_def as_bytes_def)

lemma world_certs_ok:
  "length (encode_details d) < usize_bound \<Longrightarrow> details_wf d \<Longrightarrow>
   cert_ok \<lparr>cert_details = d, raw_details = encode_details d, cert_curve = cv, public_key = pk, signature = sig\<rparr>"
  using decode_encode_details [of d] encode_details_whole [of d] unfolding cert_ok_def by simp

lemma world_cert_length:
  "length (encode_details (world_details ip)) = 20 \<Longrightarrow> length (encode_for_handshake (world_cert ip key)) \<le> 128"
  by (simp add: encode_for_handshake_def world_cert_def write_tlv_def write_length_def)

lemma world_fits: "hello_fits world (world_node 1 key lhs hosts) 286" "hello_fits world (world_node 2 key lhs hosts) 286"
  by (rule world_accepts(2); simp add: world_node_def world_cert_length world_details_encode)+

lemma world_endpoint:
  assumes "length (encode_details (world_details ip)) = 20"
  shows "endpoint_ok world plain_public (world_inner ip key) (V4 ip) (world_inner ip' key') 50"
proof -
  let ?d = "world_details ip" and ?c = "world_cert ip key"
  have len: "length (encode_details ?d) < usize_bound" using assms by simp
  have ok: "cert_ok ?c"
    unfolding world_cert_def by (rule world_certs_ok [OF len world_details_wf])
  have "length (encode_for_handshake ?c) < usize_bound" using world_cert_length [OF assms, of key] by simp
  moreover have "verify_host_cert (x_crypto world) ?c world_ca 50 = Inr ()"
    by (simp add: verify_ok_iff chain_ok_def valid_at_def world_cert_def world_ca_def world_details_def world_def)
  ultimately show ?thesis
    using ok by (simp add: endpoint_ok_def world_inner_def world_node_def) (simp add: world_cert_def world_details_def)
qed

text \<open>Node 1, however it is configured, and node 2 accept each other.\<close>

lemma world_pair:
  "in_cipher (world_node 1 key lhs hosts) = in_cipher (world_inner 2 [2])"
  "endpoint_ok world plain_public (world_node 1 key lhs hosts) (V4 1) (world_inner 2 [2]) (now_unix world_clock)"
  "endpoint_ok world plain_public (world_inner 2 [2]) (V4 2) (world_node 1 key lhs hosts) (now_unix world_clock)"
  using world_endpoint [of 1 key 2 "[2]"] world_endpoint [of 2 "[2]" 1 key]
  by (simp_all add: world_details_encode world_clock_def endpoint_ok_def world_inner_def world_node_def)

lemma world_found: "allocate_index (world_inner ip key) (subsec_nanos world_clock) \<noteq> None"
  by (simp add: world_inner_def world_node_def world_clock_def rand_index_def Let_def)

definition world_hello :: "u32 \<Rightarrow> u32 \<Rightarrow> bytes \<Rightarrow> u32 \<Rightarrow> u32 \<Rightarrow> bytes" where
  "world_hello ip ip' key i j = plain_public key @ simple_encode \<lparr>nh_details = Some
     \<lparr>hd_cert = encode_for_handshake (world_cert ip key), initiator_index = i, responder_index = j,
      cookie = 0, hd_time = 1, cert_version = 2\<rparr>, nh_hmac = []\<rparr>"

lemma world_index: "allocate_index (s\<lparr>peers_by_index := Map.empty\<rparr>) (subsec_nanos world_clock) = Some 0x9E3779BC"
  by (simp add: world_clock_def rand_index_def Let_def)

lemma world_connect:
  "connect_start world world_clock (world_node 1 k lhs hosts) (V4 2) rm =
     Some (Inr (), (world_node 1 k lhs hosts)\<lparr>connected := [V4 2 \<mapsto> 0], channels := 1,
       peers_by_index := [0x9E3779BC \<mapsto> Handshaking (True, k, None)]\<rparr>,
     [SendTo rm (header_encode (handshake_header 0 1) @ world_hello 1 2 k 0x9E3779BC 0)])"
  by (simp add: connect_start_def world_clock_def rand_index_def stage0_def Let_def world_def world_inner_def world_node_def
      plain_noise_def simple_pb_def world_hello_def)

lemma world_respond:
  "respond (x_noise world) (x_pb world) (unix_nanos_now world_clock) AesGcm [2]
     (encode_for_handshake (world_cert 2 [2])) j (world_hello 1 2 k 0x9E3779BC 0) =
   Inr (\<lparr>hd_cert = encode_for_handshake (world_cert 1 k), initiator_index = 0x9E3779BC, responder_index = 0,
       cookie = 0, hd_time = 1, cert_version = 2\<rparr>, world_hello 2 1 [2] 0x9E3779BC j,
     \<lparr>remote_static = plain_public k, send_key = plain_public [2] @ plain_public k,
      recv_key = plain_public k @ plain_public [2]\<rparr>)"
  using simple_pb_laws
  by (simp add: respond_def world_def world_clock_def plain_noise_def pb_laws_def simple_pb_def split_keys_of_def
      Let_def world_hello_def)

definition world_replied :: "bytes \<Rightarrow> socketaddr \<Rightarrow> plain_state inner" where
  "world_replied k from = (world_inner 2 [2])\<lparr>peers_by_index := [0x9E3779BC \<mapsto> Established
      (transport_new AesGcm (plain_public [2] @ plain_public k) (plain_public k @ plain_public [2]))
      from (V4 1) (world_cert 1 k) 0x9E3779BC],
     index_by_vpn_addr := [V4 1 \<mapsto> 0x9E3779BC]\<rparr>"

lemma world_reply:
  "recv_datagram world world_clock (world_inner 2 [2])
     (header_encode (handshake_header 0 1) @ world_hello 1 2 k 0x9E3779BC 0) from =
   Some (world_replied k from,
     [SendTo from (header_encode (handshake_header 0x9E3779BC 2) @ world_hello 2 1 [2] 0x9E3779BC 0x9E3779BC)])"
proof -
  have len: "length (encode_details (world_details 1)) = 20" by (simp add: world_details_encode)
  have acc: "accept_cert world world_clock (world_inner 2 [2]) (encode_for_handshake (world_cert 1 k)) (plain_public k)
      = Some (world_cert 1 k, V4 1)"
    using endpoint_accepted [of world plain_public "world_inner 1 k" "V4 1" "world_inner 2 [2]" world_clock]
      world_endpoint [OF len] by (simp add: world_inner_def world_node_def world_clock_def)
  have idx: "allocate_index (world_inner 2 [2]) (subsec_nanos world_clock) = Some 0x9E3779BC"
    by (simp add: world_clock_def rand_index_def Let_def world_inner_def world_node_def)
  have cfg: "in_cipher (world_inner 2 [2]) = AesGcm" "host_private_key (world_inner 2 [2]) = [2]"
    "host_cert (world_inner 2 [2]) = world_cert 2 [2]" by (simp_all add: world_inner_def world_node_def)
  show ?thesis
    by (simp add: recv_handshake handle_stage0_def idx cfg world_respond acc world_replied_def Let_def)
      (simp add: world_inner_def world_node_def)
qed

section \<open>Properties\<close>

text \<open>C3: Two sessions open a tunnel and talk through it. Let both use the same cipher, the certificate
  of each belong to its key and verify at the other, the Noise library accept both keys and have
  room for both handshake messages, and \<open>allocate_index\<close> find an index on either side. Then \<open>connect\<close>
  sends a first message, the responder answers it, the initiator completes on the answer and wakes
  its waiting \<open>connect\<close>; and data that the AEAD can seal, sent at either end, is delivered unchanged at
  the other under the sender's certified vpn address.\<close>

theorem tunnel_end_to_end:
  assumes "noise_laws (x_noise X) public" and "pb_laws (x_pb X)" and "aead_laws (x_aead X)"
    and "aead_sizes (x_aead X)" and "\<forall>ci ctr aad. \<exists>c. cipher_encrypt (x_aead X) ci ctr aad payload = Inr c"
    and "in_cipher a = in_cipher b"
    and "noise_accepts (x_noise X) (in_cipher a) (host_private_key a) (host_private_key b) n"
    and "hello_fits X a n" and "hello_fits X b n"
    and "endpoint_ok X public a va b (now_unix clk_b)" and "endpoint_ok X public b vb a (now_unix clk_a')"
    and "allocate_index a (subsec_nanos clk_a) \<noteq> None" and "allocate_index b (subsec_nanos clk_b) \<noteq> None"
  shows "\<exists>a1 dropped pkt1 b1 pkt2 a2.
    connect_start X clk_a a vb addr_b = Some (Inr (), a1, dropped @ [SendTo addr_b pkt1]) \<and>
    recv_datagram X clk_b b pkt1 addr_a = Some (b1, [SendTo addr_a pkt2]) \<and>
    recv_datagram X clk_a' a1 pkt2 addr_b = Some (a2, [WakeConnect (channels a)]) \<and>
    (\<exists>a3 b2 pkt. send X a2 vb payload = Some (Inr (), a3, [SendTo addr_b pkt]) \<and>
       recv_datagram X clk b1 pkt addr_a = Some (b2, [Inbox va payload])) \<and>
    (\<exists>b2 a3 pkt. send X b1 va payload = Some (Inr (), b2, [SendTo addr_a pkt]) \<and>
       recv_datagram X clk a2 pkt addr_b = Some (a3, [Inbox vb payload]))"
proof -
  obtain a1 pkt1 b1 pkt2 where
    start: "connect_start X clk_a a vb addr_b = Some (Inr (), a1, snd (connect_begin a vb) @ [SendTo addr_b pkt1])"
    and reply: "recv_datagram X clk_b b pkt1 addr_a = Some (b1, [SendTo addr_a pkt2])"
    by (rule handshake_answered [OF assms(1,2,6-10,12,13)])
  obtain i j ka kb a2 where a2: "recv_datagram X clk_a' a1 pkt2 addr_b = Some (a2, [WakeConnect (channels a)])"
    and ia: "index_by_vpn_addr a2 vb = Some i"
    and pa: "peers_by_index a2 i = Some (Established (transport_new (in_cipher a) ka kb) addr_b vb (host_cert b) j)"
    and ib: "index_by_vpn_addr b1 va = Some j"
    and pb: "peers_by_index b1 j = Some (Established (transport_new (in_cipher a) kb ka) addr_a va (host_cert a) i)"
    by (rule tunnel_opens [OF assms(1,2,6,10,11) start reply])
  have ctr: "unat (send_counter (transport_new (in_cipher a) k k') + 1) = 3" for k k'
    by (simp add: fresh_transport)
  obtain a3 out where sa: "send X a2 vb payload = Some (Inr (), a3, out)"
    by (rule send_succeeds [OF assms(4,5) ia pa])
  obtain b3 out' where sb: "send X b1 va payload = Some (Inr (), b3, out')"
    by (rule send_succeeds [OF assms(4,5) ib pb])
  from data_delivered [OF assms(3) ia pa pb _ fresh_transport(4) _ _ sa assms(4), of clk addr_a]
    data_delivered [OF assms(3) ib pb pa _ fresh_transport(4) _ _ sb assms(4), of clk addr_b]
  have "(\<exists>a3 b2 pkt. send X a2 vb payload = Some (Inr (), a3, [SendTo addr_b pkt]) \<and>
       recv_datagram X clk b1 pkt addr_a = Some (b2, [Inbox va payload])) \<and>
    (\<exists>b2 a3 pkt. send X b1 va payload = Some (Inr (), b2, [SendTo addr_a pkt]) \<and>
       recv_datagram X clk a2 pkt addr_b = Some (a3, [Inbox vb payload]))"
    using sa sb by (auto simp: fresh_transport ctr)
  with start reply a2 show ?thesis by blast
qed

theorem tunnel_end_to_end_witness:
  "\<exists>a1 dropped pkt1 b1 pkt2 a2 a3 b2 pkt.
     connect_start world world_clock (world_inner 1 [1]) (V4 2) (SockV4 22 22) =
       Some (Inr (), a1, dropped @ [SendTo (SockV4 22 22) pkt1]) \<and>
     recv_datagram world world_clock (world_inner 2 [2]) pkt1 (SockV4 11 11) = Some (b1, [SendTo (SockV4 11 11) pkt2]) \<and>
     recv_datagram world world_clock a1 pkt2 (SockV4 22 22) = Some (a2, [WakeConnect 0]) \<and>
     send world a2 (V4 2) [104, 105] = Some (Inr (), a3, [SendTo (SockV4 22 22) pkt]) \<and>
     recv_datagram world world_clock b1 pkt (SockV4 11 11) = Some (b2, [Inbox (V4 1) [104, 105]])"
proof -
  have ch: "channels (world_inner 1 [1]) = 0" by (simp add: world_inner_def world_node_def)
  note pair = world_pair [of "[1]" "[]" "[]", folded world_inner_def]
  from tunnel_end_to_end [OF world_laws world_sizes world_seals [of "[104, 105]"] pair(1) world_accepts(1) world_fits(1) [of "[1]" "[]" "[]", folded world_inner_def]
    world_fits(2) [of "[2]" "[]" "[]", folded world_inner_def] pair(2,3) world_found world_found, where addr_b = "SockV4 22 22" and addr_a = "SockV4 11 11" and clk = world_clock, unfolded ch]
  show ?thesis by blast
qed

text \<open>C10: In every reachable state of a session, under any interleaving of received packets,
  sends, resolutions and connects, each established peer holds a certificate that was verified
  against the session's CA and whose first network is the peer's vpn address, and the address
  table points only at established peers of that address. So \<open>peer_info\<close> reports verified
  identities only, and answers for every address in the table.\<close>

theorem session_peers_verified:
  assumes "session_init s0" and "(\<lambda>s s'. \<exists>out. session_step X s out s')\<^sup>*\<^sup>* s0 s"
  shows "(\<forall>i t r v c ri. peers_by_index s i = Some (Established t r v c ri) \<longrightarrow>
      (\<exists>now. verify_host_cert (x_crypto X) c (ca_cert s0) now = Inr ()) \<and>
      map nw_addr (take 1 (d_networks (cert_details c))) = [v] \<and> ri \<noteq> 0) \<and>
    (\<forall>v i. index_by_vpn_addr s v = Some i \<longrightarrow>
      (\<exists>t r c ri. peers_by_index s i = Some (Established t r v c ri) \<and> peer_info_of s v = Some (cert_info c)))"
proof -
  from session.reachable_inv [OF _ assms(2), of "ca_cert s0"] assms(1)
  have inv: "session_inv X (ca_cert s0) s" by simp
  have "\<exists>t r c ri. peers_by_index s i = Some (Established t r v c ri) \<and> peer_info_of s v = Some (cert_info c)"
    if "index_by_vpn_addr s v = Some i" for v i
    by (rule peer_isE [OF session_invD(3) [OF inv that]]) (simp add: peer_info_of_def that)
  with session_invD(2) [OF inv] show ?thesis by (fastforce simp: peer_ok_def)
qed

lemma world_replied_reachable:
  "(\<lambda>s s'. \<exists>out. session_step world s out s')\<^sup>*\<^sup>* (world_inner 2 [2]) (world_replied [1] from)"
  using recv_step [OF world_reply] by blast

lemma world_init: "session_init (world_inner ip key)"
  by (simp add: session_init_def world_inner_def world_node_def)

lemma world_replied_peer:
  "peers_by_index (world_replied [1] from) 0x9E3779BC = Some (Established
     (transport_new AesGcm (plain_public [2] @ plain_public [1]) (plain_public [1] @ plain_public [2]))
     from (V4 1) (world_cert 1 [1]) 0x9E3779BC)"
  by (simp add: world_replied_def)

theorem session_peers_verified_witness:
  "\<exists>now. verify_host_cert (x_crypto world) (world_cert 1 [1]) (ca_cert (world_inner 2 [2])) now = Inr ()"
  using session_peers_verified [OF world_init world_replied_reachable, THEN conjunct1, rule_format,
      OF world_replied_peer [of "SockV4 11 11"]] by blast

text \<open>C9: Data reaches the inbox only under the vpn address of an established peer with a verified
  certificate, out of a message packet whose body that peer's receiving cipher authenticates
  together with the header bytes as received, under a counter its replay window had not seen.\<close>

theorem inbox_authentic:
  assumes "session_init s0" and "(\<lambda>s s'. \<exists>out. session_step X s out s')\<^sup>*\<^sup>* s0 s"
    and "recv_datagram X clk s buf from = Some (s', out)" and "Inbox v m \<in> set out"
  shows "\<exists>hdr t r c ri. header_parse buf = Inr hdr \<and> msg_type hdr = MESSAGE \<and>
    peers_by_index s (remote_index hdr) = Some (Established t r v c ri) \<and>
    (\<exists>now. verify_host_cert (x_crypto X) c (ca_cert s0) now = Inr ()) \<and>
    cipher_decrypt (x_aead X) (recv_cipher t) (message_counter hdr) (take LEN buf) (drop LEN buf) = Inr m \<and>
    map_option fst (check_and_update (replay t) (message_counter hdr)) = Some True"
proof -
  from session.reachable_inv [OF _ assms(2), of "ca_cert s0"] assms(1)
  have inv: "session_inv X (ca_cert s0) s" by simp
  obtain hdr where hdr: "header_parse buf = Inr hdr" "msg_type hdr = MESSAGE"
    and dec: "decrypt_from X s hdr (take LEN buf) (drop LEN buf) = Some (s', Some (v, m))"
    by (rule inbox_origin [OF assms(3,4)])
  from dec obtain t r c ri len t' out' where p: "peers_by_index s (remote_index hdr) = Some (Established t r v c ri)"
    and td: "transport_decrypt (x_aead X) t (message_counter hdr) (take LEN buf) (drop LEN buf)
      (replicate (length (drop LEN buf)) 0) = Some (Inr len, t', out')" and m: "m = take len out'"
    by (cases rule: decrypt_from_cases) (auto split: sum.splits)
  from session_invD(2) [OF inv p] hdr p transport_decrypt_ok [OF td] m show ?thesis
    by (auto simp: peer_ok_def)
qed

lemma world_delivered:
  obtains pkt b' where "recv_datagram world world_clock (world_replied [1] (SockV4 11 11)) pkt (SockV4 11 11) =
    Some (b', [Inbox (V4 1) m])"
proof -
  let ?k1 = "plain_public [1] @ plain_public [2]" and ?k2 = "plain_public [2] @ plain_public [1]"
  let ?a = "(world_inner 1 [1])\<lparr>peers_by_index := [9 \<mapsto> Established (transport_new AesGcm ?k1 ?k2)
    (SockV4 22 22) (V4 2) (world_cert 2 [2]) 0x9E3779BC], index_by_vpn_addr := [V4 2 \<mapsto> 9]\<rparr>"
  have i: "index_by_vpn_addr ?a (V4 2) = Some 9"
    and p: "peers_by_index ?a 9 = Some (Established (transport_new AesGcm ?k1 ?k2)
      (SockV4 22 22) (V4 2) (world_cert 2 [2]) 0x9E3779BC)" by simp_all
  note q = world_replied_peer [of "SockV4 11 11"]
  obtain a' out where "send world ?a (V4 2) m = Some (Inr (), a', out)"
    by (rule send_succeeds [OF world_sizes world_seals i p])
  from data_delivered [OF world_laws(3) i p q _ fresh_transport(4) _ _ this world_sizes, of world_clock "SockV4 11 11"]
  show thesis using that by (auto simp: fresh_transport)
qed

theorem inbox_authentic_witness:
  "\<exists>pkt hdr. header_parse pkt = Inr hdr \<and> msg_type hdr = MESSAGE \<and>
     cipher_decrypt (x_aead world) (AesGcmImpl (plain_public [1] @ plain_public [2])) (message_counter hdr)
       (take LEN pkt) (drop LEN pkt) = Inr [104, 105]"
proof -
  obtain pkt b' where pkt: "recv_datagram world world_clock (world_replied [1] (SockV4 11 11)) pkt (SockV4 11 11) =
    Some (b', [Inbox (V4 1) [104, 105]])" by (rule world_delivered)
  from inbox_authentic [OF world_init world_replied_reachable pkt, of "V4 1" "[104, 105]"] show ?thesis
    by (auto simp: world_replied_def transport_new_def world_inner_def world_node_def split: if_splits)
qed

text \<open>C21: With a cipher of the documented sizes, and the clock read without panic, no handler panics: a
  received packet is left unanswered only while the search for a fresh index goes on, and sending
  always returns.\<close>

theorem handlers_never_panic:
  assumes "session_init s0" and "(\<lambda>s s'. \<exists>out. session_step X s out s')\<^sup>*\<^sup>* s0 s"
    and "aead_sizes (x_aead X)"
  shows "(recv_datagram X clk s buf from = None \<longrightarrow> allocate_index s (subsec_nanos clk) = None) \<and>
    send_typed X s v ty payload \<noteq> None"
proof -
  from session.reachable_inv [OF _ assms(2), of "ca_cert s0"] assms(1)
  have inv: "session_inv X (ca_cert s0) s" by simp
  from send_typed_total [OF assms(3)] have "send_typed X s v ty payload \<noteq> None" .
  moreover have "allocate_index s (subsec_nanos clk) = None" if "recv_datagram X clk s buf from = None"
  proof (rule ccontr)
    assume "allocate_index s (subsec_nanos clk) \<noteq> None"
    then have "handle_stage0 X clk s body from \<noteq> None" for body
      by (auto simp: handle_stage0_def Let_def split: sum.split option.split)
    with recv_datagram_None [OF that] decrypt_from_total [OF inv assms(3)] show False by blast
  qed
  ultimately show ?thesis by blast
qed

theorem handlers_never_panic_witness:
  "recv_datagram world (world_clock\<lparr>subsec_nanos := [5, 6]\<rparr>) (world_replied [1] (SockV4 11 11)) (replicate 40 17)
     (SockV4 11 11) \<noteq> None \<and>
   send_typed world (world_replied [1] (SockV4 11 11)) (V4 1) MESSAGE [104] \<noteq> None"
proof -
  have "allocate_index (world_replied [1] (SockV4 11 11)) [5, 6] \<noteq> None"
    by (simp add: world_replied_def rand_index_def Let_def)
  moreover have "subsec_nanos (world_clock\<lparr>subsec_nanos := [5, 6]\<rparr>) = [5, 6]" by simp
  ultimately show ?thesis
    using handlers_never_panic [OF world_init world_replied_reachable world_sizes,
      of "world_clock\<lparr>subsec_nanos := [5, 6]\<rparr>"] by metis
qed

lemma subsec_nanos_below:
  assumes "those (map subsec_nanos_at ts) = Some ns" and "n \<in> set ns"
  shows "unat n < 1000000000"
proof -
  have "unat n < 1000000000" if "subsec_nanos_at t = Some n" for t n
  proof -
    from that have "n = word_of_int (t mod 1000000000)" and "0 \<le> t"
      by (auto simp: subsec_nanos_at_def since_epoch_def split: if_splits)
    moreover have "t mod 1000000000 < 2 ^ LENGTH(32)" by (rule order.strict_trans [of _ 1000000000]) simp_all
    ultimately have "uint n = t mod 1000000000" by (simp add: uint_word_of_int)
    then show ?thesis by (simp add: unat_eq_nat_uint nat_less_iff)
  qed
  with assms show ?thesis by (induction ts arbitrary: ns) (auto split: option.splits)
qed

text \<open>C22: The search for a fresh index ends: as soon as the sub-second parts of its clock readings,
  none of them before 1970, have taken more different values than there are tunnels,
  \<open>allocate_index\<close> has found a nonzero index that no tunnel uses. Readings may repeat, in any order.\<close>

theorem allocate_index_terminates:
  assumes "finite (dom (peers_by_index s))" and "those (map subsec_nanos_at ts) = Some ns"
    and "card (dom (peers_by_index s)) < card (set ns)"
  shows "\<exists>i. allocate_index s ns = Some i \<and> i \<noteq> 0 \<and> peers_by_index s i = None"
proof (cases "allocate_index s ns")
  case None
  have "rand_index ` set ns \<subseteq> dom (peers_by_index s)"
    using allocate_index_None [OF None] rand_index_nonzero subsec_nanos_below [OF assms(2)] by auto
  then have "card (rand_index ` set ns) \<le> card (dom (peers_by_index s))"
    by (rule card_mono [OF assms(1)])
  moreover have "card (rand_index ` set ns) = card (set ns)"
    by (rule card_image [OF inj_on_subset [OF rand_index_inj]]) simp
  ultimately show ?thesis using assms(3) by simp
next
  case (Some i)
  with allocate_index_fresh [OF Some] show ?thesis by simp
qed

theorem allocate_index_terminates_witness:
  "\<exists>i. allocate_index (world_replied [1] (SockV4 11 11)) [5, 5, 5, 6] = Some i \<and> i \<noteq> 0 \<and>
     peers_by_index (world_replied [1] (SockV4 11 11)) i = None"
  by (rule allocate_index_terminates [where ts = "[5, 5, 5000000005, 6]"])
    (simp_all add: world_replied_def subsec_nanos_at_def since_epoch_def)

text \<open>C37: A pending handshake is removed before its reply is checked: one unauthenticated packet
  carrying its index, whose body is not a valid Noise message, discards it, and the genuine reply
  that arrives afterwards is ignored without waking the waiting \<open>connect\<close>.\<close>

theorem forged_reply_aborts_handshake:
  assumes "peers_by_index a i = Some (Handshaking hs)" and "i \<noteq> 0"
    and "noise_read (x_noise X) hs forged = Inl e"
  shows "\<exists>a'. recv_datagram X clk a (header_encode (handshake_header i 2) @ forged) from = Some (a', []) \<and>
    peers_by_index a' i = None \<and>
    recv_datagram X clk' a' (header_encode (handshake_header i 2) @ genuine) from' = Some (a', [])"
  using assms
  by (simp add: recv_handshake handle_stage2_def finish_initiator_def Let_def)

theorem forged_reply_aborts_handshake_witness:
  "\<exists>a'. recv_datagram world world_clock ((world_inner 1 [1])\<lparr>peers_by_index := [9 \<mapsto> Handshaking (True, [1], None)]\<rparr>)
      (header_encode (handshake_header 9 2) @ [6, 6, 6]) (SockV4 66 66) = Some (a', []) \<and> peers_by_index a' 9 = None \<and>
    recv_datagram world world_clock a' (header_encode (handshake_header 9 2) @ world_hello 2 1 [2] 9 7) (SockV4 22 22) =
      Some (a', [])"
  by (rule forged_reply_aborts_handshake [where hs = "(True, [1], None)" and e = "''short''"])
    (simp_all add: world_def plain_noise_def)

text \<open>C39: Lighthouse answers are accepted from every established peer, not from the configured
  lighthouses only: a peer outside \<open>lighthouses\<close> that sends a host update for another host
  replaces the address this session will use to reach that host.\<close>

theorem any_peer_redirects:
  assumes "peers_by_index s (remote_index hdr) = Some (Established t r v c ri)" and "v \<notin> set (lighthouses s)"
    and "header_parse buf = Inr hdr" and "msg_type hdr = LIGHTHOUSE"
    and "transport_decrypt (x_aead X) t (message_counter hdr) (take LEN buf) (drop LEN buf)
      (replicate (length (drop LEN buf)) 0) = Some (Inr len, t', out)"
    and "decode_meta (x_pb X) (take len out) = Inr (host_update_notification victim [SockV4 ip port])"
  shows "\<exists>s' effs. recv_datagram X clk s buf from = Some (s', effs) \<and>
    known_addrs s' (canonical_ip victim) = Some (SockV4 ip port)"
proof -
  let ?meta = "host_update_notification victim [SockV4 ip port]"
  have addrs: "candidate_addrs ?meta = [SockV4 ip port]" and ty: "meta_type ?meta = meta_type_num HostUpdateNotification"
    and vpn: "Option.bind (meta_details ?meta) (\<lambda>d. map_option addr_to_ip (vpn_addr d)) = Some (canonical_ip victim)"
    by (simp_all add: candidate_addrs_def host_update_notification_def meta_details_default_def addr_to_ip_to_addr)
  let ?s = "s\<lparr>peers_by_index := (peers_by_index s)(remote_index hdr \<mapsto> Established t' r v c ri)\<rparr>"
  have dec: "decrypt_from X s hdr (take LEN buf) (drop LEN buf) = Some (?s, Some (v, take len out))"
    using assms(1,5) by (simp add: decrypt_from_def)
  have "known_addrs (fst (handle_lighthouse X ?s (take len out))) (canonical_ip victim) = Some (SockV4 ip port)"
    unfolding handle_lighthouse_def assms(6) sum.case addrs vpn ty
    by (auto simp: Let_def split: option.split)
  moreover have "recv_datagram X clk s buf from = Some (handle_lighthouse X ?s (take len out))"
    unfolding recv_datagram_def assms(3) sum.case Let_def handle_lighthouse_packet_def dec
    using assms(4) by (simp add: header_consts)
  ultimately show ?thesis by (metis prod.collapse)
qed

definition world_update :: bytes where
  "world_update = [0x13, 0, 0, 0, 0x9E, 0x37, 0x79, 0xBC, 0, 0, 0, 0, 0, 0, 0, 3, 9, 47]"

theorem any_peer_redirects_witness:
  "\<exists>s' effs. recv_datagram world world_clock (world_replied [1] (SockV4 11 11)) world_update (SockV4 11 11) = Some (s', effs) \<and>
     known_addrs s' (canonical_ip (V4 7)) = Some (SockV4 8 9)"
proof -
  let ?t = "transport_new AesGcm (plain_public [2] @ plain_public [1]) (plain_public [1] @ plain_public [2])"
  let ?hdr = "\<lparr>version = 1, msg_type = 3, subtype = 0, remote_index = 0x9E3779BC, message_counter = 3\<rparr>"
  have hdr: "header_parse world_update = Inr \<lparr>version = 1, msg_type = 3, subtype = 0, remote_index = 0x9E3779BC, message_counter = 3\<rparr>"
    by code_simp
  have "cipher_decrypt checksum_aead (AesGcmImpl (plain_public [1] @ plain_public [2])) 3 (take LEN world_update) [9, 47] = Inr [9]"
    by code_simp
  moreover obtain w where "check_and_update replay_new 3 = Some (True, w)"
    using check_above [OF window_rel_new, of 3] by (auto simp: replay_new_def)
  ultimately have "\<exists>t' out. transport_decrypt (x_aead world) ?t 3 (take LEN world_update) (drop LEN world_update)
      (replicate (length (drop LEN world_update)) 0) = Some (Inr 1, t', out)"
    by (simp add: transport_decrypt_def transport_new_def world_def copy_prefix_def world_update_def LEN_def)
  then obtain t' out where td: "transport_decrypt (x_aead world) ?t (message_counter ?hdr) (take LEN world_update)
      (drop LEN world_update) (replicate (length (drop LEN world_update)) 0) = Some (Inr 1, t', out)" by auto
  have peer: "peers_by_index (world_replied [1] (SockV4 11 11)) (remote_index ?hdr) =
      Some (Established ?t (SockV4 11 11) (V4 1) (world_cert 1 [1]) 0x9E3779BC)"
    using world_replied_peer [of "SockV4 11 11"] by simp
  have "V4 1 \<notin> set (lighthouses (world_replied [1] (SockV4 11 11)))"
    by (simp add: world_replied_def world_inner_def world_node_def)
  moreover have "msg_type ?hdr = LIGHTHOUSE" by (simp add: header_consts)
  moreover have "decode_meta (x_pb world) (take 1 out) = Inr (host_update_notification (V4 7) [SockV4 8 9])"
    by (simp add: world_def)
  ultimately show ?thesis by (rule any_peer_redirects [OF peer _ hdr _ td])
qed

end
