(* ===== verification/Session_Run.thy ===== *)
theory Session_Run
  imports Tunnel
begin

text \<open>
  The asynchronous operations of \<open>nebula-protocol/src/session.rs\<close> in full: \<open>resolve\<close>,
  \<open>connect\<close> and \<open>register_with_lighthouses\<close> as runs in which any other task may take
  steps at every \<open>await\<close>. A wait ends because its channel was woken or its sender dropped
  during the run, or because the timer fired, which may happen at any time. What is sent is an
  effect of the critical section that made the packet; where the code looks at the result of
  \<open>send_to\<close>, a run can also go the way of its failure.
\<close>

section \<open>Runs of a session\<close>

inductive session_run :: "'hs externs \<Rightarrow> 'hs inner \<Rightarrow> effect list \<Rightarrow> 'hs inner \<Rightarrow> bool"
  for X :: "'hs externs" where
  run_nil: "session_run X s [] s"
| run_step: "session_run X s out s1 \<Longrightarrow> session_step X s1 out' s2 \<Longrightarrow> session_run X s (out @ out') s2"

lemma run_trans: "session_run X s1 out' s2 \<Longrightarrow> session_run X s out s1 \<Longrightarrow> session_run X s (out @ out') s2"
proof (induction rule: session_run.induct)
  case (run_step s1 o1 s2 o2 s3)
  from session_run.run_step [OF run_step.IH [OF run_step.prems] run_step.hyps(2)] show ?case by simp
qed simp

lemma run_single: "session_step X s out s' \<Longrightarrow> session_run X s out s'"
  using run_step [OF run_nil] by fastforce

lemma run_reaches: "session_run X s out s' \<Longrightarrow> (\<lambda>s s'. \<exists>out. session_step X s out s')\<^sup>*\<^sup>* s s'"
  by (induction rule: session_run.induct) (auto intro: rtranclp.rtrancl_into_rtrancl)

lemma run_inv: "session_run X s out s' \<Longrightarrow> session_inv X ca s \<Longrightarrow> session_inv X ca s'"
  by (induction rule: session_run.induct) (auto intro: session_step_inv)

text \<open>What a run puts into the inbox.\<close>

fun inbox_of :: "effect list \<Rightarrow> (ipaddr \<times> bytes) list" where
  "inbox_of [] = []"
| "inbox_of (Inbox v m # out) = (v, m) # inbox_of out"
| "inbox_of (_ # out) = inbox_of out"

section \<open>resolve, connect and register_with_lighthouses\<close>

text \<open>One query per lighthouse, its result ignored; other tasks may run before each.\<close>

inductive query_run :: "'hs externs \<Rightarrow> bytes \<Rightarrow> 'hs inner \<Rightarrow> ipaddr list \<Rightarrow> effect list \<Rightarrow> 'hs inner \<Rightarrow> bool"
  for X :: "'hs externs" and payload where
  query_nil: "query_run X payload s [] [] s"
| query_cons: "session_run X s o1 s1 \<Longrightarrow> send_typed X s1 lh LIGHTHOUSE payload = Some (r, s2, o2) \<Longrightarrow>
    query_run X payload s2 lhs o3 s3 \<Longrightarrow> query_run X payload s (lh # lhs) (o1 @ o2 @ o3) s3"

text \<open>How the wait on the channel of \<open>resolve\<close> may end: \<open>None\<close> stands for the timeout and
  for a dropped sender, which the code maps to the same error.\<close>

fun resolve_woken :: "channel \<Rightarrow> effect list \<Rightarrow> socketaddr list option \<Rightarrow> bool" where
  "resolve_woken tx out (Some addrs) \<longleftrightarrow> WakeResolve tx addrs \<in> set out"
| "resolve_woken tx out None \<longleftrightarrow> True"

inductive resolve_run :: "'hs externs \<Rightarrow> 'hs inner \<Rightarrow> ipaddr \<Rightarrow> effect list \<Rightarrow> 'hs inner \<Rightarrow> socketaddr result \<Rightarrow> bool"
  for X :: "'hs externs" where
  resolve_known: "known_addrs s vpn = Some a \<Longrightarrow> resolve_run X s vpn [] s (Inr a)"
| resolve_asked: "known_addrs s vpn = None \<Longrightarrow> session_run X s o1 s1 \<Longrightarrow> resolve_wait s1 vpn = (tx, s2, o2) \<Longrightarrow>
    query_run X (encode_meta (x_pb X) (host_query vpn)) s2 (lighthouses s2) o3 s3 \<Longrightarrow>
    session_run X s3 o4 s4 \<Longrightarrow> resolve_woken tx (o3 @ o4) woken \<Longrightarrow>
    resolve_run X s vpn (o1 @ o2 @ o3 @ o4) s4 (resolve_finish vpn woken)"

fun connect_woken :: "channel \<Rightarrow> effect list \<Rightarrow> wait_outcome \<Rightarrow> bool" where
  "connect_woken tx out Woken \<longleftrightarrow> WakeConnect tx \<in> set out"
| "connect_woken tx out SenderDropped \<longleftrightarrow> DropConnect tx \<in> set out"
| "connect_woken tx out TimedOut \<longleftrightarrow> True"

inductive connect_run :: "'hs externs \<Rightarrow> 'hs inner \<Rightarrow> ipaddr \<Rightarrow> effect list \<Rightarrow> 'hs inner \<Rightarrow> unit result \<Rightarrow> bool"
  for X :: "'hs externs" where
  connect_unresolved: "resolve_run X s vpn o1 s1 (Inl e) \<Longrightarrow> connect_run X s vpn o1 s1 (Inl e)"
| connect_failed: "resolve_run X s vpn o1 s1 (Inr remote) \<Longrightarrow> session_run X s1 o2 s2 \<Longrightarrow>
    connect_start X clk s2 vpn remote = Some (Inl e, s3, o3) \<Longrightarrow>
    connect_run X s vpn (o1 @ o2 @ o3) s3 (Inl e)"
| connect_waited: "resolve_run X s vpn o1 s1 (Inr remote) \<Longrightarrow> session_run X s1 o2 s2 \<Longrightarrow>
    connect_start X clk s2 vpn remote = Some (Inr (), s3, o3) \<Longrightarrow>
    session_run X s3 o4 s4 \<Longrightarrow> connect_woken (channels s2) o4 outcome \<Longrightarrow>
    connect_run X s vpn (o1 @ o2 @ o3 @ o4) s4 (connect_finish outcome)"

text \<open>A \<open>connect\<close> that panics when \<open>allocate_index\<close> or \<open>stage0\<close> reads the clock at \<open>t\<close>.\<close>

inductive connect_panics :: "'hs externs \<Rightarrow> 'hs inner \<Rightarrow> ipaddr \<Rightarrow> effect list \<Rightarrow> 'hs inner \<Rightarrow> int \<Rightarrow> bool"
  for X :: "'hs externs" where
  connect_panicked: "resolve_run X s vpn o1 s1 (Inr remote) \<Longrightarrow> session_run X s1 o2 s2 \<Longrightarrow>
    connect_begin s2 vpn = (s3, o3) \<Longrightarrow> subsec_nanos_at t = None \<or> unix_nanos_at t = None \<Longrightarrow>
    connect_panics X s vpn (o1 @ o2 @ o3) s3 t"

lemma connect_panics_early: "connect_panics X s vpn out s' t \<Longrightarrow> t < 0"
  by (erule connect_panics.cases) (auto simp: subsec_nanos_at_def unix_nanos_at_def since_epoch_def split: if_splits)

text \<open>The loop over the lighthouses stops at the first error.\<close>

inductive register_run ::
  "'hs externs \<Rightarrow> socketaddr \<Rightarrow> 'hs inner \<Rightarrow> ipaddr list \<Rightarrow> effect list \<Rightarrow> 'hs inner \<Rightarrow> unit result \<Rightarrow> bool"
  for X :: "'hs externs" and local_addr where
  register_done: "register_run X local_addr s [] [] s (Inr ())"
| register_unconnected: "connect_run X s lh o1 s1 (Inl e) \<Longrightarrow> register_run X local_addr s (lh # lhs) o1 s1 (Inl e)"
| register_unsent: "connect_run X s lh o1 s1 (Inr ()) \<Longrightarrow> session_run X s1 o2 s2 \<Longrightarrow>
    register_send X s2 local_addr lh = Some (Inl e, s3, o3) \<Longrightarrow>
    register_run X local_addr s (lh # lhs) (o1 @ o2 @ o3) s3 (Inl e)"
| register_send_failed: "connect_run X s lh o1 s1 (Inr ()) \<Longrightarrow> session_run X s1 o2 s2 \<Longrightarrow>
    register_send X s2 local_addr lh = Some (Inr (), s3, o3) \<Longrightarrow> session_run X s3 o4 s4 \<Longrightarrow>
    register_run X local_addr s (lh # lhs) (o1 @ o2 @ o3 @ o4) s4 (Inl (Io e))"
| register_next: "connect_run X s lh o1 s1 (Inr ()) \<Longrightarrow> session_run X s1 o2 s2 \<Longrightarrow>
    register_send X s2 local_addr lh = Some (Inr (), s3, o3) \<Longrightarrow> session_run X s3 o4 s4 \<Longrightarrow>
    register_run X local_addr s4 lhs o5 s5 r \<Longrightarrow>
    register_run X local_addr s (lh # lhs) (o1 @ o2 @ o3 @ o4 @ o5) s5 r"

definition build_run :: "'hs externs \<Rightarrow> session_config \<Rightarrow> socketaddr \<Rightarrow> effect list \<Rightarrow> 'hs inner result \<Rightarrow> bool" where
  "build_run X cfg local_addr out res \<longleftrightarrow>
     (case build_inner X cfg of
        Inl e \<Rightarrow> out = [] \<and> res = Inl e
      | Inr s0 \<Rightarrow> \<exists>o1 s1 o2 s2 r. session_run X s0 o1 s1 \<and> register_run X local_addr s1 (lighthouses s0) o2 s2 r \<and>
          out = o1 @ o2 \<and> and_then r (\<lambda>_. Inr s2) = res)"

lemma query_run_run: "query_run X payload s lhs out s' \<Longrightarrow> session_run X s out s'"
proof (induction rule: query_run.induct)
  case (query_cons s o1 s1 lh r s2 o2 lhs o3 s3)
  from query_cons.hyps(1) run_single [OF send_step [OF query_cons.hyps(2)]] query_cons.IH
  show ?case by (metis run_trans)
qed (rule run_nil)

lemma resolve_run_run: "resolve_run X s vpn out s' r \<Longrightarrow> session_run X s out s'"
proof (induction rule: resolve_run.induct)
  case (resolve_asked s vpn o1 s1 tx s2 o2 o3 s3 o4 s4 woken)
  from resolve_asked(2) run_single [OF resolve_step [OF resolve_asked(3)]] query_run_run [OF resolve_asked(4)]
    resolve_asked(5)
  show ?case by (metis run_trans)
qed (rule run_nil)

lemma connect_run_run: "connect_run X s vpn out s' r \<Longrightarrow> session_run X s out s'"
proof (induction rule: connect_run.induct)
  case (connect_unresolved s vpn o1 s1 e)
  then show ?case by (rule resolve_run_run)
next
  case (connect_failed s vpn o1 s1 remote o2 s2 clk e s3 o3)
  from resolve_run_run [OF connect_failed(1)] connect_failed(2) run_single [OF connect_step [OF connect_failed(3)]]
  show ?case by (metis run_trans)
next
  case (connect_waited s vpn o1 s1 remote o2 s2 clk s3 o3 o4 s4 outcome)
  from resolve_run_run [OF connect_waited(1)] connect_waited(2) run_single [OF connect_step [OF connect_waited(3)]]
    connect_waited(4)
  show ?case by (metis run_trans)
qed

section \<open>Who wakes a connect\<close>

text \<open>What every operation but \<open>connect_start\<close> respects: waiting senders are only removed,
  addresses stay in the table, and a sender is woken only when its address has just got a tunnel.\<close>

definition quiet :: "'hs inner \<Rightarrow> effect list \<Rightarrow> 'hs inner \<Rightarrow> bool" where
  "quiet s out s' \<longleftrightarrow>
     (\<forall>v tx. connected s' v = Some tx \<longrightarrow> connected s v = Some tx) \<and> channels s \<le> channels s' \<and>
     (\<forall>v. index_by_vpn_addr s v \<noteq> None \<longrightarrow> index_by_vpn_addr s' v \<noteq> None) \<and>
     (\<forall>tx. WakeConnect tx \<in> set out \<longrightarrow> (\<exists>v. connected s v = Some tx \<and> index_by_vpn_addr s' v \<noteq> None))"

lemma quiet_refl [simp]: "quiet s [] s"
  by (simp add: quiet_def)

lemma quiet_trans: "quiet s [] s1 \<Longrightarrow> quiet s1 out s2 \<Longrightarrow> quiet s out s2"
  unfolding quiet_def by (meson le_trans)

lemma decrypt_from_quiet: "decrypt_from X s hdr hb body = Some (s', plain) \<Longrightarrow> quiet s [] s'"
  by (erule decrypt_from_cases) (simp_all add: quiet_def)

lemma handle_lighthouse_quiet: "quiet s (snd (handle_lighthouse X s b)) (fst (handle_lighthouse X s b))"
  by (auto simp: handle_lighthouse_def Let_def quiet_def split: sum.split list.split option.split)

lemma handle_stage2_quiet: "quiet s (snd (handle_stage2 X clk s i body from)) (fst (handle_stage2 X clk s i body from))"
  by (auto simp: handle_stage2_def Let_def quiet_def split: sum.split option.split peer_state.split)

lemma handle_stage0_quiet:
  assumes "handle_stage0 X clk s body from = Some (s', out)"
  shows "quiet s out s'"
proof -
  from assms obtain i where "allocate_index s (subsec_nanos clk) = Some i"
    by (auto simp: handle_stage0_def bind_eq_Some_conv)
  with assms show ?thesis
    by (auto simp: handle_stage0_def Let_def quiet_def split: sum.splits option.splits)
qed

lemma recv_datagram_quiet:
  assumes "recv_datagram X clk s buf from = Some (s', out)"
  shows "quiet s out s'"
  using assms
proof (cases rule: recv_datagram_cases)
  case (handshake hdr)
  with handle_stage2_quiet [of s X clk "remote_index hdr" "drop LEN buf" "from"] show ?thesis
    by (auto simp: handle_handshake_def split: if_splits dest: handle_stage0_quiet)
next
  case (message hdr)
  then obtain plain where "decrypt_from X s hdr (take LEN buf) (drop LEN buf) = Some (s', plain)"
    and "out = (case plain of None \<Rightarrow> [] | Some (vpn, msg) \<Rightarrow> [Inbox vpn msg])"
    by (auto simp: handle_message_def bind_eq_Some_conv)
  then show ?thesis by (cases plain) (auto simp: quiet_def dest!: decrypt_from_quiet)
next
  case (lighthouse hdr)
  then obtain s1 plain where "decrypt_from X s hdr (take LEN buf) (drop LEN buf) = Some (s1, plain)"
    and "(s', out) = (case plain of None \<Rightarrow> (s1, []) | Some (_, msg) \<Rightarrow> handle_lighthouse X s1 msg)"
    by (auto simp: handle_lighthouse_packet_def bind_eq_Some_conv)
  then have q: "quiet s [] s1" and "s' = s1 \<and> out = [] \<or> (\<exists>msg. (s', out) = handle_lighthouse X s1 msg)"
    by (auto dest: decrypt_from_quiet split: option.splits)
  with quiet_trans [OF q handle_lighthouse_quiet] show ?thesis by (metis fst_conv snd_conv)
qed simp

lemma send_typed_quiet: "send_typed X s v ty payload = Some (r, s', out) \<Longrightarrow> quiet s out s'"
  by (erule send_typed_cases) (auto simp: quiet_def)

lemma resolve_wait_quiet: "resolve_wait s v = (tx, s', out) \<Longrightarrow> quiet s out s'"
  by (auto simp: resolve_wait_def Let_def quiet_def split: option.splits)

text \<open>The channel \<open>tx\<close> exists and no other address waits on it.\<close>

definition reserved :: "ipaddr \<Rightarrow> channel \<Rightarrow> 'hs inner \<Rightarrow> bool" where
  "reserved v tx s \<longleftrightarrow> tx < channels s \<and> (\<forall>v'. connected s v' = Some tx \<longrightarrow> v' = v)"

lemma quiet_reserved:
  assumes "quiet s out s'" and "reserved v tx s"
  shows "reserved v tx s' \<and> (WakeConnect tx \<in> set out \<longrightarrow> index_by_vpn_addr s' v \<noteq> None)"
proof -
  have "reserved v tx s'" using assms unfolding quiet_def reserved_def by (meson less_le_trans)
  moreover have "index_by_vpn_addr s' v \<noteq> None" if "WakeConnect tx \<in> set out"
    using assms that unfolding quiet_def reserved_def by metis
  ultimately show ?thesis by blast
qed

lemma connect_start_cases:
  assumes "connect_start X clk s v rm = Some (r, s', out)"
  obtains i where "allocate_index s (subsec_nanos clk) = Some i" and "i \<noteq> 0"
    and "connected s' = (connected s)(v \<mapsto> channels s)" and "channels s' = Suc (channels s)"
    and "index_by_vpn_addr s' = index_by_vpn_addr s" and "\<And>tx. WakeConnect tx \<notin> set out"
    and "\<And>w m. Inbox w m \<notin> set out"
proof -
  have al: "allocate_index (s\<lparr>connected := cn, channels := k\<rparr>) ns = allocate_index s ns" for cn k ns
    by (induction ns) (simp_all add: Let_def)
  from assms obtain i where i: "allocate_index s (subsec_nanos clk) = Some i"
    by (auto simp: connect_start_def bind_eq_Some_conv Let_def al)
  with allocate_index_fresh [OF i] assms that show thesis
    by (auto simp: connect_start_def Let_def al split: sum.splits option.splits)
qed

text \<open>What the section of \<open>connect\<close> does to the channels, whether or not it gets beyond the clock.\<close>

definition connecting :: "'hs inner \<Rightarrow> ipaddr \<Rightarrow> effect list \<Rightarrow> 'hs inner \<Rightarrow> bool" where
  "connecting s v out s' \<longleftrightarrow> connected s' = (connected s)(v \<mapsto> channels s) \<and> channels s' = Suc (channels s) \<and>
     index_by_vpn_addr s' = index_by_vpn_addr s \<and> (\<forall>tx. WakeConnect tx \<notin> set out)"

lemma connect_start_connecting: "connect_start X clk s v rm = Some (r, s', out) \<Longrightarrow> connecting s v out s'"
  by (erule connect_start_cases) (simp add: connecting_def)

lemma connect_start_reserves:
  assumes "connect_start X clk s v rm = Some (r, s', out)" and "\<forall>v tx. connected s v = Some tx \<longrightarrow> tx < channels s"
  shows "reserved v (channels s) s'"
  using connect_start_connecting [OF assms(1)] assms(2) by (auto simp: connecting_def reserved_def)

lemma connecting_reserved: "connecting s v out s' \<Longrightarrow> reserved v' tx s \<Longrightarrow> reserved v' tx s' \<and> WakeConnect tx \<notin> set out"
  by (auto simp: connecting_def reserved_def)

text \<open>Every sender waiting in the table has an allocated channel, in all reachable states.\<close>

definition channels_allocated :: "'hs inner \<Rightarrow> bool" where
  "channels_allocated s \<longleftrightarrow> (\<forall>v tx. connected s v = Some tx \<longrightarrow> tx < channels s)"

lemma quiet_allocated: "quiet s out s' \<Longrightarrow> channels_allocated s \<Longrightarrow> channels_allocated s'"
  unfolding quiet_def channels_allocated_def by (meson less_le_trans)

text \<open>All steps are of two kinds.\<close>

lemma session_step_kinds:
  assumes "session_step X s out s'"
  obtains (quiet) "quiet s out s'"
  | (connect) v where "connecting s v out s'"
  using assms
proof cases
  case (connect_panic vpn t)
  then have "connecting s vpn out s'" by (auto simp: connecting_def split: option.splits)
  then show thesis by (rule connect)
next
  case (reply_panic i hs t)
  then have "quiet s out s'" by (simp add: quiet_def)
  then show thesis by (rule quiet)
qed (blast intro: quiet connect recv_datagram_quiet send_typed_quiet resolve_wait_quiet connect_start_connecting)+

lemma step_allocated: "session_step X s out s' \<Longrightarrow> channels_allocated s \<Longrightarrow> channels_allocated s'"
proof (erule session_step_kinds)
  fix v assume "connecting s v out s'" "channels_allocated s"
  then show ?thesis by (auto simp: connecting_def channels_allocated_def less_Suc_eq split: if_splits)
qed (rule quiet_allocated)

interpretation channels: transition_invariant session_init
  "\<lambda>s s'. \<exists>out. session_step X s out s'" channels_allocated for X :: "'hs externs"
  by unfold_locales (auto simp: session_init_def channels_allocated_def intro: step_allocated [unfolded channels_allocated_def, rule_format])

lemma run_reserved:
  assumes "session_run X s out s'" and "reserved v tx s"
  shows "reserved v tx s' \<and> (WakeConnect tx \<in> set out \<longrightarrow> index_by_vpn_addr s' v \<noteq> None)"
  using assms
proof (induction rule: session_run.induct)
  case (run_step s out s1 out' s2)
  then have res: "reserved v tx s1" by simp
  from run_step.hyps(2) show ?case
  proof (cases rule: session_step_kinds)
    case quiet
    with quiet_reserved [OF quiet res] run_step show ?thesis by (auto simp: quiet_def)
  next
    case (connect v')
    with connecting_reserved [OF connect res] run_step show ?thesis by (auto simp: connecting_def)
  qed
qed simp

lemma run_keeps_tunnel: "session_run X s out s' \<Longrightarrow> index_by_vpn_addr s v \<noteq> None \<Longrightarrow> index_by_vpn_addr s' v \<noteq> None"
proof (induction rule: session_run.induct)
  case (run_step s out s1 out' s2)
  from run_step.hyps(2) run_step show ?case
    by (cases rule: session_step_kinds) (auto simp: quiet_def connecting_def)
qed

lemma connect_run_tunnel:
  assumes "channels_allocated s" and "connect_run X s v out s' (Inr ())"
  shows "index_by_vpn_addr s' v \<noteq> None"
  using assms(2)
proof cases
  case (connect_waited o1 s1 remote o2 s2 clk s3 o3 o4 outcome)
  have "(\<lambda>s s'. \<exists>out. session_step X s out s')\<^sup>*\<^sup>* s s2"
    by (rule rtranclp_trans [OF run_reaches [OF resolve_run_run [OF connect_waited(3)]] run_reaches [OF connect_waited(4)]])
  then have "channels_allocated s2"
    using assms(1) by (rule channels.steps_inv)
  then have "reserved v (channels s2) s3"
    using connect_start_reserves [OF connect_waited(5)] by (simp add: channels_allocated_def)
  with run_reserved [OF connect_waited(6)] connect_waited(2,7) show ?thesis
    by (cases outcome) auto
qed

lemma register_run_run: "register_run X local_addr s lhs out s' r \<Longrightarrow> session_run X s out s'"
proof (induction rule: register_run.induct)
  case (register_unconnected s lh o1 s1 e lhs)
  then show ?case by (rule connect_run_run)
next
  case (register_unsent s lh o1 s1 o2 s2 e s3 o3 lhs)
  from connect_run_run [OF register_unsent(1)] register_unsent(2)
    run_single [OF send_step [OF register_unsent(3) [unfolded register_send_def]]]
  show ?case by (metis run_trans)
next
  case (register_send_failed s lh o1 s1 o2 s2 s3 o3 o4 s4 lhs e)
  from connect_run_run [OF register_send_failed(1)] register_send_failed(2)
    run_single [OF send_step [OF register_send_failed(3) [unfolded register_send_def]]] register_send_failed(4)
  show ?case by (metis run_trans)
next
  case (register_next s lh o1 s1 o2 s2 s3 o3 o4 s4 lhs o5 s5 r)
  from connect_run_run [OF register_next(1)] register_next(2)
    run_single [OF send_step [OF register_next(3) [unfolded register_send_def]]] register_next(4) register_next.IH
  show ?case by (metis run_trans)
qed (rule run_nil)

lemma register_run_tunnels:
  "register_run X local_addr s lhs out s' r \<Longrightarrow> r = Inr () \<Longrightarrow> channels_allocated s \<Longrightarrow> lh \<in> set lhs \<Longrightarrow>
   index_by_vpn_addr s' lh \<noteq> None"
proof (induction rule: register_run.induct)
  case (register_next s lh' o1 s1 o2 s2 s3 o3 o4 s4 lhs o5 s5 r)
  have rest: "session_run X s1 (o2 @ o3 @ o4) s4"
    using register_next(2) run_single [OF send_step [OF register_next(3) [unfolded register_send_def]]] register_next(4)
    by (metis run_trans)
  then have "channels_allocated s4"
    using register_next.prems(2) connect_run_run [OF register_next(1)] run_reaches channels.steps_inv by metis
  moreover have "index_by_vpn_addr s5 lh' \<noteq> None"
    using connect_run_tunnel [OF register_next.prems(2) register_next(1)] rest register_run_run [OF register_next(5)]
    by (blast dest: run_keeps_tunnel)
  ultimately show ?case using register_next by auto
qed auto

lemma build_init: "build_inner X cfg = Inr s \<Longrightarrow> session_init s \<and> lighthouses s = cfg_lighthouses cfg"
  by (auto simp: build_inner_def session_init_def and_then_eq_Inr split: if_splits list.splits)

text \<open>An address in the table of a state with the invariant belongs to a verified tunnel.\<close>

lemma tunnel_of_address:
  assumes "session_inv X ca s" and "index_by_vpn_addr s v \<noteq> None"
  obtains i t r c ri where "index_by_vpn_addr s v = Some i" and "peers_by_index s i = Some (Established t r v c ri)"
    and "\<exists>now. verify_host_cert (x_crypto X) c ca now = Inr ()" and "peer_info_of s v \<noteq> None"
proof -
  from assms(2) obtain i where i: "index_by_vpn_addr s v = Some i" by auto
  obtain t r c ri where p: "peers_by_index s i = Some (Established t r v c ri)"
    by (rule peer_isE [OF session_invD(3) [OF assms(1) i]])
  from session_invD(2) [OF assms(1) p] i p that show thesis by (auto simp: peer_ok_def peer_info_of_def)
qed

text \<open>Sending changes no certificate.\<close>

lemma send_typed_info: "send_typed X s v ty payload = Some (r, s', out) \<Longrightarrow> peer_info_of s' w = peer_info_of s w"
  by (erule send_typed_cases; cases "index_by_vpn_addr s w") (auto simp: peer_info_of_def)

section \<open>Properties\<close>

text \<open>C12: When \<open>connect\<close> returns \<open>Ok\<close>, however the other tasks interleaved with its two
  waits, the session has an established tunnel under exactly the address asked for, to a peer whose
  certificate was verified against the session's CA, and \<open>peer_info\<close> answers for it.\<close>

theorem connect_establishes:
  assumes "session_init s0" and "(\<lambda>s s'. \<exists>out. session_step X s out s')\<^sup>*\<^sup>* s0 s"
    and "connect_run X s v out s' (Inr ())"
  shows "\<exists>i t r c ri. index_by_vpn_addr s' v = Some i \<and> peers_by_index s' i = Some (Established t r v c ri) \<and>
    (\<exists>now. verify_host_cert (x_crypto X) c (ca_cert s0) now = Inr ()) \<and> peer_info_of s' v \<noteq> None"
proof -
  have "index_by_vpn_addr s' v \<noteq> None"
    by (rule connect_run_tunnel [OF channels.reachable_inv [OF assms(1,2)] assms(3)])
  moreover have "session_inv X (ca_cert s0) s'"
    using run_inv [OF connect_run_run [OF assms(3)]] session.reachable_inv [OF _ assms(2), of "ca_cert s0"] assms(1)
    by simp
  ultimately show ?thesis by (metis tunnel_of_address)
qed

definition world_key :: bytes where
  "world_key = replicate 32 1"

abbreviation world_lighthouse :: socketaddr where
  "world_lighthouse \<equiv> SockV4 22 22"

abbreviation world_client :: "plain_state inner" where
  "world_client \<equiv> world_node 1 world_key [V4 2] [(V4 2, world_lighthouse)]"

lemma world_client_init: "session_init world_client"
  by (simp add: session_init_def world_node_def)

lemma world_connects:
  obtains out s' where "connect_run world world_client (V4 2) out s' (Inr ())"
    and "peer_info_of s' (V4 2) = Some (cert_info (world_cert 2 [2]))"
proof -
  note st = world_connect [of world_key "[V4 2]" "[(V4 2, world_lighthouse)]" world_lighthouse]
  obtain s4 t j i where s4: "recv_datagram world world_clock (world_client\<lparr>connected := [V4 2 \<mapsto> 0], channels := 1,
       peers_by_index := [0x9E3779BC \<mapsto> Handshaking (True, world_key, None)]\<rparr>)
       (header_encode (handshake_header 0x9E3779BC 2) @ world_hello 2 1 [2] 0x9E3779BC 0x9E3779BC) world_lighthouse =
      Some (s4, [WakeConnect (channels world_client)])" and i: "index_by_vpn_addr s4 (V4 2) = Some i"
    and p: "peers_by_index s4 i = Some (Established t world_lighthouse (V4 2) (host_cert (world_inner 2 [2])) j)"
    by (rule tunnel_opens_once [OF world_laws(1,2) world_pair st world_reply])
  have "peer_info_of s4 (V4 2) = Some (cert_info (world_cert 2 [2]))"
    using i p by (simp add: peer_info_of_def) (simp add: world_inner_def world_node_def)
  moreover from run_single [OF recv_step [OF s4]]
  have run: "session_run world (world_client\<lparr>connected := [V4 2 \<mapsto> 0], channels := 1,
       peers_by_index := [0x9E3779BC \<mapsto> Handshaking (True, world_key, None)]\<rparr>)
      [WakeConnect (channels world_client)] s4" .
  have known: "resolve_run world world_client (V4 2) [] world_client (Inr world_lighthouse)"
    by (rule resolve_known) (simp add: world_node_def)
  from connect_waited [OF known run_nil st run, of Woken]
  have "connect_run world world_client (V4 2) ([] @ [] @ [SendTo world_lighthouse (header_encode (handshake_header 0 1) @
      world_hello 1 2 world_key 0x9E3779BC 0)] @ [WakeConnect (channels world_client)]) s4 (Inr ())" by simp
  ultimately show thesis using that by blast
qed

theorem connect_establishes_witness:
  "\<exists>out s' i t r c ri. connect_run world world_client (V4 2) out s' (Inr ()) \<and>
     index_by_vpn_addr s' (V4 2) = Some i \<and> peers_by_index s' i = Some (Established t r (V4 2) c ri)"
proof -
  obtain out s' where "connect_run world world_client (V4 2) out s' (Inr ())" by (rule world_connects)
  with connect_establishes [OF world_client_init rtranclp.rtrancl_refl this] show ?thesis by blast
qed

text \<open>C20: A session that \<open>build\<close> hands out has an established tunnel to every configured
  lighthouse, with a certificate verified against the CA certificate of the configuration: the
  queries \<open>resolve\<close> sends later find their tunnels.\<close>

theorem build_registers:
  assumes "build_run X cfg local_addr out (Inr s)"
  shows "\<exists>s0. build_inner X cfg = Inr s0 \<and> (\<forall>lh \<in> set (cfg_lighthouses cfg).
    \<exists>i t r c ri. index_by_vpn_addr s lh = Some i \<and> peers_by_index s i = Some (Established t r lh c ri) \<and>
      (\<exists>now. verify_host_cert (x_crypto X) c (ca_cert s0) now = Inr ()))"
proof -
  from assms obtain s0 o1 s1 o2 where b: "build_inner X cfg = Inr s0" and r1: "session_run X s0 o1 s1"
    and r2: "register_run X local_addr s1 (lighthouses s0) o2 s (Inr ())"
    by (auto simp: build_run_def and_then_eq_Inr split: sum.splits)
  note init = build_init [OF b]
  have "channels_allocated s1" using init channels.reachable_inv run_reaches [OF r1] by blast
  then have "index_by_vpn_addr s lh \<noteq> None" if "lh \<in> set (cfg_lighthouses cfg)" for lh
    using register_run_tunnels [OF r2 refl] that init by simp
  moreover have "session_inv X (ca_cert s0) s"
    using init session_init_inv run_inv [OF r1] run_inv [OF register_run_run [OF r2]] by blast
  ultimately show ?thesis using b by (metis tunnel_of_address)
qed

definition world_config :: session_config where
  "world_config = \<lparr>ca_cert_pem = certificate_encode world_ca, host_cert_pem = certificate_encode (world_cert 1 world_key),
     host_key_pem = world_key, cfg_cipher = AesGcm, bind_addr = SockV4 0 0, cfg_lighthouses = [V4 2], static_hosts = [(V4 2, world_lighthouse)]\<rparr>"

lemma world_ca_encode: "encode_details ((world_details 0)\<lparr>d_is_ca := True\<rparr>) =
    [0xA0, 21, 0x80, 1, 104, 0xA1, 7, 4, 5, 0, 0, 0, 0, 16, 0x84, 1, 0xFF, 0x85, 1, 0, 0x86, 1, 100]"
  by code_simp

lemma world_ca_decode: "certificate_decode (certificate_encode world_ca) = Inr world_ca"
proof -
  have "cert_ok world_ca"
    unfolding world_ca_def
    by (rule world_certs_ok)
      (simp add: world_ca_encode, simp add: details_wf_def world_details_def as_bytes_def)
  then show ?thesis
    using certificate_decode_encode [of world_ca "[]"]
    by (simp add: certificate_encode_def world_ca_def world_ca_encode write_tlv_def write_length_def)
qed

lemma world_cert_decode: "certificate_decode (certificate_encode (world_cert 1 key)) = Inr (world_cert 1 key)"
proof -
  have "cert_ok (world_cert 1 key)"
    unfolding world_cert_def by (rule world_certs_ok) (simp_all add: world_details_encode world_details_wf)
  then show ?thesis
    using certificate_decode_encode [of "world_cert 1 key" "[]"]
    by (simp add: certificate_encode_def world_cert_def world_details_encode write_tlv_def write_length_def)
qed

lemma world_build: "build_inner world world_config = Inr world_client"
proof -
  have len: "length (certificate_encode world_ca) \<noteq> 32" "length (certificate_encode (world_cert 1 world_key)) \<noteq> 32"
    by (simp_all add: certificate_encode_def world_ca_def world_ca_encode world_cert_def world_details_encode
        write_tlv_def write_length_def)
  have "d_networks (cert_details (world_cert 1 world_key)) = [\<lparr>nw_addr = V4 1, nw_prefix_len = 16\<rparr>]"
    by (simp add: world_cert_def world_details_def)
  with len world_ca_decode world_cert_decode [of world_key] show ?thesis
    by (simp add: build_inner_def world_config_def pem_decode_def world_def world_key_def world_node_def)
qed

lemma world_registers:
  obtains out s where "build_run world world_config local_addr out (Inr s)"
    and "peer_info_of s (V4 2) = Some (cert_info (world_cert 2 [2]))"
proof -
  obtain o1 s1 where c: "connect_run world world_client (V4 2) o1 s1 (Inr ())"
    and info: "peer_info_of s1 (V4 2) = Some (cert_info (world_cert 2 [2]))" by (rule world_connects)
  have "channels_allocated world_client" by (simp add: channels_allocated_def world_node_def)
  from connect_run_tunnel [OF this c] have "index_by_vpn_addr s1 (V4 2) \<noteq> None" .
  moreover have "session_inv world (ca_cert world_client) s1"
    by (rule run_inv [OF connect_run_run [OF c] session_init_inv [OF world_client_init refl]])
  ultimately obtain i t r cc ri where i: "index_by_vpn_addr s1 (V4 2) = Some i"
    and p: "peers_by_index s1 i = Some (Established t r (V4 2) cc ri)" by (metis tunnel_of_address)
  obtain s2 o2 where s2: "register_send world s1 local_addr (V4 2) = Some (Inr (), s2, o2)"
    unfolding register_send_def by (rule send_typed_succeeds [OF world_sizes world_seals i p])
  from register_next [OF c run_nil s2 run_nil register_done]
  have "register_run world local_addr world_client [V4 2] (o1 @ [] @ o2 @ [] @ []) s2 (Inr ())" .
  moreover have "lighthouses world_client = [V4 2]" by (simp add: world_node_def)
  ultimately have "build_run world world_config local_addr (o1 @ o2) (Inr s2)"
    using run_nil by (fastforce simp: build_run_def world_build)
  moreover have "peer_info_of s2 (V4 2) = Some (cert_info (world_cert 2 [2]))"
    using send_typed_info [OF s2 [unfolded register_send_def]] info by simp
  ultimately show thesis by (rule that)
qed

theorem build_registers_witness:
  "\<exists>out s i t r c ri. build_run world world_config (SockV4 11 11) out (Inr s) \<and>
     index_by_vpn_addr s (V4 2) = Some i \<and> peers_by_index s i = Some (Established t r (V4 2) c ri)"
proof -
  obtain out s where b: "build_run world world_config (SockV4 11 11) out (Inr s)" by (rule world_registers)
  have "V4 2 \<in> set (cfg_lighthouses world_config)" by (simp add: world_config_def)
  with b build_registers [OF b] show ?thesis by blast
qed

end
