(* ===== verification/Session_Life.thy ===== *)
theory Session_Life
  imports Session_Run
begin

text \<open>
  The life of a tunnel in \<open>nebula-protocol/src/session.rs\<close>: once established it is never replaced
  or removed under its index, its keys never change and its counter only grows, whatever the tasks
  do; but the address table may move to another tunnel, also because of a replayed handshake.
\<close>

section \<open>Established tunnels are kept\<close>

text \<open>From \<open>s\<close> to \<open>s'\<close> every established tunnel keeps all but its replay window and its
  counter, which has been taken \<open>n\<close> times at most.\<close>

definition kept :: "'hs inner \<Rightarrow> nat \<Rightarrow> 'hs inner \<Rightarrow> bool" where
  "kept s n s' \<longleftrightarrow> (\<forall>i t r v c ri. peers_by_index s i = Some (Established t r v c ri) \<longrightarrow>
     (\<exists>t' m. peers_by_index s' i = Some (Established t' r v c ri) \<and> send_cipher t' = send_cipher t \<and>
        recv_cipher t' = recv_cipher t \<and> m \<le> n \<and> send_counter t' = send_counter t + of_nat m))"

lemma keptE:
  assumes "kept s n s'" and "peers_by_index s i = Some (Established t r v c ri)"
  obtains t' m where "peers_by_index s' i = Some (Established t' r v c ri)" and "send_cipher t' = send_cipher t"
    and "recv_cipher t' = recv_cipher t" and "m \<le> n" and "send_counter t' = send_counter t + of_nat m"
  using assms unfolding kept_def by blast

lemma kept_same: "peers_by_index s' = peers_by_index s \<Longrightarrow> kept s n s'"
  unfolding kept_def by (intro allI impI, rule_tac x = t in exI, rule_tac x = 0 in exI) simp

lemma kept_trans:
  assumes "kept s n s1" and "kept s1 k s2"
  shows "kept s (n + k) s2"
  unfolding kept_def
proof (intro allI impI)
  fix i t r v c ri assume p: "peers_by_index s i = Some (Established t r v c ri)"
  from assms(1) p obtain t1 m1 where p1: "peers_by_index s1 i = Some (Established t1 r v c ri)"
    "send_cipher t1 = send_cipher t" "recv_cipher t1 = recv_cipher t" "m1 \<le> n"
    "send_counter t1 = send_counter t + of_nat m1" by (rule keptE)
  from assms(2) p1(1) obtain t2 m2 where "peers_by_index s2 i = Some (Established t2 r v c ri)"
    "send_cipher t2 = send_cipher t1" "recv_cipher t2 = recv_cipher t1" "m2 \<le> k"
    "send_counter t2 = send_counter t1 + of_nat m2" by (rule keptE)
  with p1 show "\<exists>t' m. peers_by_index s2 i = Some (Established t' r v c ri) \<and> send_cipher t' = send_cipher t \<and>
      recv_cipher t' = recv_cipher t \<and> m \<le> n + k \<and> send_counter t' = send_counter t + of_nat m"
    by (intro exI [of _ t2] exI [of _ "m1 + m2"]) simp
qed

text \<open>The two ways a step changes the table: at an index without a tunnel, or the transport of one.\<close>

lemma kept_new:
  assumes "\<And>v. \<not> peer_is v (peers_by_index s i)" and "\<And>j. j \<noteq> i \<Longrightarrow> peers_by_index s' j = peers_by_index s j"
  shows "kept s n s'"
  unfolding kept_def
proof (intro allI impI)
  fix j t r v c ri assume p: "peers_by_index s j = Some (Established t r v c ri)"
  with assms(1) [of v] have "j \<noteq> i" by auto
  with p assms(2) have "peers_by_index s' j = Some (Established t r v c ri) \<and> send_cipher t = send_cipher t \<and>
      recv_cipher t = recv_cipher t \<and> 0 \<le> n \<and> send_counter t = send_counter t + of_nat 0" by simp
  then show "\<exists>t' m. peers_by_index s' j = Some (Established t' r v c ri) \<and> send_cipher t' = send_cipher t \<and>
      recv_cipher t' = recv_cipher t \<and> m \<le> n \<and> send_counter t' = send_counter t + of_nat m" by blast
qed

lemma kept_transport:
  assumes "peers_by_index s i = Some (Established t r v c ri)"
    and "peers_by_index s' = (peers_by_index s)(i \<mapsto> Established t' r v c ri)"
    and "send_cipher t' = send_cipher t" and "recv_cipher t' = recv_cipher t" and "m \<le> n"
    and "send_counter t' = send_counter t + of_nat m"
  shows "kept s n s'"
  unfolding kept_def
proof (intro allI impI)
  fix j u r' v' c' ri' assume p: "peers_by_index s j = Some (Established u r' v' c' ri')"
  show "\<exists>t' m. peers_by_index s' j = Some (Established t' r' v' c' ri') \<and> send_cipher t' = send_cipher u \<and>
      recv_cipher t' = recv_cipher u \<and> m \<le> n \<and> send_counter t' = send_counter u + of_nat m"
  proof (cases "j = i")
    case True
    with p assms show ?thesis by auto
  next
    case False
    with p assms(2) show ?thesis by (intro exI [of _ u] exI [of _ 0]) simp
  qed
qed

lemma transport_decrypt_keeps:
  assumes "transport_decrypt A t ctr aad ct out = Some (res, t', out')"
  shows "send_cipher t' = send_cipher t" and "recv_cipher t' = recv_cipher t" and "send_counter t' = send_counter t"
proof -
  from assms obtain w where "t' = t\<lparr>replay := w\<rparr>"
    by (auto simp: transport_decrypt_def Let_def bind_eq_Some_conv split: if_splits sum.splits)
  then show "send_cipher t' = send_cipher t" and "recv_cipher t' = recv_cipher t" and "send_counter t' = send_counter t"
    by simp_all
qed

lemma decrypt_from_kept:
  assumes "decrypt_from X s hdr hb body = Some (s', plain)"
  shows "kept s n s'"
  using assms
proof (cases rule: decrypt_from_cases)
  case (peer t r v c ri res t' out)
  with transport_decrypt_keeps [OF peer(2)] show ?thesis
    by (intro kept_transport [OF peer(1), where t' = t' and m = 0]) simp_all
qed (simp add: kept_same)

lemma handle_lighthouse_peers: "peers_by_index (fst (handle_lighthouse X s b)) = peers_by_index s"
  by (auto simp: handle_lighthouse_def Let_def split: sum.split list.split option.split)

lemma handle_stage0_kept:
  assumes "handle_stage0 X clk s body from = Some (s', out)"
  shows "kept s n s'"
proof -
  from assms obtain i where i: "allocate_index s (subsec_nanos clk) = Some i"
    by (auto simp: handle_stage0_def bind_eq_Some_conv)
  with allocate_index_fresh [OF i] assms show ?thesis
    by (auto simp: handle_stage0_def Let_def split: sum.splits option.splits
        intro: kept_same intro!: kept_new [of s i])
qed

lemma handle_stage2_kept: "kept s n (fst (handle_stage2 X clk s i body from))"
proof (cases "\<exists>hs. peers_by_index s i = Some (Handshaking hs)")
  case True
  then obtain hs where "peers_by_index s i = Some (Handshaking hs)" by blast
  then show ?thesis
    by (auto simp: handle_stage2_def Let_def split: sum.split option.split intro!: kept_new [of s i])
next
  case False
  then show ?thesis
    by (auto simp: handle_stage2_def split: option.split peer_state.split intro: kept_same)
qed

lemma recv_datagram_kept:
  assumes "recv_datagram X clk s buf from = Some (s', out)"
  shows "kept s n s'"
  using assms
proof (cases rule: recv_datagram_cases)
  case (handshake hdr)
  with handle_stage2_kept [of s n X clk "remote_index hdr" "drop LEN buf" "from"] show ?thesis
    by (auto simp: handle_handshake_def split: if_splits dest: handle_stage0_kept)
next
  case (message hdr)
  then show ?thesis by (auto simp: handle_message_def bind_eq_Some_conv dest: decrypt_from_kept)
next
  case (lighthouse hdr)
  then obtain s1 plain where d: "decrypt_from X s hdr (take LEN buf) (drop LEN buf) = Some (s1, plain)"
    and "(s', out) = (case plain of None \<Rightarrow> (s1, []) | Some (_, msg) \<Rightarrow> handle_lighthouse X s1 msg)"
    by (auto simp: handle_lighthouse_packet_def bind_eq_Some_conv)
  then have "peers_by_index s' = peers_by_index s1"
    using handle_lighthouse_peers [of X s1] by (auto split: option.splits) (metis fst_conv)
  with kept_trans [OF decrypt_from_kept [OF d, of n] kept_same, of s' 0] show ?thesis by simp
qed (simp add: kept_same)

lemma session_step_kept:
  assumes "session_step X s out s'"
  shows "kept s 1 s'"
  using assms
proof cases
  case (send_step vpn ty payload r)
  from send_step show ?thesis
  proof (cases rule: send_typed_cases)
    case (peer i t rm v' c ri)
    then show ?thesis
      by (intro kept_transport [OF peer(2), where t' = "snd (next_counter t)" and m = 1]) (simp_all add: next_counter_def)
  qed (simp add: kept_same)
next
  case (connect_step clk vpn remote r)
  let ?s = "s\<lparr>connected := (connected s)(vpn \<mapsto> channels s), channels := Suc (channels s)\<rparr>"
  from connect_step obtain i where i: "allocate_index ?s (subsec_nanos clk) = Some i"
    by (auto simp: connect_start_def bind_eq_Some_conv Let_def)
  with connect_step have "peers_by_index s' = peers_by_index s \<or> (\<exists>p. peers_by_index s' = (peers_by_index s)(i := p))"
    by (auto simp: connect_start_def Let_def split: sum.splits)
  with allocate_index_fresh [OF i] show ?thesis by (auto intro: kept_same kept_new [of s i])
next
  case (reply_panic i hs t)
  then show ?thesis by (intro kept_new [of s i]) simp_all
qed (auto simp: resolve_wait_def Let_def intro: recv_datagram_kept kept_same)

lemma steps_kept:
  "((\<lambda>s s'. \<exists>out. session_step X s out s') ^^ k) s s' \<Longrightarrow> kept s k s'"
proof (induction k arbitrary: s')
  case (Suc k)
  then obtain s1 out where "kept s k s1" and "session_step X s1 out s'" by auto
  with kept_trans [OF _ session_step_kept] show ?case by fastforce
qed (simp add: kept_same)

text \<open>The ciphertext the AEAD of a cipher gives for a nonce, associated data and a message.\<close>

fun sealed_with :: "aead_ops \<Rightarrow> cipher_impl \<Rightarrow> bytes \<Rightarrow> bytes \<Rightarrow> bytes \<Rightarrow> bytes \<Rightarrow> bool" where
  "sealed_with A (AesGcmImpl key) iv aad msg ct = (aes_encrypt A key iv aad msg = Some ct)"
| "sealed_with A (ChaChaPolyImpl key) iv aad msg ct = (chacha_encrypt A key iv aad msg = Some ct)"

lemma transport_encrypt_sealed:
  assumes "transport_encrypt A t ctr aad msg out = Some (Inr len, out')"
  shows "sealed_with A (send_cipher t) (nonce (send_cipher t) ctr) aad msg (take len out')"
  using assms
  by (cases "send_cipher t")
    (auto simp: transport_encrypt_def cipher_encrypt_def copy_prefix_def result_simps split: sum.splits option.splits if_splits)

lemma send_typed_sealed:
  assumes "peers_by_index s i = Some (Established t r v c ri)" and "index_by_vpn_addr s w = Some i"
    and "send_typed X s w ty payload = Some (Inr (), s1, out)"
  shows "\<exists>ct. out = [SendTo r (header_encode (data_header ty ri (send_counter t + 1)) @ ct)] \<and>
    sealed_with (x_aead X) (send_cipher t) (nonce (send_cipher t) (send_counter t + 1))
      (header_encode (data_header ty ri (send_counter t + 1))) payload ct"
    and "peers_by_index s1 i = Some (Established (t\<lparr>send_counter := send_counter t + 1\<rparr>) r v c ri)"
proof -
  let ?ctr = "send_counter t + 1" and ?t = "t\<lparr>send_counter := send_counter t + 1\<rparr>"
  let ?hb = "header_encode (data_header ty ri ?ctr)"
  have nc: "next_counter t = (?ctr, ?t)" by (simp add: next_counter_def Let_def)
  from assms(3) obtain res ct where
    enc: "transport_encrypt (x_aead X) ?t ?ctr ?hb payload (replicate (length payload + 32) 0) = Some (res, ct)"
    and ok: "map_sum id (\<lambda>_. ()) res = Inr ()"
    and out: "out = (case res of Inl e \<Rightarrow> [] | Inr len \<Rightarrow> [SendTo r (?hb @ take len ct)])"
    and s1: "s1 = s\<lparr>peers_by_index := (peers_by_index s)(i \<mapsto> Established ?t r v c ri)\<rparr>"
    unfolding send_typed_established [OF assms(2,1) nc] by auto
  from ok obtain len where "res = Inr len" by (cases res) auto
  with out transport_encrypt_sealed [of "x_aead X" ?t ?ctr ?hb payload _ len ct] enc
  show "\<exists>ct. out = [SendTo r (?hb @ ct)] \<and> sealed_with (x_aead X) (send_cipher t) (nonce (send_cipher t) ?ctr) ?hb payload ct"
    by simp
  show "peers_by_index s1 i = Some (Established ?t r v c ri)" by (simp add: s1)
qed

section \<open>Properties\<close>

text \<open>C23: No two packets of a tunnel are sealed with the same key and nonce: let the tunnel at index
  \<open>i\<close> send a packet and, after fewer than \<open>2 ^ 64 - 1\<close> steps of any tasks, another. The two
  datagrams carry different counters, and the ciphertext of each is what the AEAD gives under the
  tunnel's one key and the nonce of the counter in its own header, which is authenticated with it;
  the nonces differ. The counter wraps, as in a release build, only beyond that many steps.\<close>

theorem tunnel_nonces_never_repeat:
  assumes "peers_by_index s i = Some (Established t r v c ri)" and "index_by_vpn_addr s w = Some i"
    and "send_typed X s w ty payload = Some (Inr (), s1, out)"
    and "((\<lambda>s s'. \<exists>out. session_step X s out s') ^^ k) s1 s2" and "k < 2 ^ 64 - 1"
    and "index_by_vpn_addr s2 w' = Some i" and "send_typed X s2 w' ty' payload' = Some (Inr (), s3, out')"
  shows "\<exists>ctr ctr' ct ct'.
    out = [SendTo r (header_encode (data_header ty ri ctr) @ ct)] \<and>
    out' = [SendTo r (header_encode (data_header ty' ri ctr') @ ct')] \<and>
    sealed_with (x_aead X) (send_cipher t) (nonce (send_cipher t) ctr) (header_encode (data_header ty ri ctr)) payload ct \<and>
    sealed_with (x_aead X) (send_cipher t) (nonce (send_cipher t) ctr') (header_encode (data_header ty' ri ctr')) payload' ct' \<and>
    ctr \<noteq> ctr' \<and> nonce (send_cipher t) ctr \<noteq> nonce (send_cipher t) ctr'"
proof -
  obtain t2 m where t2: "peers_by_index s2 i = Some (Established t2 r v c ri)" "send_cipher t2 = send_cipher t"
    and m: "m \<le> k" "send_counter t2 = send_counter t + 1 + of_nat m"
    by (rule keptE [OF steps_kept [OF assms(4)] send_typed_sealed(2) [OF assms(1-3)]]) simp
  have "(of_nat (Suc m) :: u64) \<noteq> of_nat 0"
    using m(1) assms(5) of_nat_u64_inj [of "Suc m" 0] by simp
  then have "send_counter t + 1 \<noteq> send_counter t2 + 1" using m(2) by (simp add: add.commute)
  with send_typed_sealed(1) [OF assms(1-3)] send_typed_sealed(1) [OF t2(1) assms(6,7)] show ?thesis
    unfolding t2(2) nonce_inj by blast
qed

text \<open>C38: A replayed first handshake message takes over the route to its sender. Nothing in the state
  stops the responder from answering a valid first message again: when it arrives once more, from
  any address, while the peer already has tunnels, the responder opens another tunnel, keeps the
  old ones unused, and sends all further data for that vpn address to where the replay came from.\<close>

theorem replayed_handshake_redirects:
  assumes "allocate_index s (subsec_nanos clk) = Some j"
    and "respond (x_noise X) (x_pb X) (unix_nanos_now clk) (in_cipher s) (host_private_key s)
      (encode_for_handshake (host_cert s)) j m1 = Inr (d, m2, keys)"
    and "accept_cert X clk s (hd_cert d) (remote_static keys) = Some (c, v)"
    and "send_typed X (fst (the (recv_datagram X clk s (header_encode (handshake_header 0 1) @ m1) attacker)))
      v MESSAGE payload = Some (Inr (), s2, out)"
  shows "\<exists>s1 reply pkt. recv_datagram X clk s (header_encode (handshake_header 0 1) @ m1) attacker =
      Some (s1, [SendTo attacker reply]) \<and> out = [SendTo attacker pkt] \<and>
    (\<forall>i p. peers_by_index s i = Some p \<longrightarrow> peers_by_index s1 i = Some p \<and> index_by_vpn_addr s1 v \<noteq> Some i)"
proof -
  let ?peer = "Established (transport_new (in_cipher s) (send_key keys) (recv_key keys)) attacker v c (initiator_index d)"
  let ?s1 = "s\<lparr>peers_by_index := (peers_by_index s)(j \<mapsto> ?peer), index_by_vpn_addr := (index_by_vpn_addr s)(v \<mapsto> j)\<rparr>"
  have recv: "recv_datagram X clk s (header_encode (handshake_header 0 1) @ m1) attacker =
      Some (?s1, [SendTo attacker (header_encode (handshake_header (initiator_index d) 2) @ m2)])"
    by (simp add: recv_handshake handle_stage0_def assms(1-3) Let_def)
  have i: "index_by_vpn_addr ?s1 v = Some j" and p: "peers_by_index ?s1 j = Some ?peer" by simp_all
  from assms(4) recv have sent: "send_typed X ?s1 v MESSAGE payload = Some (Inr (), s2, out)" by simp
  then have "\<exists>pkt. out = [SendTo attacker pkt]"
  proof (cases rule: send_typed_cases)
    case (peer i' t rm v' c' ri)
    with i p send_typed_ok_sends [OF sent] show ?thesis by auto
  qed simp
  moreover have "\<forall>i p. peers_by_index s i = Some p \<longrightarrow> peers_by_index ?s1 i = Some p \<and> index_by_vpn_addr ?s1 v \<noteq> Some i"
    using allocate_index_fresh [OF assms(1)] by auto
  ultimately show ?thesis using recv by blast
qed

text \<open>The responder of the small world gets the first message of its peer again, from elsewhere.\<close>

definition replay_clock :: clock where
  "replay_clock = world_clock\<lparr>subsec_nanos := [5, 6]\<rparr>"

lemma replay_accepted:
  "allocate_index (world_replied [1] from) (subsec_nanos replay_clock) = Some 0x9E3779BF"
  "respond (x_noise world) (x_pb world) (unix_nanos_now replay_clock) (in_cipher (world_replied [1] from))
     (host_private_key (world_replied [1] from)) (encode_for_handshake (host_cert (world_replied [1] from))) 0x9E3779BF
     (world_hello 1 2 [1] 0x9E3779BC 0) =
   Inr (\<lparr>hd_cert = encode_for_handshake (world_cert 1 [1]), initiator_index = 0x9E3779BC, responder_index = 0,
       cookie = 0, hd_time = 1, cert_version = 2\<rparr>, world_hello 2 1 [2] 0x9E3779BC 0x9E3779BF,
     \<lparr>remote_static = plain_public [1], send_key = plain_public [2] @ plain_public [1],
      recv_key = plain_public [1] @ plain_public [2]\<rparr>)"
  "accept_cert world replay_clock (world_replied [1] from) (encode_for_handshake (world_cert 1 [1])) (plain_public [1])
     = Some (world_cert 1 [1], V4 1)"
proof -
  show "allocate_index (world_replied [1] from) (subsec_nanos replay_clock) = Some 0x9E3779BF"
    by (simp add: replay_clock_def world_replied_def rand_index_def Let_def)
  show "respond (x_noise world) (x_pb world) (unix_nanos_now replay_clock) (in_cipher (world_replied [1] from))
     (host_private_key (world_replied [1] from)) (encode_for_handshake (host_cert (world_replied [1] from))) 0x9E3779BF
     (world_hello 1 2 [1] 0x9E3779BC 0) =
   Inr (\<lparr>hd_cert = encode_for_handshake (world_cert 1 [1]), initiator_index = 0x9E3779BC, responder_index = 0,
       cookie = 0, hd_time = 1, cert_version = 2\<rparr>, world_hello 2 1 [2] 0x9E3779BC 0x9E3779BF,
     \<lparr>remote_static = plain_public [1], send_key = plain_public [2] @ plain_public [1],
      recv_key = plain_public [1] @ plain_public [2]\<rparr>)"
    using world_respond
    by (simp add: world_replied_def world_inner_def world_node_def replay_clock_def)
  show "accept_cert world replay_clock (world_replied [1] from) (encode_for_handshake (world_cert 1 [1])) (plain_public [1])
     = Some (world_cert 1 [1], V4 1)"
    using endpoint_accepted [of world plain_public "world_inner 1 [1]" "V4 1" "world_inner 2 [2]" replay_clock
        "world_replied [1] from"] world_endpoint [of 1 "[1]" 2 "[2]"]
    by (simp add: world_details_encode replay_clock_def world_clock_def world_replied_def world_inner_def world_node_def)
qed

theorem replayed_handshake_redirects_witness:
  "\<exists>s1 s2 reply pkt. recv_datagram world replay_clock (world_replied [1] (SockV4 11 11))
      (header_encode (handshake_header 0 1) @ world_hello 1 2 [1] 0x9E3779BC 0) (SockV4 66 66) =
      Some (s1, [SendTo (SockV4 66 66) reply]) \<and>
    send_typed world s1 (V4 1) MESSAGE [104] = Some (Inr (), s2, [SendTo (SockV4 66 66) pkt])"
proof -
  let ?s = "world_replied [1] (SockV4 11 11)"
  obtain s1 where recv: "recv_datagram world replay_clock ?s
      (header_encode (handshake_header 0 1) @ world_hello 1 2 [1] 0x9E3779BC 0) (SockV4 66 66) =
      Some (s1, [SendTo (SockV4 66 66) (header_encode (handshake_header 0x9E3779BC 2) @ world_hello 2 1 [2] 0x9E3779BC 0x9E3779BF)])"
    and i: "index_by_vpn_addr s1 (V4 1) = Some 0x9E3779BF"
    and p: "\<exists>t c ri. peers_by_index s1 0x9E3779BF = Some (Established t (SockV4 66 66) (V4 1) c ri)"
    by (simp add: recv_handshake handle_stage0_def replay_accepted Let_def)
  obtain s2 out where sent: "send_typed world s1 (V4 1) MESSAGE [104] = Some (Inr (), s2, out)"
    using p by (elim exE) (rule send_typed_succeeds [OF world_sizes world_seals i])
  have "send_typed world (fst (the (recv_datagram world replay_clock ?s
      (header_encode (handshake_header 0 1) @ world_hello 1 2 [1] 0x9E3779BC 0) (SockV4 66 66))))
      (V4 1) MESSAGE [104] = Some (Inr (), s2, out)" using recv sent by simp
  from replayed_handshake_redirects [OF replay_accepted(1,2) _ this] replay_accepted(3) recv sent show ?thesis by auto
qed

theorem tunnel_nonces_never_repeat_witness:
  "\<exists>s1 s2 ctr ctr' ct ct'. send_typed world (world_replied [1] (SockV4 11 11)) (V4 1) MESSAGE [104] =
      Some (Inr (), s1, [SendTo (SockV4 11 11) (header_encode (data_header MESSAGE 0x9E3779BC ctr) @ ct)]) \<and>
    send_typed world s1 (V4 1) LIGHTHOUSE [105] =
      Some (Inr (), s2, [SendTo (SockV4 11 11) (header_encode (data_header LIGHTHOUSE 0x9E3779BC ctr') @ ct')]) \<and>
    ctr \<noteq> ctr'"
proof -
  let ?s = "world_replied [1] (SockV4 11 11)"
  have i: "index_by_vpn_addr ?s (V4 1) = Some 0x9E3779BC" by (simp add: world_replied_def)
  obtain s1 out where sent: "send_typed world ?s (V4 1) MESSAGE [104] = Some (Inr (), s1, out)"
    by (rule send_typed_succeeds [OF world_sizes world_seals i world_replied_peer])
  note p = send_typed_sealed(2) [OF world_replied_peer i sent]
  have i1: "index_by_vpn_addr s1 (V4 1) = Some 0x9E3779BC" using sent i by (cases rule: send_typed_cases) simp_all
  obtain s2 out' where sent': "send_typed world s1 (V4 1) LIGHTHOUSE [105] = Some (Inr (), s2, out')"
    by (rule send_typed_succeeds [OF world_sizes world_seals i1 p])
  have "((\<lambda>s s'. \<exists>out. session_step world s out s') ^^ 0) s1 s1" by simp
  from tunnel_nonces_never_repeat [OF world_replied_peer i sent this _ i1 sent'] sent sent' show ?thesis by auto
qed

end
