(* ===== verification/Fw_Packet.thy ===== *)
theory Fw_Packet
  imports Std_Net
begin

text \<open>
  \<open>nebula-firewall/src/packet.rs\<close> and \<open>identity.rs\<close>: the protocol numbers, the packet
  5-tuple with its derived total order (the tie-breaker of the expiry heap), and the identity
  of a peer with its address ownership test.
\<close>

section \<open>Protocols\<close>

datatype protocol = AnyProto | Tcp | Udp | Icmp | IcmpV6 | Other u8

definition protocol_from :: "u8 \<Rightarrow> protocol" where
  "protocol_from v =
     (if v = 0 then AnyProto
      else if v = 6 then Tcp
      else if v = 17 then Udp
      else if v = 1 then Icmp
      else if v = 58 then IcmpV6
      else Other v)"

fun as_u8 :: "protocol \<Rightarrow> u8" where
  "as_u8 AnyProto = 0"
| "as_u8 Tcp = 6"
| "as_u8 Udp = 17"
| "as_u8 Icmp = 1"
| "as_u8 IcmpV6 = 58"
| "as_u8 (Other v) = v"

text \<open>A protocol value that \<open>From<u8>\<close> can produce: \<open>Other\<close> never hides a known number.\<close>

fun canonical :: "protocol \<Rightarrow> bool" where
  "canonical (Other v) \<longleftrightarrow> v \<notin> {0, 6, 17, 1, 58}"
| "canonical _ \<longleftrightarrow> True"

lemma as_u8_protocol_from [simp]: "as_u8 (protocol_from v) = v"
  by (simp add: protocol_from_def)

lemma protocol_from_as_u8: "canonical p \<Longrightarrow> protocol_from (as_u8 p) = p"
  by (cases p) (auto simp: protocol_from_def)

lemma canonical_protocol_from [simp]: "canonical (protocol_from v)"
  by (simp add: protocol_from_def)

interpretation proto_codec: codec as_u8 "\<lambda>v. Some (protocol_from v)" canonical
  by unfold_locales (simp add: protocol_from_as_u8)

text \<open>The derived order: by variant, then by the payload of \<open>Other\<close>.\<close>

fun protocol_rank :: "protocol \<Rightarrow> nat \<times> u8" where
  "protocol_rank AnyProto = (0, 0)"
| "protocol_rank Tcp = (1, 0)"
| "protocol_rank Udp = (2, 0)"
| "protocol_rank Icmp = (3, 0)"
| "protocol_rank IcmpV6 = (4, 0)"
| "protocol_rank (Other v) = (5, v)"

lemma protocol_rank_inj: "protocol_rank p = protocol_rank q \<longleftrightarrow> p = q"
  by (cases p; cases q) auto

instantiation protocol :: linorder
begin

definition less_eq_protocol :: "protocol \<Rightarrow> protocol \<Rightarrow> bool" where
  "less_eq_protocol p q = (protocol_rank p \<le> protocol_rank q)"

definition less_protocol :: "protocol \<Rightarrow> protocol \<Rightarrow> bool" where
  "less_protocol p q = (protocol_rank p < protocol_rank q)"

instance
  by intro_classes (auto simp: less_eq_protocol_def less_protocol_def protocol_rank_inj [symmetric])

end

section \<open>Packets\<close>

record packet =
  local_addr :: ipaddr
  remote_addr :: ipaddr
  local_port :: u16
  remote_port :: u16
  protocol :: protocol
  fragment :: bool

text \<open>The derived order compares the fields in declaration order.\<close>

definition packet_key ::
  "('a::linorder) packet_scheme \<Rightarrow> ipaddr \<times> ipaddr \<times> u16 \<times> u16 \<times> protocol \<times> bool \<times> 'a" where
  "packet_key p = (local_addr p, remote_addr p, local_port p, remote_port p, protocol p, fragment p,
     packet.more p)"

lemma packet_key_inj: "packet_key p = packet_key q \<longleftrightarrow> p = q"
  by (cases p; cases q) (auto simp: packet_key_def)

instantiation packet_ext :: (linorder) linorder
begin

definition less_eq_packet_ext :: "'a packet_scheme \<Rightarrow> 'a packet_scheme \<Rightarrow> bool" where
  "less_eq_packet_ext p q = (packet_key p \<le> packet_key q)"

definition less_packet_ext :: "'a packet_scheme \<Rightarrow> 'a packet_scheme \<Rightarrow> bool" where
  "less_packet_ext p q = (packet_key p < packet_key q)"

instance
  by intro_classes (auto simp: less_eq_packet_ext_def less_packet_ext_def packet_key_inj [symmetric])

end

section \<open>Peer identities\<close>

record 'net peer_identity =
  pi_name :: string
  pi_groups :: "string set"
  pi_ca_name :: string
  pi_ca_sha :: string
  pi_vpn_networks :: "'net list"
  pi_unsafe_networks :: "'net list"

definition owns :: "'net ipnet_ops \<Rightarrow> 'net peer_identity \<Rightarrow> ipaddr \<Rightarrow> bool" where
  "owns N i addr \<longleftrightarrow>
     list_ex (\<lambda>n. net_contains N n addr) (pi_vpn_networks i)
     \<or> list_ex (\<lambda>n. net_contains N n addr) (pi_unsafe_networks i)"

lemma owns_iff:
  "owns N i a \<longleftrightarrow> (\<exists>n \<in> set (pi_vpn_networks i) \<union> set (pi_unsafe_networks i). net_contains N n a)"
  by (auto simp: owns_def list_ex_iff)

end
