(* ===== verification/Rule_Tree.thy ===== *)
theory Rule_Tree
  imports Fw_Packet
begin

text \<open>
  \<open>nebula-firewall/src/rule/tree.rs\<close>: the rule tree (direction, protocol table, port, CA
  scope, peer selector, local CIDR) and its matching functions, top to bottom as the code has
  them. Hash maps are maps; the network type and its \<open>contains\<close> are those of \<open>ipnet\<close>.
\<close>

section \<open>The tree\<close>

definition PORT_ANY :: int where
  "PORT_ANY = 0"

definition PORT_FRAGMENT :: int where
  "PORT_FRAGMENT = -1"

record 'net local_cidr =
  lc_any :: bool
  lc_nets :: "'net list"

record 'net peer_rule =
  pr_any :: "'net local_cidr option"
  pr_hosts :: "string \<rightharpoonup> 'net local_cidr"
  pr_groups :: "(string list \<times> 'net local_cidr) list"
  pr_cidrs :: "('net \<times> 'net local_cidr) list"

record 'net ca_rule =
  ca_any :: "'net peer_rule option"
  ca_names :: "string \<rightharpoonup> 'net peer_rule"
  ca_shas :: "string \<rightharpoonup> 'net peer_rule"

type_synonym 'net port_table = "int \<rightharpoonup> 'net ca_rule"

record 'net direction =
  dir_tcp :: "'net port_table"
  dir_udp :: "'net port_table"
  dir_icmp :: "'net port_table"
  dir_any_proto :: "'net port_table"

record 'net ruleset =
  rs_inbound :: "'net direction"
  rs_outbound :: "'net direction"

text \<open>The derived \<open>Default\<close> values.\<close>

definition local_cidr_default :: "'net local_cidr" where
  "local_cidr_default = \<lparr>lc_any = False, lc_nets = []\<rparr>"

definition peer_rule_default :: "'net peer_rule" where
  "peer_rule_default = \<lparr>pr_any = None, pr_hosts = Map.empty, pr_groups = [], pr_cidrs = []\<rparr>"

definition ca_rule_default :: "'net ca_rule" where
  "ca_rule_default = \<lparr>ca_any = None, ca_names = Map.empty, ca_shas = Map.empty\<rparr>"

definition direction_default :: "'net direction" where
  "direction_default =
     \<lparr>dir_tcp = Map.empty, dir_udp = Map.empty, dir_icmp = Map.empty, dir_any_proto = Map.empty\<rparr>"

lemmas default_defs = local_cidr_default_def peer_rule_default_def ca_rule_default_def
  direction_default_def

section \<open>Matching\<close>

definition local_cidr_matches :: "'net ipnet_ops \<Rightarrow> 'net local_cidr \<Rightarrow> packet \<Rightarrow> bool" where
  "local_cidr_matches N lc p =
     (if lc_any lc then True else list_ex (\<lambda>n. net_contains N n (local_addr p)) (lc_nets lc))"

definition peer_rule_matches ::
  "'net ipnet_ops \<Rightarrow> 'net peer_rule \<Rightarrow> packet \<Rightarrow> 'net peer_identity \<Rightarrow> bool" where
  "peer_rule_matches N pr p remote =
     (if (case pr_any pr of Some lc \<Rightarrow> local_cidr_matches N lc p | None \<Rightarrow> False) then True
      else if list_ex (\<lambda>(groups, lc). list_all (\<lambda>g. g \<in> pi_groups remote) groups
                \<and> local_cidr_matches N lc p) (pr_groups pr) then True
      else if (case pr_hosts pr (pi_name remote) of
                 Some lc \<Rightarrow> local_cidr_matches N lc p | None \<Rightarrow> False) then True
      else if list_ex (\<lambda>(net, lc). net_contains N net (remote_addr p)
                \<and> local_cidr_matches N lc p) (pr_cidrs pr) then True
      else False)"

definition ca_rule_matches ::
  "'net ipnet_ops \<Rightarrow> 'net ca_rule \<Rightarrow> packet \<Rightarrow> 'net peer_identity \<Rightarrow> bool" where
  "ca_rule_matches N ca p remote =
     (if (case ca_any ca of Some r \<Rightarrow> peer_rule_matches N r p remote | None \<Rightarrow> False) then True
      else if (case ca_shas ca (pi_ca_sha remote) of
                 Some r \<Rightarrow> peer_rule_matches N r p remote | None \<Rightarrow> False) then True
      else if (case ca_names ca (pi_ca_name remote) of
                 Some r \<Rightarrow> peer_rule_matches N r p remote | None \<Rightarrow> False) then True
      else False)"

text \<open>The table key a packet is looked up under: \<open>port as i32\<close> of an unsigned 16-bit port
  never meets \<open>PORT_FRAGMENT\<close>, but port 0 is \<open>PORT_ANY\<close>.\<close>

definition lookup_port :: "packet \<Rightarrow> bool \<Rightarrow> int" where
  "lookup_port p incoming =
     (if fragment p then PORT_FRAGMENT
      else if incoming then uint (local_port p)
      else uint (remote_port p))"

definition port_table_matches ::
  "'net ipnet_ops \<Rightarrow> 'net port_table \<Rightarrow> packet \<Rightarrow> bool \<Rightarrow> 'net peer_identity \<Rightarrow> bool" where
  "port_table_matches N table p incoming remote =
     (let port = lookup_port p incoming in
      if (case table port of Some ca \<Rightarrow> ca_rule_matches N ca p remote | None \<Rightarrow> False) then True
      else if (case table PORT_ANY of Some ca \<Rightarrow> ca_rule_matches N ca p remote | None \<Rightarrow> False) then True
      else False)"

definition direction_matches ::
  "'net ipnet_ops \<Rightarrow> 'net direction \<Rightarrow> packet \<Rightarrow> bool \<Rightarrow> 'net peer_identity \<Rightarrow> bool" where
  "direction_matches N d p incoming remote =
     (if port_table_matches N (dir_any_proto d) p incoming remote then True
      else (case protocol p of
              Tcp \<Rightarrow> port_table_matches N (dir_tcp d) p incoming remote
            | Udp \<Rightarrow> port_table_matches N (dir_udp d) p incoming remote
            | Icmp \<Rightarrow> port_table_matches N (dir_icmp d) p incoming remote
            | IcmpV6 \<Rightarrow> port_table_matches N (dir_icmp d) p incoming remote
            | AnyProto \<Rightarrow> False
            | Other _ \<Rightarrow> False))"

definition ruleset_matches ::
  "'net ipnet_ops \<Rightarrow> 'net ruleset \<Rightarrow> packet \<Rightarrow> bool \<Rightarrow> 'net peer_identity \<Rightarrow> bool" where
  "ruleset_matches N rs p incoming remote =
     direction_matches N (if incoming then rs_inbound rs else rs_outbound rs) p incoming remote"

lemmas matches_defs = local_cidr_matches_def peer_rule_matches_def ca_rule_matches_def
  port_table_matches_def direction_matches_def ruleset_matches_def lookup_port_def

section \<open>Matching as a disjunction\<close>

text \<open>The early returns of the code, read as a logical disjunction over the buckets.\<close>

lemma local_cidr_matches_iff:
  "local_cidr_matches N lc p \<longleftrightarrow> lc_any lc \<or> (\<exists>n \<in> set (lc_nets lc). net_contains N n (local_addr p))"
  by (simp add: local_cidr_matches_def list_ex_iff)

lemma peer_rule_matches_iff:
  "peer_rule_matches N pr p remote \<longleftrightarrow>
     (\<exists>lc. pr_any pr = Some lc \<and> local_cidr_matches N lc p)
     \<or> (\<exists>(gs, lc) \<in> set (pr_groups pr). set gs \<subseteq> pi_groups remote \<and> local_cidr_matches N lc p)
     \<or> (\<exists>lc. pr_hosts pr (pi_name remote) = Some lc \<and> local_cidr_matches N lc p)
     \<or> (\<exists>(n, lc) \<in> set (pr_cidrs pr). net_contains N n (remote_addr p) \<and> local_cidr_matches N lc p)"
  by (simp add: peer_rule_matches_def list_ex_iff list_all_iff subset_eq split: option.split)

lemma ca_rule_matches_iff:
  "ca_rule_matches N ca p remote \<longleftrightarrow>
     (\<exists>r. ca_any ca = Some r \<and> peer_rule_matches N r p remote)
     \<or> (\<exists>r. ca_shas ca (pi_ca_sha remote) = Some r \<and> peer_rule_matches N r p remote)
     \<or> (\<exists>r. ca_names ca (pi_ca_name remote) = Some r \<and> peer_rule_matches N r p remote)"
  by (simp add: ca_rule_matches_def split: option.split)

lemma port_table_matches_iff:
  "port_table_matches N t p incoming remote \<longleftrightarrow>
     (\<exists>k \<in> {lookup_port p incoming, PORT_ANY}. \<exists>ca. t k = Some ca \<and> ca_rule_matches N ca p remote)"
  by (auto simp: port_table_matches_def Let_def split: option.splits)

lemma uint_u16_not_fragment [simp]: "uint (w :: u16) \<noteq> PORT_FRAGMENT" "PORT_FRAGMENT \<noteq> uint (w :: u16)"
  using uint_ge_0 [of w] unfolding PORT_FRAGMENT_def by linarith+

lemma lookup_port_fragment_iff: "lookup_port p incoming = PORT_FRAGMENT \<longleftrightarrow> fragment p"
  by (simp add: lookup_port_def)

end
