(* ===== verification/Rule_Builder.thy ===== *)
theory Rule_Builder
  imports Rule_Tree
begin

text \<open>
  \<open>nebula-firewall/src/rule/builder.rs\<close>: building the rule tree one rule at a time, the
  errors and the advisory warnings. The result is compared with a flat reading of a rule list:
  the tree matches a packet exactly when one of the added rules does.
\<close>

section \<open>Rule arguments, errors and warnings\<close>

datatype port_spec = PortAny | PortFragment | PortSingle u16 | PortRange u16 u16

datatype 'net local_cidr_spec = LcUnset | LcAny | LcNet 'net

datatype rule_error = UnknownProtocol protocol | InvalidPortRange u16 u16

datatype 'net rule_warning =
    GroupsShadowedByAny bool
  | HostAnyShadowsGroups bool "string list"
  | HostAnyShadowsCidr bool 'net
  | GroupsAnyShadowsHost bool string
  | GroupsAnyShadowsCidr bool 'net
  | IcmpPortIgnored bool port_spec

datatype 'net lc_default = DefaultAny | DefaultNets "'net list"

record 'net builder =
  b_inbound :: "'net direction"
  b_outbound :: "'net direction"
  b_default :: "'net lc_default"
  b_warnings :: "'net rule_warning list"

text \<open>The arguments of one \<open>add_rule\<close> call.\<close>

record 'net rule =
  r_incoming :: bool
  r_proto :: protocol
  r_port :: port_spec
  r_groups :: "string list"
  r_host :: "string option"
  r_cidr :: "'net option"
  r_local_cidr :: "'net local_cidr_spec"
  r_ca_name :: "string option"
  r_ca_sha :: "string option"

section \<open>The builder\<close>

definition builder_new :: "'net list \<Rightarrow> bool \<Rightarrow> bool \<Rightarrow> 'net builder" where
  "builder_new assigned_networks has_unsafe_networks default_local_cidr_any =
     \<lparr>b_inbound = direction_default, b_outbound = direction_default,
      b_default = (if \<not> has_unsafe_networks \<or> default_local_cidr_any then DefaultAny
                   else DefaultNets assigned_networks),
      b_warnings = []\<rparr>"

definition port_bounds :: "port_spec \<Rightarrow> rule_error + int \<times> int" where
  "port_bounds port =
     (case port of
        PortAny \<Rightarrow> Inr (PORT_ANY, PORT_ANY)
      | PortFragment \<Rightarrow> Inr (PORT_FRAGMENT, PORT_FRAGMENT)
      | PortSingle p \<Rightarrow> Inr (uint p, uint p)
      | PortRange s e \<Rightarrow> if e < s then Inl (InvalidPortRange s e) else Inr (uint s, uint e))"

definition is_any :: "string list \<Rightarrow> string option \<Rightarrow> 'net option \<Rightarrow> bool" where
  "is_any groups host cidr =
     (if groups = [] \<and> host = None \<and> cidr = None then True
      else if list_ex (\<lambda>g. g = ''any'') groups then True
      else if host = Some ''any'' then True
      else False)"

definition merge_local_cidr ::
  "'net lc_default \<Rightarrow> 'net local_cidr_spec \<Rightarrow> 'net local_cidr \<Rightarrow> 'net local_cidr" where
  "merge_local_cidr dflt spec lc =
     (case spec of
        LcAny \<Rightarrow> lc\<lparr>lc_any := True\<rparr>
      | LcNet n \<Rightarrow> lc\<lparr>lc_nets := lc_nets lc @ [n]\<rparr>
      | LcUnset \<Rightarrow>
          (case dflt of
             DefaultAny \<Rightarrow> lc\<lparr>lc_any := True\<rparr>
           | DefaultNets nets \<Rightarrow> lc\<lparr>lc_nets := lc_nets lc @ nets\<rparr>))"

text \<open>\<open>iter_mut().find(|(net, _)| net == c)\<close> followed by the update of what it found, or the
  push of a fresh entry: the first entry with this key is updated.\<close>

fun merge_cidr_entry ::
  "('net local_cidr \<Rightarrow> 'net local_cidr) \<Rightarrow> 'net \<Rightarrow> ('net \<times> 'net local_cidr) list
     \<Rightarrow> ('net \<times> 'net local_cidr) list" where
  "merge_cidr_entry f c [] = [(c, f local_cidr_default)]"
| "merge_cidr_entry f c ((n, lc) # rest) =
     (if n = c then (n, f lc) # rest else (n, lc) # merge_cidr_entry f c rest)"

text \<open>\<open>map.entry(k).or_default()\<close> followed by an in-place update, and
  \<open>option.get_or_insert_with(default)\<close> likewise.\<close>

definition entry_or_default :: "'v \<Rightarrow> ('v \<Rightarrow> 'v) \<Rightarrow> 'k \<Rightarrow> ('k \<rightharpoonup> 'v) \<Rightarrow> ('k \<rightharpoonup> 'v)" where
  "entry_or_default d f k m = m(k \<mapsto> f (case m k of Some v \<Rightarrow> v | None \<Rightarrow> d))"

definition get_or_insert_with :: "'v \<Rightarrow> ('v \<Rightarrow> 'v) \<Rightarrow> 'v option \<Rightarrow> 'v option" where
  "get_or_insert_with d f o' = Some (f (case o' of Some v \<Rightarrow> v | None \<Rightarrow> d))"

definition add_to_peer_rule ::
  "'net lc_default \<Rightarrow> 'net rule \<Rightarrow> 'net peer_rule \<Rightarrow> 'net peer_rule" where
  "add_to_peer_rule dflt r pr =
     (let groups = r_groups r; host = r_host r; cidr = r_cidr r;
          merge = merge_local_cidr dflt (r_local_cidr r) in
      if is_any groups host cidr then
        pr\<lparr>pr_any := get_or_insert_with local_cidr_default merge (pr_any pr)\<rparr>
      else
        let pr1 = (if groups \<noteq> [] then
                     pr\<lparr>pr_groups := pr_groups pr @ [(groups, merge local_cidr_default)]\<rparr>
                   else pr);
            pr2 = (case host of
                     Some h \<Rightarrow> pr1\<lparr>pr_hosts := entry_or_default local_cidr_default merge h (pr_hosts pr1)\<rparr>
                   | None \<Rightarrow> pr1)
        in (case cidr of
              Some c \<Rightarrow> pr2\<lparr>pr_cidrs := merge_cidr_entry merge c (pr_cidrs pr2)\<rparr>
            | None \<Rightarrow> pr2))"

definition add_to_ca_rule ::
  "'net lc_default \<Rightarrow> 'net rule \<Rightarrow> 'net ca_rule \<Rightarrow> 'net ca_rule" where
  "add_to_ca_rule dflt r ca =
     (let add = add_to_peer_rule dflt r in
      if r_ca_sha r = None \<and> r_ca_name r = None then
        ca\<lparr>ca_any := get_or_insert_with peer_rule_default add (ca_any ca)\<rparr>
      else
        let ca1 = (case r_ca_sha r of
                     Some sha \<Rightarrow> ca\<lparr>ca_shas := entry_or_default peer_rule_default add sha (ca_shas ca)\<rparr>
                   | None \<Rightarrow> ca)
        in (case r_ca_name r of
              Some name \<Rightarrow> ca1\<lparr>ca_names := entry_or_default peer_rule_default add name (ca_names ca1)\<rparr>
            | None \<Rightarrow> ca1))"

definition check_sanity ::
  "bool \<Rightarrow> string list \<Rightarrow> string option \<Rightarrow> 'net option \<Rightarrow> 'net rule_warning list \<Rightarrow> 'net rule_warning list" where
  "check_sanity incoming groups host cidr ws =
     (let groups_has_any = list_ex (\<lambda>g. g = ''any'') groups;
          ws1 = (if groups_has_any \<and> length groups > 1
                 then ws @ [GroupsShadowedByAny incoming] else ws);
          ws2 = (if host = Some ''any'' then
                   let v = (if groups \<noteq> [] then ws1 @ [HostAnyShadowsGroups incoming groups] else ws1)
                   in (case cidr of Some c \<Rightarrow> v @ [HostAnyShadowsCidr incoming c] | None \<Rightarrow> v)
                 else ws1)
      in if groups_has_any then
           let v = (case host of
                      Some h \<Rightarrow> if h \<noteq> ''any'' then ws2 @ [GroupsAnyShadowsHost incoming h] else ws2
                    | None \<Rightarrow> ws2)
           in (case cidr of Some c \<Rightarrow> v @ [GroupsAnyShadowsCidr incoming c] | None \<Rightarrow> v)
         else ws2)"

text \<open>The table of a direction a protocol is filed under, and its in-place update. An
  \<open>Other\<close> protocol is rejected before the table is chosen.\<close>

fun update_table ::
  "protocol \<Rightarrow> ('net port_table \<Rightarrow> 'net port_table) \<Rightarrow> 'net direction \<Rightarrow> 'net direction" where
  "update_table AnyProto f d = d\<lparr>dir_any_proto := f (dir_any_proto d)\<rparr>"
| "update_table Tcp f d = d\<lparr>dir_tcp := f (dir_tcp d)\<rparr>"
| "update_table Udp f d = d\<lparr>dir_udp := f (dir_udp d)\<rparr>"
| "update_table Icmp f d = d\<lparr>dir_icmp := f (dir_icmp d)\<rparr>"
| "update_table IcmpV6 f d = d\<lparr>dir_icmp := f (dir_icmp d)\<rparr>"
| "update_table (Other _) f d = d"

definition update_direction ::
  "bool \<Rightarrow> ('net direction \<Rightarrow> 'net direction) \<Rightarrow> 'net builder \<Rightarrow> 'net builder" where
  "update_direction incoming f b =
     (if incoming then b\<lparr>b_inbound := f (b_inbound b)\<rparr> else b\<lparr>b_outbound := f (b_outbound b)\<rparr>)"

text \<open>\<open>for p in start..=end\<close>: each port of the range gets the rule.\<close>

definition fill_ports ::
  "'net lc_default \<Rightarrow> 'net rule \<Rightarrow> int \<Rightarrow> int \<Rightarrow> 'net port_table \<Rightarrow> 'net port_table" where
  "fill_ports dflt r start end' table =
     fold (\<lambda>p t. entry_or_default ca_rule_default (add_to_ca_rule dflt r) p t) [start..end'] table"

definition add_rule :: "'net rule \<Rightarrow> 'net builder \<Rightarrow> rule_error + 'net builder" where
  "add_rule r b =
     (case port_bounds (r_port r) of
        Inl e \<Rightarrow> Inl e
      | Inr (start, end') \<Rightarrow>
          (case r_proto r of
             Other v \<Rightarrow> Inl (UnknownProtocol (Other v))
           | proto \<Rightarrow>
               let coerce = (proto \<in> {Icmp, IcmpV6} \<and> r_port r \<noteq> PortAny);
                   ws = (if coerce then b_warnings b @ [IcmpPortIgnored (r_incoming r) (r_port r)]
                         else b_warnings b);
                   start = (if coerce then PORT_ANY else start);
                   end' = (if coerce then PORT_ANY else end');
                   ws' = check_sanity (r_incoming r) (r_groups r) (r_host r) (r_cidr r) ws
               in Inr (update_direction (r_incoming r)
                        (update_table proto (fill_ports (b_default b) r start end'))
                        (b\<lparr>b_warnings := ws'\<rparr>))))"

definition warnings :: "'net builder \<Rightarrow> 'net rule_warning list" where
  "warnings b = b_warnings b"

definition build :: "'net builder \<Rightarrow> 'net ruleset" where
  "build b = \<lparr>rs_inbound = b_inbound b, rs_outbound = b_outbound b\<rparr>"

text \<open>A caller that adds the rules of a list and ignores the rejected ones, as the callers of
  \<open>add_rule\<close> that discard its result do.\<close>

definition add_rule_or_skip :: "'net rule \<Rightarrow> 'net builder \<Rightarrow> 'net builder" where
  "add_rule_or_skip r b = (case add_rule r b of Inr b' \<Rightarrow> b' | Inl _ \<Rightarrow> b)"


section \<open>What a rule denotes\<close>

text \<open>
  The flat reading of one rule, independent of the tree: the local address is covered by the
  rule's local CIDR (or the default for an omitted one), the peer is selected by one of the
  given selectors, the CA scope fits, and so do direction, protocol and port. Several selectors
  of one rule are alternatives; so are a CA name and a CA fingerprint.
\<close>

fun local_denotes ::
  "'net ipnet_ops \<Rightarrow> 'net lc_default \<Rightarrow> 'net local_cidr_spec \<Rightarrow> packet \<Rightarrow> bool" where
  "local_denotes N dflt LcAny p = True"
| "local_denotes N dflt (LcNet n) p = net_contains N n (local_addr p)"
| "local_denotes N DefaultAny LcUnset p = True"
| "local_denotes N (DefaultNets ns) LcUnset p = (\<exists>n \<in> set ns. net_contains N n (local_addr p))"

definition peer_denotes ::
  "'net ipnet_ops \<Rightarrow> 'net lc_default \<Rightarrow> 'net rule \<Rightarrow> packet \<times> 'net peer_identity \<Rightarrow> bool" where
  "peer_denotes N dflt r q \<longleftrightarrow> (case q of (p, remote) \<Rightarrow>
     local_denotes N dflt (r_local_cidr r) p \<and>
     (is_any (r_groups r) (r_host r) (r_cidr r)
      \<or> r_groups r \<noteq> [] \<and> set (r_groups r) \<subseteq> pi_groups remote
      \<or> r_host r = Some (pi_name remote)
      \<or> (\<exists>c. r_cidr r = Some c \<and> net_contains N c (remote_addr p))))"

definition ca_denotes ::
  "'net ipnet_ops \<Rightarrow> 'net lc_default \<Rightarrow> 'net rule \<Rightarrow> packet \<times> 'net peer_identity \<Rightarrow> bool" where
  "ca_denotes N dflt r q \<longleftrightarrow> peer_denotes N dflt r q \<and> (case q of (p, remote) \<Rightarrow>
     r_ca_sha r = None \<and> r_ca_name r = None
     \<or> r_ca_sha r = Some (pi_ca_sha remote) \<or> r_ca_name r = Some (pi_ca_name remote))"

definition proto_covers :: "protocol \<Rightarrow> protocol \<Rightarrow> bool" where
  "proto_covers rp pp \<longleftrightarrow>
     (case rp of AnyProto \<Rightarrow> True | Tcp \<Rightarrow> pp = Tcp | Udp \<Rightarrow> pp = Udp
      | Icmp \<Rightarrow> pp \<in> {Icmp, IcmpV6} | IcmpV6 \<Rightarrow> pp \<in> {Icmp, IcmpV6} | Other _ \<Rightarrow> False)"

definition flow_port :: "packet \<Rightarrow> bool \<Rightarrow> u16" where
  "flow_port p incoming = (if incoming then local_port p else remote_port p)"

text \<open>Port 0 is the any-port key, so a selector that covers port 0 covers every packet.\<close>

fun port_covers :: "port_spec \<Rightarrow> packet \<Rightarrow> bool \<Rightarrow> bool" where
  "port_covers PortAny p incoming = True"
| "port_covers PortFragment p incoming = fragment p"
| "port_covers (PortSingle q) p incoming = (q = 0 \<or> \<not> fragment p \<and> flow_port p incoming = q)"
| "port_covers (PortRange s e) p incoming =
     (s \<le> e \<and> (s = 0 \<or> \<not> fragment p \<and> s \<le> flow_port p incoming \<and> flow_port p incoming \<le> e))"

definition rule_accepted :: "'net rule \<Rightarrow> bool" where
  "rule_accepted r \<longleftrightarrow>
     (\<forall>v. r_proto r \<noteq> Other v) \<and> (\<forall>s e. r_port r = PortRange s e \<longrightarrow> s \<le> e)"

definition rule_denotes ::
  "'net ipnet_ops \<Rightarrow> 'net lc_default \<Rightarrow> 'net rule
     \<Rightarrow> packet \<times> bool \<times> 'net peer_identity \<Rightarrow> bool" where
  "rule_denotes N dflt r q \<longleftrightarrow> (case q of (p, incoming, remote) \<Rightarrow>
     rule_accepted r \<and> r_incoming r = incoming \<and> proto_covers (r_proto r) (protocol p)
     \<and> (r_proto r \<in> {Icmp, IcmpV6} \<or> port_covers (r_port r) p incoming)
     \<and> ca_denotes N dflt r (p, remote))"

section \<open>The levels of the tree are additive\<close>

lemma is_any_iff:
  "is_any groups host cidr \<longleftrightarrow>
     groups = [] \<and> host = None \<and> cidr = None \<or> ''any'' \<in> set groups \<or> host = Some ''any''"
  by (auto simp: is_any_def list_ex_iff)

interpretation lc: additive_matcher local_cidr_default "merge_local_cidr dflt"
  "local_cidr_matches N" "local_denotes N dflt" "\<lambda>_. True" for N dflt
proof
  fix t r q
  show "local_cidr_matches N (merge_local_cidr dflt r t) q \<longleftrightarrow>
      local_cidr_matches N t q \<or> local_denotes N dflt r q"
    by (cases r; cases dflt) (auto simp: merge_local_cidr_def local_cidr_matches_iff)
qed (auto simp: local_cidr_matches_iff local_cidr_default_def)

lemma merge_cidr_entry_matches:
  "(\<exists>(n, lc) \<in> set (merge_cidr_entry (merge_local_cidr dflt spec) c xs).
      net_contains N n a \<and> local_cidr_matches N lc p) \<longleftrightarrow>
   (\<exists>(n, lc) \<in> set xs. net_contains N n a \<and> local_cidr_matches N lc p)
   \<or> net_contains N c a \<and> local_denotes N dflt spec p"
proof (induction xs)
  case Nil
  show ?case by (simp add: lc.matches_single)
next
  case (Cons x xs)
  obtain n lc where x: "x = (n, lc)" by (cases x)
  show ?case
  proof (cases "n = c")
    case True
    then show ?thesis by (simp add: x lc.matches_add) blast
  next
    case False
    then show ?thesis by (simp add: x Cons.IH)
  qed
qed

lemma peer_rule_default_matches [simp]: "\<not> peer_rule_matches N peer_rule_default p remote"
  by (simp add: peer_rule_matches_iff peer_rule_default_def)

lemma add_to_peer_rule_matches:
  "peer_rule_matches N (add_to_peer_rule dflt r pr) p remote \<longleftrightarrow>
     peer_rule_matches N pr p remote \<or> peer_denotes N dflt r (p, remote)"
proof (cases "is_any (r_groups r) (r_host r) (r_cidr r)")
  case True
  then show ?thesis
    by (auto simp: add_to_peer_rule_def peer_denotes_def peer_rule_matches_iff
        get_or_insert_with_def lc.matches_option_default)
next
  case False
  then show ?thesis
    by (cases "r_host r"; cases "r_cidr r"; cases "r_groups r = []")
      (simp_all add: add_to_peer_rule_def peer_denotes_def peer_rule_matches_iff Let_def
        entry_or_default_def merge_cidr_entry_matches lc.matches_single
        lc.matches_option_default; blast)+
qed

interpretation pr: additive_matcher peer_rule_default "add_to_peer_rule dflt"
  "\<lambda>pr (p, remote). peer_rule_matches N pr p remote" "peer_denotes N dflt" "\<lambda>_. True" for N dflt
  by unfold_locales (auto simp: add_to_peer_rule_matches)

lemma add_to_ca_rule_matches:
  "ca_rule_matches N (add_to_ca_rule dflt r ca) p remote \<longleftrightarrow>
     ca_rule_matches N ca p remote \<or> ca_denotes N dflt r (p, remote)"
proof (cases "r_ca_sha r = None \<and> r_ca_name r = None")
  case True
  then show ?thesis
    by (auto simp: add_to_ca_rule_def ca_denotes_def ca_rule_matches_iff get_or_insert_with_def
        add_to_peer_rule_matches split: option.split)
next
  case False
  then show ?thesis
    by (cases "r_ca_sha r"; cases "r_ca_name r")
      (auto simp: add_to_ca_rule_def ca_denotes_def ca_rule_matches_iff entry_or_default_def
        add_to_peer_rule_matches Let_def split: option.split if_splits)
qed

interpretation ca: additive_matcher ca_rule_default "add_to_ca_rule dflt"
  "\<lambda>ca (p, remote). ca_rule_matches N ca p remote" "ca_denotes N dflt" "\<lambda>_. True" for N dflt
  by unfold_locales (auto simp: add_to_ca_rule_matches, simp add: ca_rule_matches_iff ca_rule_default_def)

subsection \<open>Port tables\<close>

lemma fold_entry_lookup:
  "distinct ks \<Longrightarrow> fold (\<lambda>k t. entry_or_default d f k t) ks t k =
     (if k \<in> set ks then Some (f (case t k of Some v \<Rightarrow> v | None \<Rightarrow> d)) else t k)"
  by (induction ks arbitrary: t) (auto simp: entry_or_default_def)

lemma fill_ports_lookup:
  "fill_ports dflt r s e t k =
     (if s \<le> k \<and> k \<le> e
      then Some (add_to_ca_rule dflt r (case t k of Some v \<Rightarrow> v | None \<Rightarrow> ca_rule_default))
      else t k)"
  by (auto simp: fill_ports_def fold_entry_lookup)

lemma ca_rule_default_matches [simp]: "\<not> ca_rule_matches N ca_rule_default p remote"
  by (simp add: ca_rule_matches_iff ca_rule_default_def)

lemma fill_ports_matches:
  "port_table_matches N (fill_ports dflt r s e t) p incoming remote \<longleftrightarrow>
     port_table_matches N t p incoming remote
     \<or> ca_denotes N dflt r (p, remote)
        \<and> (\<exists>k \<in> {lookup_port p incoming, PORT_ANY}. s \<le> k \<and> k \<le> e)"
proof -
  have key: "(\<exists>c. fill_ports dflt r s e t k = Some c \<and> ca_rule_matches N c p remote) \<longleftrightarrow>
      (\<exists>c. t k = Some c \<and> ca_rule_matches N c p remote)
      \<or> s \<le> k \<and> k \<le> e \<and> ca_denotes N dflt r (p, remote)" for k
    by (auto simp: fill_ports_lookup add_to_ca_rule_matches split: option.split)
  show ?thesis
    unfolding port_table_matches_iff key by blast
qed

text \<open>The ports a rule is filed under, and that looking them up is what \<open>port_covers\<close> says.\<close>

lemma port_bounds_covers:
  assumes "port_bounds ps = Inr (s, e)"
  shows "(\<exists>k \<in> {lookup_port p incoming, PORT_ANY}. s \<le> k \<and> k \<le> e) \<longleftrightarrow> port_covers ps p incoming"
proof -
  have z: "uint q \<le> 0 \<longleftrightarrow> q = 0" for q :: u16
    by (metis uint_0_iff uint_ge_0 order_antisym order_refl)
  have nz: "\<not> uint q \<le> -1" "-1 \<noteq> uint q" "uint q \<noteq> -1" for q :: u16
    using uint_ge_0 [of q] by linarith+
  have inj: "uint q = uint q' \<longleftrightarrow> q = q'" for q q' :: u16
    by (simp add: word_uint_eq_iff)
  show ?thesis
    using assms
    by (cases ps; cases "fragment p"; cases incoming)
      (auto simp: port_bounds_def lookup_port_def flow_port_def PORT_ANY_def PORT_FRAGMENT_def z nz inj
        word_le_def word_less_alt uint_0_iff split: if_splits)
qed

subsection \<open>Directions and the whole builder\<close>

lemma update_table_matches:
  assumes "\<And>v. proto \<noteq> Other v"
    and f: "\<And>t. port_table_matches N (f t) p incoming remote \<longleftrightarrow>
      port_table_matches N t p incoming remote \<or> D"
  shows "direction_matches N (update_table proto f d) p incoming remote \<longleftrightarrow>
      direction_matches N d p incoming remote \<or> proto_covers proto (protocol p) \<and> D"
  using assms
  by (cases proto; cases "protocol p") (auto simp: direction_matches_def proto_covers_def)

text \<open>The two ways a rule is refused, in the order the code checks them.\<close>

lemma add_rule_cases:
  obtains (range) s e where "r_port r = PortRange s e" "e < s"
      "add_rule r b = Inl (InvalidPortRange s e)"
  | (proto) v where "\<forall>s e. r_port r = PortRange s e \<longrightarrow> s \<le> e" "r_proto r = Other v"
      "add_rule r b = Inl (UnknownProtocol (Other v))"
  | (ok) b' where "rule_accepted r" "add_rule r b = Inr b'"
proof (cases "\<exists>s e. r_port r = PortRange s e \<and> e < s")
  case True
  then show ?thesis using range by (auto simp: add_rule_def port_bounds_def)
next
  case False
  then obtain bounds where "port_bounds (r_port r) = Inr bounds"
    by (cases "r_port r") (auto simp: port_bounds_def)
  with False show ?thesis
    using proto ok by (cases "r_proto r"; cases bounds)
      (auto simp: add_rule_def rule_accepted_def Let_def not_less split: if_splits)
qed

lemma add_rule_accepted_iff: "(\<exists>b'. add_rule r b = Inr b') \<longleftrightarrow> rule_accepted r"
  by (rule add_rule_cases [of r b]) (auto simp: rule_accepted_def)

lemma add_rule_matches:
  assumes "add_rule r b = Inr b'"
  shows "ruleset_matches N (build b') p incoming remote \<longleftrightarrow>
     ruleset_matches N (build b) p incoming remote
     \<or> rule_denotes N (b_default b) r (p, incoming, remote)"
proof -
  define icmp where "icmp \<longleftrightarrow> r_proto r \<in> {Icmp, IcmpV6} \<and> r_port r \<noteq> PortAny"
  have acc: "rule_accepted r" using assms add_rule_accepted_iff by blast
  obtain s e where bounds: "port_bounds (r_port r) = Inr (s, e)"
    using assms by (cases "port_bounds (r_port r)") (auto simp: add_rule_def)
  define s' where "s' = (if icmp then PORT_ANY else s)"
  define e' where "e' = (if icmp then PORT_ANY else e)"
  obtain ws where b': "b' = update_direction (r_incoming r)
      (update_table (r_proto r) (fill_ports (b_default b) r s' e')) (b\<lparr>b_warnings := ws\<rparr>)"
    using assms bounds acc unfolding s'_def e'_def icmp_def
    by (cases "r_proto r") (auto simp: add_rule_def rule_accepted_def Let_def)
  have covers: "(\<exists>k \<in> {lookup_port p incoming, PORT_ANY}. s' \<le> k \<and> k \<le> e') \<longleftrightarrow>
      r_proto r \<in> {Icmp, IcmpV6} \<or> port_covers (r_port r) p incoming" if "r_incoming r = incoming"
    using port_bounds_covers [OF bounds, of p incoming] bounds
    by (cases "r_proto r \<in> {Icmp, IcmpV6}"; cases "r_port r = PortAny")
      (auto simp: s'_def e'_def icmp_def port_bounds_def)
  have "direction_matches N (update_table (r_proto r) (fill_ports (b_default b) r s' e') d) p incoming remote
      \<longleftrightarrow> direction_matches N d p incoming remote
        \<or> rule_denotes N (b_default b) r (p, incoming, remote)" if "r_incoming r = incoming" for d
    using acc that covers
    by (subst update_table_matches [OF _ fill_ports_matches])
      (auto simp: rule_denotes_def rule_accepted_def)
  then show ?thesis
    by (cases "r_incoming r"; cases incoming)
      (auto simp: b' build_def ruleset_matches_def update_direction_def rule_denotes_def)
qed

lemma add_rule_default: "add_rule r b = Inr b' \<Longrightarrow> b_default b' = b_default b"
  by (auto simp: add_rule_def Let_def update_direction_def split: sum.splits protocol.splits if_splits)

lemma direction_default_matches [simp]: "\<not> direction_matches N direction_default p incoming remote"
  by (cases "protocol p")
    (simp_all add: direction_matches_def direction_default_def port_table_matches_iff)

lemma build_new_matches [simp]:
  "\<not> ruleset_matches N (build (builder_new nets unsafe any)) p incoming remote"
  by (simp add: ruleset_matches_def build_def builder_new_def)

interpretation bld: additive_matcher "builder_new nets unsafe any" add_rule_or_skip
  "\<lambda>b (p, incoming, remote). ruleset_matches N (build b) p incoming remote"
  "rule_denotes N (b_default (builder_new nets unsafe any))"
  "\<lambda>b. b_default b = b_default (builder_new nets unsafe any)" for N nets unsafe any
proof
  fix t :: "'a builder" and r :: "'a rule" and q :: "packet \<times> bool \<times> 'a peer_identity"
  assume inv: "b_default t = b_default (builder_new nets unsafe any)"
  show "b_default (add_rule_or_skip r t) = b_default (builder_new nets unsafe any)"
    using inv by (auto simp: add_rule_or_skip_def dest: add_rule_default split: sum.split)
  obtain p incoming remote where q: "q = (p, incoming, remote)" by (cases q)
  have "\<not> rule_accepted r" if "add_rule r t = Inl x" for x
    using that add_rule_accepted_iff [of r t] by auto
  then show "(case q of (p, incoming, remote) \<Rightarrow>
        ruleset_matches N (build (add_rule_or_skip r t)) p incoming remote) \<longleftrightarrow>
      (case q of (p, incoming, remote) \<Rightarrow> ruleset_matches N (build t) p incoming remote)
      \<or> rule_denotes N (b_default (builder_new nets unsafe any)) r q"
    by (cases "add_rule r t")
      (auto simp: q add_rule_or_skip_def add_rule_matches inv rule_denotes_def)
qed (auto simp: build_new_matches)

section \<open>Properties\<close>

text \<open>C4: The tree built from a list of rules matches a packet for a peer exactly when one of the
  rules does, read on its own: every level of the tree, its merging of local CIDRs under hosts
  and CIDRs, the port ranges, the any-port fallback and the default local CIDR together denote
  the union of the accepted rules; a refused rule contributes nothing.\<close>

theorem built_ruleset_matches_iff:
  "ruleset_matches N (build (fold add_rule_or_skip rs (builder_new nets unsafe any))) p incoming remote
   \<longleftrightarrow> (\<exists>r \<in> set rs. rule_denotes N (b_default (builder_new nets unsafe any)) r (p, incoming, remote))"
  using bld.matches_built [of N _ _ _ _ "(p, incoming, remote)"] by simp

text \<open>\<open>add_rule\<close> fails exactly on an inverted port range, and otherwise on an unknown
  protocol; the port range is reported first, for ICMP rules too.\<close>

theorem add_rule_error_iff:
  "add_rule r b = Inl err \<longleftrightarrow>
     (\<exists>s e. r_port r = PortRange s e \<and> e < s \<and> err = InvalidPortRange s e)
     \<or> \<not> (\<exists>s e. r_port r = PortRange s e \<and> e < s)
        \<and> (\<exists>v. r_proto r = Other v \<and> err = UnknownProtocol (Other v))"
  by (rule add_rule_cases [of r b]) (auto simp: rule_accepted_def)

text \<open>The sanity check only appends warnings, and it appends one exactly when the rule matches
  every peer although it names more than one selector, that is when a selector the caller gave
  is silently ignored.\<close>

theorem check_sanity_warns_iff:
  "\<exists>new. check_sanity incoming groups host cidr ws = ws @ new \<and>
     (new \<noteq> [] \<longleftrightarrow> is_any groups host cidr \<and>
        1 < length groups + length (case host of Some h \<Rightarrow> [h] | None \<Rightarrow> [])
          + length (case cidr of Some c \<Rightarrow> [c] | None \<Rightarrow> []))"
proof (cases "''any'' \<in> set groups")
  case True
  then have "groups \<noteq> []" by auto
  with True show ?thesis
    by (cases host; cases cidr) (auto simp: check_sanity_def is_any_def list_ex_iff Let_def)
next
  case False
  then show ?thesis
    by (cases host; cases cidr)
      (auto simp: check_sanity_def is_any_def list_ex_iff Let_def)
qed

end
