(* ===== verification/Kernel.thy ===== *)
theory Kernel
  imports Std_Net Std_String "HOL-Library.Multiset"
begin

text \<open>
  What the program asks of the operating system. The kernel is a parameter, one function per system
  call, whose answers may depend on everything that happened before; a computation returns its
  result and the log of its calls with their outcomes, including the \<open>close\<close> of every descriptor
  that is dropped. Results are sums: \<open>io::Error\<close> on the left, or any error into which a program
  that may also panic wraps it. \<open>owes\<close> is the accounting of descriptors.
\<close>

section \<open>Requests of ioctl\<close>

text \<open>\<open>s_addr\<close> is kept as the four octets it has in memory: \<open>to_be\<close> makes them network order on
  every host. A \<open>c_char\<close> is kept as the byte it is cast from.\<close>

record sockaddr_in =
  sin_family :: u16
  sin_port :: u16
  sin_addr :: bytes

definition AF_INET :: u16 where "AF_INET = 2"
definition AF_INET6 :: u16 where "AF_INET6 = 10"

definition sockaddr_in_v4 :: "u32 \<Rightarrow> sockaddr_in" where
  "sockaddr_in_v4 a = \<lparr>sin_family = AF_INET, sin_port = 0, sin_addr = to_be 4 a\<rparr>"

datatype ifreq =
    IfReqShort bytes u16
  | IfReqSockaddr bytes sockaddr_in
  | IfReqInt bytes u32
  | In6Ifreq bytes u32 u32

section \<open>System calls\<close>

text \<open>What the code reads back of an \<open>ifreq\<close>: the flags, or the index.\<close>

record ioctl_reply =
  reply_data :: u16
  reply_val :: u32

type_synonym fd = nat

datatype event =
    Opened fd
  | OpenFailed
  | SocketOpened u16 fd
  | SocketFailed u16
  | Ioctl fd u64 ifreq bool
  | FileWritten string string bool
  | FileRead string bool
  | FlagsRead fd bool
  | FlagsSet fd u32 bool
  | Registered fd bool
  | UdpBound socketaddr fd
  | UdpBindFailed socketaddr
  | UdpNonblocking fd bool
  | UdpLocalAddr fd bool
  | Closed fd

record kernel =
  sys_open :: "event list \<Rightarrow> nat + fd"
  sys_socket :: "event list \<Rightarrow> u16 \<Rightarrow> nat + fd"
  sys_ioctl :: "event list \<Rightarrow> fd \<Rightarrow> u64 \<Rightarrow> ifreq \<Rightarrow> nat + ioctl_reply"
  sys_write_file :: "event list \<Rightarrow> string \<Rightarrow> string \<Rightarrow> nat + unit"
  sys_read_file :: "event list \<Rightarrow> string \<Rightarrow> nat + bytes"
  sys_getfl :: "event list \<Rightarrow> fd \<Rightarrow> nat + u32"
  sys_setfl :: "event list \<Rightarrow> fd \<Rightarrow> u32 \<Rightarrow> nat + unit"
  sys_register :: "event list \<Rightarrow> fd \<Rightarrow> nat + unit"
  sys_udp_bind :: "event list \<Rightarrow> socketaddr \<Rightarrow> nat + fd"
  sys_udp_nonblocking :: "event list \<Rightarrow> fd \<Rightarrow> nat + unit"
  sys_udp_local_addr :: "event list \<Rightarrow> fd \<Rightarrow> nat + socketaddr"

type_synonym ('e, 'a) prog = "event list \<Rightarrow> ('e + 'a) \<times> event list"
type_synonym 'a io = "(io_error, 'a) prog"

definition io_bind :: "('e, 'a) prog \<Rightarrow> ('a \<Rightarrow> ('e, 'b) prog) \<Rightarrow> ('e, 'b) prog" where
  "io_bind m f log = (case m log of (Inl e, log) \<Rightarrow> (Inl e, log) | (Inr x, log) \<Rightarrow> f x log)"

definition io_lift :: "'e + 'a \<Rightarrow> ('e, 'a) prog" where
  "io_lift r log = (r, log)"

definition io_err :: "('e \<Rightarrow> 'f) \<Rightarrow> ('e, 'a) prog \<Rightarrow> ('f, 'a) prog" where
  "io_err w m log = (case m log of (Inl e, log) \<Rightarrow> (Inl (w e), log) | (Inr x, log) \<Rightarrow> (Inr x, log))"

text \<open>How code that may also panic stops early.\<close>

datatype stop = Panic string | Failed io_error

text \<open>One call: the answer, and the event that records it.\<close>

definition syscall :: "(event list \<Rightarrow> nat + 'a) \<Rightarrow> ('a option \<Rightarrow> event) \<Rightarrow> 'a io" where
  "syscall answer ev log = (case answer log of
     Inl e \<Rightarrow> (Inl (OsError e), log @ [ev None]) | Inr x \<Rightarrow> (Inr x, log @ [ev (Some x)]))"

definition open_tun :: "kernel \<Rightarrow> fd io" where
  "open_tun K = syscall (sys_open K) (case_option OpenFailed Opened)"

definition open_socket :: "kernel \<Rightarrow> u16 \<Rightarrow> fd io" where
  "open_socket K family = syscall (\<lambda>log. sys_socket K log family) (case_option (SocketFailed family) (SocketOpened family))"

definition ioctl :: "kernel \<Rightarrow> fd \<Rightarrow> u64 \<Rightarrow> ifreq \<Rightarrow> ioctl_reply io" where
  "ioctl K fd request arg = syscall (\<lambda>log. sys_ioctl K log fd request arg) (\<lambda>r. Ioctl fd request arg (r \<noteq> None))"

definition write_file :: "kernel \<Rightarrow> string \<Rightarrow> string \<Rightarrow> unit io" where
  "write_file K path contents =
     syscall (\<lambda>log. sys_write_file K log path contents) (\<lambda>r. FileWritten path contents (r \<noteq> None))"

definition read_file :: "kernel \<Rightarrow> string \<Rightarrow> bytes io" where
  "read_file K path = syscall (\<lambda>log. sys_read_file K log path) (\<lambda>r. FileRead path (r \<noteq> None))"

text \<open>\<open>fcntl\<close> with \<open>F_GETFL\<close> and \<open>F_SETFL\<close>; the registration of a descriptor with tokio's reactor
  (\<open>AsyncFd::new\<close>, \<open>UdpSocket::from_std\<close>).\<close>

definition fcntl_getfl :: "kernel \<Rightarrow> fd \<Rightarrow> u32 io" where
  "fcntl_getfl K fd = syscall (\<lambda>log. sys_getfl K log fd) (\<lambda>r. FlagsRead fd (r \<noteq> None))"

definition fcntl_setfl :: "kernel \<Rightarrow> fd \<Rightarrow> u32 \<Rightarrow> unit io" where
  "fcntl_setfl K fd flags = syscall (\<lambda>log. sys_setfl K log fd flags) (\<lambda>r. FlagsSet fd flags (r \<noteq> None))"

definition reactor_register :: "kernel \<Rightarrow> fd \<Rightarrow> unit io" where
  "reactor_register K fd = syscall (\<lambda>log. sys_register K log fd) (\<lambda>r. Registered fd (r \<noteq> None))"

definition udp_bind :: "kernel \<Rightarrow> socketaddr \<Rightarrow> fd io" where
  "udp_bind K addr = syscall (\<lambda>log. sys_udp_bind K log addr) (case_option (UdpBindFailed addr) (UdpBound addr))"

definition udp_set_nonblocking :: "kernel \<Rightarrow> fd \<Rightarrow> unit io" where
  "udp_set_nonblocking K fd = syscall (\<lambda>log. sys_udp_nonblocking K log fd) (\<lambda>r. UdpNonblocking fd (r \<noteq> None))"

definition udp_local_addr :: "kernel \<Rightarrow> fd \<Rightarrow> socketaddr io" where
  "udp_local_addr K fd = syscall (\<lambda>log. sys_udp_local_addr K log fd) (\<lambda>r. UdpLocalAddr fd (r \<noteq> None))"

text \<open>A descriptor that lives to the end of the scope, and one that is moved out on success.\<close>

definition closing :: "fd \<Rightarrow> ('e, 'a) prog \<Rightarrow> ('e, 'a) prog" where
  "closing fd m log = (let (r, log) = m log in (r, log @ [Closed fd]))"

definition closing_on_error :: "fd \<Rightarrow> ('e, 'a) prog \<Rightarrow> ('e, 'a) prog" where
  "closing_on_error fd m log = (case m log of (Inl e, log) \<Rightarrow> (Inl e, log @ [Closed fd]) | (Inr x, log) \<Rightarrow> (Inr x, log))"

lemma io_bind_Inr:
  "io_bind m f log = (Inr y, log'') \<longleftrightarrow> (\<exists>x log'. m log = (Inr x, log') \<and> f x log' = (Inr y, log''))"
  by (auto simp: io_bind_def split: prod.splits sum.splits)

lemma io_bind_Inl:
  "io_bind m f log = (Inl e, log'') \<longleftrightarrow>
     m log = (Inl e, log'') \<or> (\<exists>x log'. m log = (Inr x, log') \<and> f x log' = (Inl e, log''))"
  by (auto simp: io_bind_def split: prod.splits sum.splits)

lemma io_lift_Inr: "io_lift r log = (Inr x, log') \<longleftrightarrow> r = Inr x \<and> log' = log"
  by (auto simp: io_lift_def)

lemma io_err_Inr: "io_err w m log = (Inr x, log') \<longleftrightarrow> m log = (Inr x, log')"
  by (auto simp: io_err_def split: prod.split sum.split)

lemma io_err_Inl: "io_err w m log = (Inl e, log') \<longleftrightarrow> (\<exists>d. m log = (Inl d, log') \<and> e = w d)"
  by (auto simp: io_err_def split: prod.split sum.split)

lemma syscall_Inr:
  "syscall answer ev log = (Inr x, log') \<longleftrightarrow> answer log = Inr x \<and> log' = log @ [ev (Some x)]"
  by (auto simp: syscall_def split: sum.split)

lemma syscall_Inl:
  "syscall answer ev log = (Inl e, log') \<longleftrightarrow> (\<exists>n. answer log = Inl n \<and> e = OsError n) \<and> log' = log @ [ev None]"
  by (auto simp: syscall_def split: sum.split)

lemma closing_Inr:
  "closing fd m log = (Inr x, log'') \<longleftrightarrow> (\<exists>log'. m log = (Inr x, log') \<and> log'' = log' @ [Closed fd])"
  by (auto simp: closing_def Let_def split: prod.split)

lemma closing_on_error_Inr: "closing_on_error fd m log = (Inr x, log') \<longleftrightarrow> m log = (Inr x, log')"
  by (auto simp: closing_on_error_def split: prod.split sum.split)

lemmas syscall_defs = open_tun_def open_socket_def ioctl_def write_file_def read_file_def fcntl_getfl_def
  fcntl_setfl_def reactor_register_def udp_bind_def udp_set_nonblocking_def udp_local_addr_def

lemmas io_Inr = io_bind_Inr io_lift_Inr io_err_Inr syscall_Inr closing_Inr closing_on_error_Inr

section \<open>Descriptors\<close>

fun opened :: "event list \<Rightarrow> fd list" where
  "opened [] = []"
| "opened (Opened fd # log) = fd # opened log"
| "opened (SocketOpened _ fd # log) = fd # opened log"
| "opened (UdpBound _ fd # log) = fd # opened log"
| "opened (_ # log) = opened log"

fun closed :: "event list \<Rightarrow> fd list" where
  "closed [] = []"
| "closed (Closed fd # log) = fd # closed log"
| "closed (_ # log) = closed log"

lemma opened_append [simp]: "opened (xs @ ys) = opened xs @ opened ys"
  by (induction xs rule: opened.induct) auto

lemma closed_append [simp]: "closed (xs @ ys) = closed xs @ closed ys"
  by (induction xs rule: closed.induct) auto

text \<open>\<open>owes H D m\<close>: begun with the descriptors \<open>H\<close>, the computation \<open>m\<close> closes these and
  what it opens, except the descriptors \<open>D r\<close> that are left to the owner of its result.\<close>

definition owes :: "fd multiset \<Rightarrow> ('e + 'a \<Rightarrow> fd multiset) \<Rightarrow> ('e, 'a) prog \<Rightarrow> bool" where
  "owes H D m \<longleftrightarrow> (\<forall>log. \<exists>new. snd (m log) = log @ new \<and>
     H + mset (opened new) = mset (closed new) + D (fst (m log)))"

text \<open>Nothing is held but on success the descriptor that is the result.\<close>

definition result_fd :: "'e + fd \<Rightarrow> fd multiset" where
  "result_fd r = (case r of Inl _ \<Rightarrow> {#} | Inr fd \<Rightarrow> {#fd#})"

lemma result_fd_simps [simp]: "result_fd (Inl e) = {#}" "result_fd (Inr fd) = {#fd#}"
  by (simp_all add: result_fd_def)

abbreviation balanced :: "('e, 'a) prog \<Rightarrow> bool" where
  "balanced \<equiv> owes {#} (\<lambda>_. {#})"

lemma owesI:
  assumes "\<And>log. \<exists>r new. m log = (r, log @ new) \<and> H + mset (opened new) = mset (closed new) + D r"
  shows "owes H D m"
  unfolding owes_def using assms by (metis fst_conv snd_conv)

lemma owesE:
  assumes "owes H D m"
  obtains r new where "m log = (r, log @ new)" and "H + mset (opened new) = mset (closed new) + D r"
  using assms unfolding owes_def by (metis prod.collapse)

lemma owes_frame: "owes H D m \<Longrightarrow> owes (H + F) (\<lambda>r. D r + F) m"
  unfolding owes_def by (metis union_assoc union_commute)

lemma owes_lift: "D r = H \<Longrightarrow> owes H D (io_lift r)"
  by (rule owesI) (simp add: io_lift_def)

lemma owes_err:
  assumes "owes H (\<lambda>r. D (map_sum w id r)) m"
  shows "owes H D (io_err w m)"
proof (rule owesI)
  fix log
  obtain r new where "m log = (r, log @ new)" "H + mset (opened new) = mset (closed new) + D (map_sum w id r)"
    by (rule owesE [OF assms])
  then show "\<exists>r new. io_err w m log = (r, log @ new) \<and> H + mset (opened new) = mset (closed new) + D r"
    by (cases r) (auto simp: io_err_def)
qed

lemma owes_syscall:
  assumes "H + mset (opened [ev None]) = mset (closed [ev None]) + E"
    and "\<And>x. H + mset (opened [ev (Some x)]) = mset (closed [ev (Some x)]) + D x"
  shows "owes H (case_sum (\<lambda>_. E) D) (syscall answer ev)"
proof (rule owesI)
  fix log
  show "\<exists>r new. syscall answer ev log = (r, log @ new) \<and>
      H + mset (opened new) = mset (closed new) + (case r of Inl _ \<Rightarrow> E | Inr x \<Rightarrow> D x)"
    using assms by (cases "answer log") (auto simp: syscall_def)
qed

lemma owes_bind:
  assumes "owes H D m" and "\<And>x. owes (D (Inr x)) E (f x)" and "\<And>e. E (Inl e) = D (Inl e)"
  shows "owes H E (io_bind m f)"
proof (rule owesI)
  fix log
  obtain r new where m: "m log = (r, log @ new)" "H + mset (opened new) = mset (closed new) + D r"
    by (rule owesE [OF assms(1), of log])
  show "\<exists>r new. io_bind m f log = (r, log @ new) \<and> H + mset (opened new) = mset (closed new) + E r"
  proof (cases r)
    case (Inl e)
    with m assms(3) show ?thesis by (simp add: io_bind_def)
  next
    case (Inr x)
    obtain r' new' where f: "f x (log @ new) = (r', (log @ new) @ new')"
      and new': "D (Inr x) + mset (opened new') = mset (closed new') + E r'" by (rule owesE [OF assms(2)])
    have "H + mset (opened (new @ new')) = mset (closed new) + (D (Inr x) + mset (opened new'))"
      using m Inr by (simp add: add.assoc [symmetric])
    with m Inr f new' show ?thesis by (simp add: io_bind_def add.assoc)
  qed
qed

lemma owes_closing:
  assumes "owes H D m"
  shows "owes (H + {#fd#}) D (closing fd m)"
proof (rule owesI)
  fix log
  obtain r new where "m log = (r, log @ new)" "H + mset (opened new) = mset (closed new) + D r"
    by (rule owesE [OF assms])
  then show "\<exists>r new. closing fd m log = (r, log @ new) \<and> H + {#fd#} + mset (opened new) = mset (closed new) + D r"
    by (simp add: closing_def)
qed

lemma owes_closing_on_error:
  assumes "owes H (case_sum (\<lambda>_. E) D) m"
  shows "owes (H + {#fd#}) (case_sum (\<lambda>_. E) (\<lambda>x. D x + {#fd#})) (closing_on_error fd m)"
proof (rule owesI)
  fix log
  obtain r new where m: "m log = (r, log @ new)" "H + mset (opened new) = mset (closed new) + (case_sum (\<lambda>_. E) D) r"
    by (rule owesE [OF assms])
  then show "\<exists>r new. closing_on_error fd m log = (r, log @ new) \<and>
      H + {#fd#} + mset (opened new) = mset (closed new) + (case_sum (\<lambda>_. E) (\<lambda>x. D x + {#fd#})) r"
    by (cases r) (simp_all add: closing_on_error_def)
qed

lemma owes_cong:
  assumes "owes H D m" and "\<And>log r log'. m log = (r, log') \<Longrightarrow> D r = E r"
  shows "owes H E m"
proof -
  have "D (fst (m log)) = E (fst (m log))" for log
    by (rule assms(2) [of log _ "snd (m log)"]) simp
  with assms(1) show ?thesis by (simp add: owes_def)
qed

text \<open>Calls that neither open nor close, and those that open a descriptor.\<close>

lemma balanced_syscall:
  assumes "\<And>r. opened [ev r] = []" and "\<And>r. closed [ev r] = []"
  shows "balanced (syscall answer ev)"
  using owes_syscall [where H = "{#}" and ev = ev and E = "{#}" and D = "\<lambda>_. {#}" and answer = answer] assms
  by (simp add: owes_def sum.case_eq_if)

lemma balanced_calls:
  "balanced (ioctl K fd request arg)" "balanced (write_file K path contents)" "balanced (read_file K path)"
  "balanced (fcntl_getfl K fd)" "balanced (fcntl_setfl K fd flags)" "balanced (reactor_register K fd)"
  "balanced (udp_set_nonblocking K fd)" "balanced (udp_local_addr K fd)"
  by (simp_all add: syscall_defs balanced_syscall)

lemma owes_opens: "owes {#} result_fd (open_tun K)" "owes {#} result_fd (open_socket K family)" "owes {#} result_fd (udp_bind K addr)"
  unfolding syscall_defs result_fd_def by (rule owes_syscall; simp)+

lemma balanced_bind:
  assumes "balanced m" and "\<And>x. owes H D (f x)" and "\<And>e. D (Inl e) = H"
  shows "owes H D (io_bind m f)"
proof (rule owes_bind)
  show "owes H (\<lambda>_. H) m" using owes_frame [OF assms(1), of H] by simp
qed (use assms in simp_all)

lemma balanced_lift: "balanced (io_lift r)"
  by (rule owes_lift) simp

text \<open>A descriptor that is kept on success and closed on failure.\<close>

abbreviation guards :: "fd \<Rightarrow> ('e, 'a) prog \<Rightarrow> bool" where
  "guards fd \<equiv> owes {#fd#} (case_sum (\<lambda>_. {#}) (\<lambda>_. {#fd#}))"

lemma guards_closing: "balanced m \<Longrightarrow> guards fd (closing_on_error fd m)"
  using owes_closing_on_error [of "{#}" "{#}" "\<lambda>_. {#}" m fd] by (simp add: owes_def sum.case_eq_if)

lemma guards_bind: "guards fd m \<Longrightarrow> (\<And>x. guards fd (f x)) \<Longrightarrow> guards fd (io_bind m f)"
  by (rule owes_bind [where D = "case_sum (\<lambda>_. {#}) (\<lambda>_. {#fd#})"]) simp_all

text \<open>Wrapping an error changes nothing where the descriptors do not depend on it.\<close>

lemma owes_err_case_sum: "owes H (case_sum (\<lambda>_. E) D) m \<Longrightarrow> owes H (case_sum (\<lambda>_. E) D) (io_err w m)"
proof (rule owes_err)
  have "(\<lambda>r. case_sum (\<lambda>_. E) D (map_sum w id r)) = case_sum (\<lambda>_. E) D"
    by (rule ext) (simp add: map_sum_def split: sum.split)
  then show "owes H (case_sum (\<lambda>_. E) D) m \<Longrightarrow> owes H (\<lambda>r. case_sum (\<lambda>_. E) D (map_sum w id r)) m"
    by simp
qed

lemma result_fd_err: "owes {#} result_fd m \<Longrightarrow> owes {#} result_fd (io_err w m)"
  using owes_err_case_sum [of "{#}" "{#}" "\<lambda>fd. {#fd#}" m w] unfolding result_fd_def [abs_def] .

text \<open>A descriptor that is opened, used and handed out.\<close>

lemma owes_handed_out:
  assumes "owes {#} result_fd acquire" and "\<And>fd. balanced (m fd)"
    and "\<And>fd log x log'. m fd log = (Inr x, log') \<Longrightarrow> x = fd"
  shows "owes {#} result_fd (io_bind acquire (\<lambda>fd. closing_on_error fd (m fd)))"
proof (rule owes_bind [OF assms(1)])
  fix fd
  have "owes ({#} + {#fd#}) (case_sum (\<lambda>_. {#}) (\<lambda>x. {#} + {#fd#})) (closing_on_error fd (m fd))"
    by (rule owes_closing_on_error) (use assms(2) in \<open>simp add: owes_def sum.case_eq_if\<close>)
  then show "owes (result_fd (Inr fd)) result_fd (closing_on_error fd (m fd))"
    unfolding result_fd_simps add_0
    by (rule owes_cong) (auto simp: closing_on_error_Inr dest: assms(3) split: sum.split)
qed simp

text \<open>A descriptor that is opened and closed at the end of the scope.\<close>

lemma owes_scoped:
  assumes "owes {#} result_fd acquire" and "\<And>fd. owes {#} D (m fd)" and "\<And>e. D (Inl e) = {#}"
  shows "owes {#} D (io_bind acquire (\<lambda>fd. closing fd (m fd)))"
proof (rule owes_bind [OF assms(1)])
  fix fd show "owes (result_fd (Inr fd)) D (closing fd (m fd))"
    using owes_closing [OF assms(2), of fd fd] by simp
qed (simp add: assms(3))

section \<open>A kernel that grants everything\<close>

definition granting :: kernel where
  "granting = \<lparr>sys_open = (\<lambda>log. Inr 3), sys_socket = (\<lambda>log family. Inr 4),
     sys_ioctl = (\<lambda>log fd request arg. Inr \<lparr>reply_data = 0x1000, reply_val = 7\<rparr>),
     sys_write_file = (\<lambda>log path contents. Inr ()), sys_read_file = (\<lambda>log path. Inr []),
     sys_getfl = (\<lambda>log fd. Inr 2), sys_setfl = (\<lambda>log fd flags. Inr ()), sys_register = (\<lambda>log fd. Inr ()),
     sys_udp_bind = (\<lambda>log addr. Inr 5), sys_udp_nonblocking = (\<lambda>log fd. Inr ()),
     sys_udp_local_addr = (\<lambda>log fd. Inr (SockV4 0 4242))\<rparr>"

end
