(* ===== verification/Session_Open.thy ===== *)
theory Session_Open
  imports Session_Run Kernel
begin

text \<open>
  The constructors of \<open>nebula-protocol/src/session.rs\<close>: \<open>Session::new\<close>, \<open>from_socket\<close> and
  \<open>build\<close> on the kernel's socket calls, up to the moment the receive loop is spawned; from there on
  \<open>build\<close> is the run \<open>build_run\<close>. The socket is owned by the constructor until the receive loop
  takes it, and closed when the constructor fails before that. The loop never ends, so from then on
  the socket stays open, even if registration fails.
\<close>

section \<open>Constructors\<close>

record 'hs session =
  ses_inner :: "'hs inner"
  ses_inbox :: "(ipaddr \<times> bytes) list"
  ses_local_addr :: socketaddr

definition local_addr_of :: "'hs session \<Rightarrow> socketaddr result" where
  "local_addr_of s = Inr (ses_local_addr s)"

definition build_setup :: "kernel \<Rightarrow> 'hs externs \<Rightarrow> session_config \<Rightarrow> fd \<Rightarrow> (error, 'hs inner \<times> socketaddr) prog" where
  "build_setup K X cfg socket =
     io_bind (io_lift (build_inner X cfg)) (\<lambda>inner.
     io_bind (io_err Io (udp_local_addr K socket)) (\<lambda>addr.
     io_lift (Inr (inner, addr))))"

definition from_socket_setup :: "kernel \<Rightarrow> 'hs externs \<Rightarrow> session_config \<Rightarrow> fd \<Rightarrow> (error, 'hs inner \<times> socketaddr) prog" where
  "from_socket_setup K X cfg sock = closing_on_error sock (
     io_bind (io_err Io (udp_set_nonblocking K sock)) (\<lambda>_.
     io_bind (io_err Io (reactor_register K sock)) (\<lambda>_.
     build_setup K X cfg sock)))"

definition new_setup :: "kernel \<Rightarrow> 'hs externs \<Rightarrow> session_config \<Rightarrow> (error, 'hs inner \<times> socketaddr) prog" where
  "new_setup K X cfg =
     io_bind (io_err Io (udp_bind K (bind_addr cfg))) (\<lambda>socket.
     closing_on_error socket (build_setup K X cfg socket))"

text \<open>The rest of \<open>build\<close>: the session that is handed out, with what its inbox holds by then.\<close>

definition opened_run ::
  "'hs externs \<Rightarrow> session_config \<Rightarrow> 'hs inner \<times> socketaddr \<Rightarrow> effect list \<Rightarrow> 'hs session result \<Rightarrow> bool" where
  "opened_run X cfg setup out res \<longleftrightarrow> (\<exists>r. build_run X cfg (snd setup) out r \<and>
     and_then r (\<lambda>inner. Inr \<lparr>ses_inner = inner, ses_inbox = inbox_of out, ses_local_addr = snd setup\<rparr>) = res)"

section \<open>Ownership of the socket\<close>

lemma balanced_build_setup: "balanced (build_setup K X cfg fd)"
  unfolding build_setup_def by (intro balanced_bind balanced_lift owes_err balanced_calls refl)

text \<open>A constructor that fails before the receive loop runs has closed the socket.\<close>

lemma from_socket_guards: "guards sock (from_socket_setup K X cfg sock)"
  unfolding from_socket_setup_def
  by (intro guards_closing balanced_bind balanced_build_setup owes_err balanced_calls refl)

lemma new_setup_closes:
  assumes "new_setup K X cfg [] = (Inl e, log)"
  shows "mset (opened log) = mset (closed log)"
proof -
  obtain r new where bind: "io_err Io (udp_bind K (bind_addr cfg)) [] = (r, [] @ new)"
    and fds: "{#} + mset (opened new) = mset (closed new) + result_fd r"
    by (rule owesE [OF result_fd_err [OF owes_opens(3)]])
  show ?thesis
  proof (cases r)
    case (Inl e')
    with bind fds assms show ?thesis by (simp add: new_setup_def io_bind_def)
  next
    case (Inr fd)
    obtain r' new' where "closing_on_error fd (build_setup K X cfg fd) new = (r', new @ new')"
      and "{#fd#} + mset (opened new') = mset (closed new') + (case r' of Inl _ \<Rightarrow> {#} | Inr _ \<Rightarrow> {#fd#})"
      by (rule owesE [OF guards_closing [OF balanced_build_setup]])
    with Inr bind fds assms show ?thesis by (auto simp: new_setup_def io_bind_def)
  qed
qed

lemma from_socket_state:
  assumes "from_socket_setup K X cfg sock log = (Inr (s, addr), log')"
  shows "build_inner X cfg = Inr s"
  using assms by (auto simp: from_socket_setup_def build_setup_def io_Inr)

text \<open>What a session has when it is handed out.\<close>

lemma opened_runE:
  assumes "opened_run X cfg setup out (Inr ses)"
  obtains s0 where "build_inner X cfg = Inr s0" and "session_init s0" and "session_run X s0 out (ses_inner ses)"
    and "ses_inbox ses = inbox_of out" and "build_run X cfg (snd setup) out (Inr (ses_inner ses))"
proof -
  from assms have b: "build_run X cfg (snd setup) out (Inr (ses_inner ses))" and "ses_inbox ses = inbox_of out"
    by (auto simp: opened_run_def and_then_eq_Inr)
  moreover from b obtain s0 o1 s1 o2 where "build_inner X cfg = Inr s0" and r: "session_run X s0 o1 s1"
    "register_run X (snd setup) s1 (lighthouses s0) o2 (ses_inner ses) (Inr ())" "out = o1 @ o2"
    by (auto simp: build_run_def and_then_eq_Inr split: sum.splits)
  moreover from r have "session_run X s0 out (ses_inner ses)" using run_trans [OF register_run_run] by blast
  ultimately show thesis using that build_init by blast
qed

end
