(* ===== verification/Conntrack.thy ===== *)
theory Conntrack
  imports Fw_Packet
begin

text \<open>
  \<open>nebula-firewall/src/conntrack.rs\<close>: the connection table with its lazily cleaned expiry
  heap. Instants and durations are numbers of nanoseconds. The table refines an expiring map:
  an entry is visible until its expiry, whatever the heap still holds. The interface the
  firewall relies on is the locale \<open>flow_table\<close>.
\<close>

section \<open>The table\<close>

record conn_entry =
  expires :: nat
  ce_incoming :: bool
  rules_version :: u16

record conntrack =
  conns :: "packet \<rightharpoonup> conn_entry"
  expiry_heap :: "(nat \<times> packet) heap"

definition conntrack_new :: conntrack where
  "conntrack_new = \<lparr>conns = Map.empty, expiry_heap = []\<rparr>"

text \<open>One round of the purge loop, for the slot that was popped.\<close>

definition purge_slot :: "nat \<Rightarrow> packet \<Rightarrow> conntrack \<Rightarrow> conntrack" where
  "purge_slot now p ct =
     (case conns ct p of
        Some entry \<Rightarrow>
          if expires entry \<le> now then ct\<lparr>conns := (conns ct)(p := None)\<rparr>
          else ct\<lparr>expiry_heap := heap_push (expires entry, p) (expiry_heap ct)\<rparr>
      | None \<Rightarrow> ct)"

definition due :: "nat \<Rightarrow> (nat \<times> packet) heap \<Rightarrow> nat" where
  "due now h = length (filter (\<lambda>(t, _). t \<le> now) h)"

lemma due_purge_slot: "due now (expiry_heap (purge_slot now p ct)) = due now (expiry_heap ct)"
  by (auto simp: purge_slot_def due_def heap_push_def filter_insort_key_False split: option.split)

lemma due_pop:
  "heap_peek h = Some (t, q) \<Longrightarrow> \<not> now < t \<Longrightarrow> heap_pop h = Some ((t', p), h') \<Longrightarrow> due now h' < due now h"
  by (cases h) (auto simp: due_def)

function purge_expired :: "nat \<Rightarrow> conntrack \<Rightarrow> conntrack" where
  "purge_expired now ct =
     (case heap_peek (expiry_heap ct) of
        None \<Rightarrow> ct
      | Some (t, _) \<Rightarrow>
          if t > now then ct
          else (case heap_pop (expiry_heap ct) of
                  None \<Rightarrow> ct
                | Some ((_, p), h) \<Rightarrow> purge_expired now (purge_slot now p (ct\<lparr>expiry_heap := h\<rparr>))))"
  by pat_completeness auto
termination
  by (relation "measure (\<lambda>(now, ct). due now (expiry_heap ct))") (auto simp: due_purge_slot due_pop)

declare purge_expired.simps [simp del]

definition conntrack_get :: "packet \<Rightarrow> nat \<Rightarrow> conntrack \<Rightarrow> conntrack \<times> (bool \<times> u16) option" where
  "conntrack_get p now ct =
     (let ct' = purge_expired now ct
      in (ct', map_option (\<lambda>e. (ce_incoming e, rules_version e)) (conns ct' p)))"

text \<open>\<open>now + timeout\<close> panics when the sum is no \<open>Instant\<close>: the seconds of one are an \<open>i64\<close>. An
  \<open>Instant\<close> is kept as its nanoseconds. \<open>conntrack_record\<close> is what \<open>record\<close> does otherwise.\<close>

definition INSTANT_BOUND :: nat where
  "INSTANT_BOUND = 2 ^ 63 * 10 ^ 9"

definition record_panics :: "nat \<Rightarrow> nat \<Rightarrow> bool" where
  "record_panics now timeout \<longleftrightarrow> INSTANT_BOUND \<le> now + timeout"

definition conntrack_record ::
  "packet \<Rightarrow> bool \<Rightarrow> u16 \<Rightarrow> nat \<Rightarrow> nat \<Rightarrow> conntrack \<Rightarrow> conntrack" where
  "conntrack_record p incoming version now timeout ct =
     (let exp = now + timeout;
          is_new = (conns ct p = None);
          ct1 = ct\<lparr>conns := (conns ct)(p \<mapsto>
                  \<lparr>expires = exp, ce_incoming = incoming, rules_version = version\<rparr>)\<rparr>
      in if is_new then ct1\<lparr>expiry_heap := heap_push (exp, p) (expiry_heap ct1)\<rparr> else ct1)"

definition conntrack_remove :: "packet \<Rightarrow> conntrack \<Rightarrow> conntrack" where
  "conntrack_remove p ct = ct\<lparr>conns := (conns ct)(p := None)\<rparr>"

section \<open>Invariant and abstract view\<close>

text \<open>The heap is ordered and every tracked flow has a slot no later than its expiry.\<close>

definition ct_inv :: "conntrack \<Rightarrow> bool" where
  "ct_inv ct \<longleftrightarrow> sorted (expiry_heap ct) \<and>
     (\<forall>p e. conns ct p = Some e \<longrightarrow> (\<exists>t. (t, p) \<in> set (expiry_heap ct) \<and> t \<le> expires e))"

text \<open>What the table promises its client at time \<open>now\<close>: the unexpired entries.\<close>

definition live :: "conntrack \<Rightarrow> nat \<Rightarrow> packet \<rightharpoonup> conn_entry" where
  "live ct now p =
     (case conns ct p of Some e \<Rightarrow> if now < expires e then Some e else None | None \<Rightarrow> None)"

lemma live_purge_slot: "live (purge_slot now p ct) now' = live ct now'" if "now \<le> now'"
  using that by (auto simp: live_def purge_slot_def fun_eq_iff split: option.split)

lemma ct_inv_purge_slot:
  assumes inv: "ct_inv ct" and pop: "heap_pop (expiry_heap ct) = Some ((t, p), h)"
  shows "ct_inv (purge_slot now p (ct\<lparr>expiry_heap := h\<rparr>))"
proof -
  have h: "sorted h" "set (expiry_heap ct) = insert (t, p) (set h)"
    using inv std_heap.invar_pop [OF _ pop] std_heap.elems_pop [OF _ pop]
    by (simp_all add: ct_inv_def)
  have slot: "\<exists>t'. (t', q) \<in> set h \<and> t' \<le> expires e" if "conns ct q = Some e" "q \<noteq> p" for q e
    using inv that h(2) unfolding ct_inv_def by blast
  have push: "sorted (heap_push x h)" "set (heap_push x h) = insert x (set h)" for x
    using h(1) by (simp_all add: std_heap.invar_push std_heap.elems_push)
  show ?thesis
  proof (cases "conns ct p")
    case None
    then have "q \<noteq> p" if "conns ct q = Some e" for q e using that by auto
    with None h(1) slot show ?thesis by (simp add: ct_inv_def purge_slot_def)
  next
    case (Some e)
    have "\<exists>t'. (t', q) \<in> insert (expires e, p) (set h) \<and> t' \<le> expires e'"
      if "conns ct q = Some e'" for q e'
      using slot [OF that] that Some by (cases "q = p") auto
    with Some h(1) slot push show ?thesis by (simp add: ct_inv_def purge_slot_def)
  qed
qed

lemma conns_live: "(\<forall>p e. conns ct p = Some e \<longrightarrow> now < expires e) \<Longrightarrow> conns ct = live ct now"
  by (auto simp: live_def fun_eq_iff split: option.split)

lemma purge_expired_spec:
  "ct_inv ct \<Longrightarrow> ct_inv (purge_expired now ct) \<and> conns (purge_expired now ct) = live ct now"
proof (induction now ct rule: purge_expired.induct)
  case (1 now ct)
  show ?case
  proof (cases "heap_pop (expiry_heap ct)")
    case None
    then have "expiry_heap ct = []" by (cases "expiry_heap ct") auto
    with "1.prems" show ?thesis
      by (auto simp: purge_expired.simps [of now ct] ct_inv_def live_def fun_eq_iff)
  next
    case (Some x)
    then obtain t p h where pop: "heap_pop (expiry_heap ct) = Some ((t, p), h)"
      by (metis prod.collapse)
    then have peek: "heap_peek (expiry_heap ct) = Some (t, p)"
      by (cases "expiry_heap ct") auto
    show ?thesis
    proof (cases "now < t")
      case True
      have "now < fst y" if "y \<in> set (expiry_heap ct)" for y
        by (rule std_heap.peek_above_all [of "expiry_heap ct" now fst])
          (use "1.prems" peek True that in \<open>auto simp: ct_inv_def less_eq_prod_def\<close>)
      then have "now < expires e" if "conns ct q = Some e" for q e
        using "1.prems" that by (fastforce simp: ct_inv_def)
      with True peek "1.prems" show ?thesis
        by (auto simp: purge_expired.simps [of now ct] intro!: conns_live)
    next
      case False
      let ?ct' = "purge_slot now p (ct\<lparr>expiry_heap := h\<rparr>)"
      have "ct_inv ?ct'" using "1.prems" pop by (rule ct_inv_purge_slot)
      then have "ct_inv (purge_expired now ?ct') \<and> conns (purge_expired now ?ct') = live ?ct' now"
        using "1.IH" peek pop False by auto
      moreover have "live ?ct' now = live ct now"
        by (simp add: live_purge_slot) (simp add: live_def fun_eq_iff)
      ultimately show ?thesis
        using peek pop False by (simp add: purge_expired.simps [of now ct])
    qed
  qed
qed

lemmas ct_inv_purge = purge_expired_spec [THEN conjunct1]
lemmas conns_purge = purge_expired_spec [THEN conjunct2]

lemma ct_inv_new [simp]: "ct_inv conntrack_new"
  by (simp add: ct_inv_def conntrack_new_def)

lemma ct_inv_get: "ct_inv ct \<Longrightarrow> ct_inv (fst (conntrack_get p now ct))"
  by (simp add: conntrack_get_def Let_def ct_inv_purge)

lemma ct_inv_remove: "ct_inv ct \<Longrightarrow> ct_inv (conntrack_remove p ct)"
  by (auto simp: ct_inv_def conntrack_remove_def)

text \<open>A refresh never moves an expiry back: the precondition of \<open>record\<close>. The clock is
  monotonic and the timeout of a packet depends on its protocol only, so its callers meet it.\<close>

definition extends :: "conntrack \<Rightarrow> packet \<Rightarrow> nat \<Rightarrow> bool" where
  "extends ct p exp \<longleftrightarrow> (\<forall>e. conns ct p = Some e \<longrightarrow> expires e \<le> exp)"

lemma ct_inv_record:
  assumes "ct_inv ct" and "extends ct p (now + timeout)"
  shows "ct_inv (conntrack_record p incoming version now timeout ct)"
  using assms std_heap.invar_push [of "expiry_heap ct"] std_heap.elems_push [of "expiry_heap ct"]
  by (fastforce simp: ct_inv_def extends_def conntrack_record_def Let_def)

lemma conns_record:
  "conns (conntrack_record p incoming version now timeout ct) = (conns ct)(p \<mapsto>
     \<lparr>expires = now + timeout, ce_incoming = incoming, rules_version = version\<rparr>)"
  by (simp add: conntrack_record_def Let_def)

lemma live_record:
  "live (conntrack_record p incoming version now timeout ct) now' =
     (live ct now')(p := if now' < now + timeout
        then Some \<lparr>expires = now + timeout, ce_incoming = incoming, rules_version = version\<rparr>
        else None)"
  by (auto simp: live_def conntrack_record_def Let_def fun_eq_iff split: option.split)

lemma live_remove: "live (conntrack_remove p ct) now = (live ct now)(p := None)"
  by (auto simp: live_def conntrack_remove_def fun_eq_iff)

lemma live_live:
  assumes "conns ct' = live ct now" and "now \<le> now'"
  shows "live ct' now' = live ct now'"
  using assms by (auto simp: live_def fun_eq_iff split: option.splits)

section \<open>The interface of the table\<close>

locale flow_table =
  fixes new_table :: "'s"
    and get_flow :: "'p \<Rightarrow> nat \<Rightarrow> 's \<Rightarrow> 's \<times> (bool \<times> u16) option"
    and record_flow :: "'p \<Rightarrow> bool \<Rightarrow> u16 \<Rightarrow> nat \<Rightarrow> nat \<Rightarrow> 's \<Rightarrow> 's"
    and remove_flow :: "'p \<Rightarrow> 's \<Rightarrow> 's"
    and invar :: "'s \<Rightarrow> bool"
    and may_record :: "'s \<Rightarrow> 'p \<Rightarrow> nat \<Rightarrow> bool"
    and flows :: "'s \<Rightarrow> nat \<Rightarrow> 'p \<rightharpoonup> bool \<times> u16"
  assumes flows_new: "flows new_table now = Map.empty"
    and get_result: "invar s \<Longrightarrow> snd (get_flow p now s) = flows s now p"
    and flows_get: "invar s \<Longrightarrow> now \<le> now' \<Longrightarrow> flows (fst (get_flow p now s)) now' = flows s now'"
    and flows_record: "flows (record_flow p incoming v now timeout s) now' =
      (flows s now')(p := if now' < now + timeout then Some (incoming, v) else None)"
    and flows_remove: "flows (remove_flow p s) now = (flows s now)(p := None)"
    and invar_new: "invar new_table"
    and invar_get: "invar s \<Longrightarrow> invar (fst (get_flow p now s))"
    and invar_record: "invar s \<Longrightarrow> may_record s p (now + timeout) \<Longrightarrow>
      invar (record_flow p incoming v now timeout s)"
    and invar_remove: "invar s \<Longrightarrow> invar (remove_flow p s)"
begin

lemma get_after_record:
  assumes "invar s" and "may_record s p (now + timeout)"
  shows "snd (get_flow q now' (record_flow p incoming v now timeout s)) =
    (if q = p then if now' < now + timeout then Some (incoming, v) else None else flows s now' q)"
  using assms by (simp add: get_result invar_record flows_record)

lemma get_after_remove:
  "invar s \<Longrightarrow> snd (get_flow q now (remove_flow p s)) = (if q = p then None else flows s now q)"
  by (simp add: get_result invar_remove flows_remove)

lemma get_after_get:
  "invar s \<Longrightarrow> now \<le> now' \<Longrightarrow> snd (get_flow q now' (fst (get_flow p now s))) = snd (get_flow q now' s)"
  by (simp add: get_result invar_get flows_get)

end

definition flow_view :: "conntrack \<Rightarrow> nat \<Rightarrow> packet \<rightharpoonup> bool \<times> u16" where
  "flow_view ct now p = map_option (\<lambda>e. (ce_incoming e, rules_version e)) (live ct now p)"

interpretation ct: flow_table conntrack_new conntrack_get conntrack_record conntrack_remove
  ct_inv extends flow_view
proof
  show "flow_view (fst (conntrack_get p now s)) now' = flow_view s now'"
    if "ct_inv s" "now \<le> now'" for s p now now'
    using live_live [OF conns_purge [OF that(1)] that(2)]
    by (simp add: flow_view_def fun_eq_iff conntrack_get_def Let_def)
qed (auto simp: flow_view_def live_record live_remove ct_inv_get ct_inv_record ct_inv_remove
  conntrack_get_def Let_def conns_purge ct_inv_purge, auto simp: live_def conntrack_new_def flow_view_def)

section \<open>Runs of the table\<close>

datatype ct_op =
    OpGet packet nat
  | OpRecord packet bool u16 nat nat
  | OpRemove packet
  | OpPurge nat

fun ct_step :: "ct_op \<Rightarrow> conntrack \<Rightarrow> conntrack" where
  "ct_step (OpGet p now) ct = fst (conntrack_get p now ct)"
| "ct_step (OpRecord p incoming v now timeout) ct = conntrack_record p incoming v now timeout ct"
| "ct_step (OpRemove p) ct = conntrack_remove p ct"
| "ct_step (OpPurge now) ct = purge_expired now ct"

text \<open>The specification of a run forgets the heap and all purging: what was last recorded.\<close>

fun spec_step :: "ct_op \<Rightarrow> (packet \<rightharpoonup> conn_entry) \<Rightarrow> (packet \<rightharpoonup> conn_entry)" where
  "spec_step (OpGet p now) m = m"
| "spec_step (OpRecord p incoming v now timeout) m =
     m(p \<mapsto> \<lparr>expires = now + timeout, ce_incoming = incoming, rules_version = v\<rparr>)"
| "spec_step (OpRemove p) m = m(p := None)"
| "spec_step (OpPurge now) m = m"

definition spec_lookup :: "(packet \<rightharpoonup> conn_entry) \<Rightarrow> nat \<Rightarrow> packet \<Rightarrow> (bool \<times> u16) option" where
  "spec_lookup m now p = Option.bind (m p)
     (\<lambda>e. if now < expires e then Some (ce_incoming e, rules_version e) else None)"

text \<open>The times of a run do not decrease from \<open>t\<close> to \<open>t'\<close>, and the timeout of a packet is fixed.\<close>

fun chronological :: "(packet \<Rightarrow> nat) \<Rightarrow> nat \<Rightarrow> ct_op list \<Rightarrow> nat \<Rightarrow> bool" where
  "chronological T t [] t' \<longleftrightarrow> t \<le> t'"
| "chronological T t (OpGet p now # ops) t' \<longleftrightarrow> t \<le> now \<and> chronological T now ops t'"
| "chronological T t (OpRecord p i v now timeout # ops) t' \<longleftrightarrow>
     t \<le> now \<and> timeout = T p \<and> chronological T now ops t'"
| "chronological T t (OpRemove p # ops) t' \<longleftrightarrow> chronological T t ops t'"
| "chronological T t (OpPurge now # ops) t' \<longleftrightarrow> t \<le> now \<and> chronological T now ops t'"

text \<open>The simulation: from time \<open>t\<close> on, table and specification show the same flows, and no
  entry expires later than a record made at \<open>t\<close> would.\<close>

definition ct_sim :: "(packet \<Rightarrow> nat) \<Rightarrow> nat \<Rightarrow> conntrack \<Rightarrow> (packet \<rightharpoonup> conn_entry) \<Rightarrow> bool" where
  "ct_sim T t ct m \<longleftrightarrow> ct_inv ct \<and> (\<forall>now p. t \<le> now \<longrightarrow> flow_view ct now p = spec_lookup m now p)
     \<and> (\<forall>p e. conns ct p = Some e \<longrightarrow> expires e \<le> t + T p)"

lemma conns_purge_slot_le: "conns (purge_slot now p ct) q = Some e \<Longrightarrow> conns ct q = Some e"
  by (auto simp: purge_slot_def split: option.splits if_splits)

lemma conns_purge_le: "conns (purge_expired now ct) p = Some e \<Longrightarrow> conns ct p = Some e"
proof (induction now ct rule: purge_expired.induct)
  case (1 now ct)
  show ?case
  proof (cases "expiry_heap ct")
    case Nil
    with "1.prems" show ?thesis by (simp add: purge_expired.simps [of now ct])
  next
    case (Cons x h)
    obtain t q where x: "x = (t, q)" by (cases x)
    show ?thesis
    proof (cases "now < t")
      case True
      with "1.prems" Cons x show ?thesis by (simp add: purge_expired.simps [of now ct])
    next
      case False
      then have "conns (purge_slot now q (ct\<lparr>expiry_heap := h\<rparr>)) p = Some e"
        using "1.IH" "1.prems" Cons x by (auto simp: purge_expired.simps [of now ct])
      then show ?thesis by (auto dest: conns_purge_slot_le)
    qed
  qed
qed

lemma ct_sim_purge:
  assumes "ct_sim T t ct m" and "t \<le> now"
  shows "ct_sim T now (purge_expired now ct) m"
  using assms ct.flows_get [of ct now] ct_inv_purge [of ct now] conns_purge_le [of now ct]
  by (fastforce simp: ct_sim_def conntrack_get_def Let_def)

lemma ct_sim_record:
  assumes "ct_sim T t ct m" and "t \<le> now"
  shows "ct_sim T now (conntrack_record p i v now (T p) ct)
    (m(p \<mapsto> \<lparr>expires = now + T p, ce_incoming = i, rules_version = v\<rparr>))"
proof -
  have "extends ct p (now + T p)"
    using assms by (fastforce simp: ct_sim_def extends_def)
  then have "ct_inv (conntrack_record p i v now (T p) ct)"
    using assms by (simp add: ct_sim_def ct_inv_record)
  moreover have "expires e \<le> now + T q" if "conns ct q = Some e" for q e
    using assms that by (fastforce simp: ct_sim_def)
  ultimately show ?thesis
    using assms by (simp add: ct_sim_def ct.flows_record spec_lookup_def conns_record)
qed

lemma ct_sim_remove: "ct_sim T t ct m \<Longrightarrow> ct_sim T t (conntrack_remove p ct) (m(p := None))"
  using ct_inv_remove [of ct p]
  by (auto simp: ct_sim_def ct.flows_remove spec_lookup_def) (simp add: conntrack_remove_def split: if_splits)

lemma ct_sim_step:
  assumes "ct_sim T t ct m" and "chronological T t (op # ops) t'"
  shows "\<exists>t1. ct_sim T t1 (ct_step op ct) (spec_step op m) \<and> chronological T t1 ops t'"
  using assms
  by (cases op)
    (auto simp: conntrack_get_def Let_def intro: ct_sim_purge ct_sim_record ct_sim_remove)

lemma ct_sim_run:
  "ct_sim T t ct m \<Longrightarrow> chronological T t ops t' \<Longrightarrow>
   \<exists>t0 \<le> t'. ct_sim T t0 (fold ct_step ops ct) (fold spec_step ops m)"
proof (induction ops arbitrary: t ct m)
  case (Cons op ops)
  from ct_sim_step [OF Cons.prems] Cons.IH show ?case by fastforce
qed auto

section \<open>One heap slot per flow\<close>

definition one_slot :: "conntrack \<Rightarrow> bool" where
  "one_slot ct \<longleftrightarrow> distinct (map snd (expiry_heap ct)) \<and> snd ` set (expiry_heap ct) = dom (conns ct)"

lemma distinct_snd_insort:
  "distinct (map snd (insort x h)) \<longleftrightarrow> snd x \<notin> snd ` set h \<and> distinct (map snd h)"
  by (induction h) (auto simp: set_insort_key)

lemma one_slot_purge: "one_slot ct \<Longrightarrow> one_slot (purge_expired now ct)"
proof (induction now ct rule: purge_expired.induct)
  case (1 now ct)
  show ?case
  proof (cases "expiry_heap ct")
    case Nil
    with "1.prems" show ?thesis by (simp add: purge_expired.simps [of now ct])
  next
    case (Cons x h)
    obtain t p where x: "x = (t, p)" by (cases x)
    have "one_slot (purge_slot now p (ct\<lparr>expiry_heap := h\<rparr>))"
      using "1.prems" Cons x
      by (auto simp: one_slot_def purge_slot_def heap_push_def distinct_snd_insort set_insort_key
          split: option.split)
    with Cons x "1" show ?thesis by (simp add: purge_expired.simps [of now ct])
  qed
qed

lemma one_slot_step: "(\<forall>p. op \<noteq> OpRemove p) \<Longrightarrow> one_slot ct \<Longrightarrow> one_slot (ct_step op ct)"
proof (cases op)
  case (OpRecord p i v now timeout)
  assume "one_slot ct"
  with OpRecord show ?thesis
    by (auto simp: one_slot_def conntrack_record_def Let_def heap_push_def distinct_snd_insort
        set_insort_key dom_def)
qed (auto simp: conntrack_get_def Let_def one_slot_purge)

section \<open>Properties\<close>

text \<open>C8: In any run of the table whose times do not decrease and whose timeouts depend on the packet
  only, a lookup returns the direction and rule version recorded last for the packet unless it
  was removed or its expiry has come: the lazily purged heap is invisible.\<close>

theorem conntrack_refines_expiring_map:
  assumes "chronological T 0 ops now"
  shows "snd (conntrack_get p now (fold ct_step ops conntrack_new)) =
    spec_lookup (fold spec_step ops Map.empty) now p"
proof -
  have "ct_sim T 0 conntrack_new Map.empty"
    by (simp add: ct_sim_def flow_view_def live_def conntrack_new_def spec_lookup_def)
      (simp add: ct_inv_def)
  from ct_sim_run [OF this assms] show ?thesis
    by (auto simp: ct_sim_def ct.get_result)
qed

definition sample_packet :: packet where
  "sample_packet = \<lparr>local_addr = V4 0x0A000001, remote_addr = V4 0x0A000002, local_port = 10,
     remote_port = 90, protocol = Udp, fragment = False\<rparr>"

theorem conntrack_refines_expiring_map_witness:
  "snd (conntrack_get sample_packet 12 (fold ct_step
      [OpRecord sample_packet True 3 0 10, OpRecord sample_packet True 3 5 10] conntrack_new))
   = Some (True, 3)"
  using conntrack_refines_expiring_map [of "\<lambda>_. 10"
      "[OpRecord sample_packet True 3 0 10, OpRecord sample_packet True 3 5 10]" 12 sample_packet]
  by (simp add: spec_lookup_def)

text \<open>A run without removals keeps exactly one heap slot per tracked flow, however often
  flows are refreshed, looked up and purged: the heap is as large as the table.\<close>

theorem heap_one_slot_per_flow:
  assumes "\<forall>op \<in> set ops. \<forall>p. op \<noteq> OpRemove p"
  shows "length (expiry_heap (fold ct_step ops conntrack_new)) =
    card (dom (conns (fold ct_step ops conntrack_new)))"
proof -
  have "one_slot ct \<Longrightarrow> one_slot (fold ct_step ops ct)" for ct
    using assms by (induction ops arbitrary: ct) (auto simp: one_slot_step)
  moreover have "one_slot conntrack_new" by (simp add: one_slot_def conntrack_new_def)
  ultimately have "one_slot (fold ct_step ops conntrack_new)" by blast
  then show ?thesis
    unfolding one_slot_def by (metis distinct_card length_map set_map)
qed

theorem heap_one_slot_per_flow_witness:
  "length (expiry_heap (fold ct_step
      [OpRecord sample_packet True 0 0 10, OpRecord sample_packet True 0 5 10, OpGet sample_packet 11]
      conntrack_new)) = 1"
proof -
  have "length (expiry_heap (fold ct_step
      [OpRecord sample_packet True 0 0 10, OpRecord sample_packet True 0 5 10, OpGet sample_packet 11]
      conntrack_new)) = card (dom (conns (fold ct_step
      [OpRecord sample_packet True 0 0 10, OpRecord sample_packet True 0 5 10, OpGet sample_packet 11]
      conntrack_new)))"
    by (rule heap_one_slot_per_flow) simp
  also have "\<dots> = 1"
    by (simp add: conntrack_record_def conntrack_new_def conntrack_get_def Let_def heap_push_def
        purge_expired.simps purge_slot_def)
  finally show ?thesis .
qed

text \<open>Removing a flow leaves its slot behind: when the flow is recorded again before the slot
  is popped, both slots are rescheduled whenever they come up, so one live flow keeps two
  slots as long as it is refreshed.\<close>

theorem heap_duplicate_after_remove:
  "expiry_heap (fold ct_step
      [OpRecord p True 0 0 10, OpRemove p, OpRecord p False 1 5 10, OpRecord p False 1 9 10, OpGet p 16]
      conntrack_new) = [(19, p), (19, p)]"
  by (simp add: conntrack_record_def conntrack_new_def conntrack_get_def conntrack_remove_def Let_def
      heap_push_def purge_expired.simps purge_slot_def)

end
