(* ===== verification/Firewall.thy ===== *)
theory Firewall
  imports Rule_Tree Conntrack
begin

text \<open>
  \<open>nebula-firewall/src/firewall.rs\<close>: the stateful firewall. \<open>evaluate\<close> is modelled as
  the two critical sections of the code, the conntrack fast path and the rule check with its
  record, composed sequentially in \<open>evaluate\<close> and interleaved freely, with reloads in
  between, in the step relation \<open>fw_step\<close>. The clock reading \<open>Instant::now()\<close> is an argument.
\<close>

section \<open>State\<close>

record firewall_options =
  tcp_timeout :: nat
  udp_timeout :: nat
  default_timeout :: nat
  in_send_reject :: bool
  out_send_reject :: bool
  default_local_cidr_any :: bool

datatype drop_reason = InvalidLocalIp | InvalidRemoteIp | NoMatchingRule

record 'net versioned_rules =
  vr_version :: u16
  vr_rules :: "'net ruleset"

record 'net firewall =
  fw_rules :: "'net versioned_rules"
  fw_conntrack :: conntrack
  fw_options :: firewall_options
  fw_routable :: "'net list"

section \<open>Operations\<close>

text \<open>\<open>None\<close> is the panic of the \<open>expect\<close> on \<open>IpNet::new\<close>.\<close>

definition firewall_new ::
  "'net ipnet_ops \<Rightarrow> 'net ruleset \<Rightarrow> firewall_options \<Rightarrow> 'net list \<Rightarrow> 'net list \<Rightarrow> 'net firewall option" where
  "firewall_new N rules opts assigned_networks unsafe_networks =
     map_option (\<lambda>hosts.
       \<lparr>fw_rules = \<lparr>vr_version = 0, vr_rules = rules\<rparr>, fw_conntrack = conntrack_new,
        fw_options = opts, fw_routable = hosts @ unsafe_networks\<rparr>)
     (those (map (\<lambda>n. net_new N (net_addr N n) (net_max_prefix_len N n)) assigned_networks))"

definition reload :: "'net ruleset \<Rightarrow> 'net firewall \<Rightarrow> 'net firewall" where
  "reload rules fw =
     fw\<lparr>fw_rules := \<lparr>vr_version = vr_version (fw_rules fw) + 1, vr_rules = rules\<rparr>\<rparr>"

fun timeout_for :: "firewall_options \<Rightarrow> protocol \<Rightarrow> nat" where
  "timeout_for opts Tcp = tcp_timeout opts"
| "timeout_for opts Udp = udp_timeout opts"
| "timeout_for opts _ = default_timeout opts"

text \<open>The first critical section: the conntrack lookup, its refresh or revalidation, and the
  removal of a flow the current rules no longer admit. \<open>True\<close> is the early \<open>Ok\<close>.\<close>

definition conntrack_phase ::
  "'net ipnet_ops \<Rightarrow> firewall_options \<Rightarrow> 'net versioned_rules \<Rightarrow> packet \<Rightarrow> 'net peer_identity \<Rightarrow> nat
     \<Rightarrow> conntrack \<Rightarrow> conntrack \<times> bool" where
  "conntrack_phase N opts vr p remote now ct =
     (let (ct1, hit) = conntrack_get p now ct;
          timeout = timeout_for opts (protocol p) in
      case hit of
        Some (conn_incoming, conn_version) \<Rightarrow>
          if conn_version = vr_version vr then
            (conntrack_record p conn_incoming (vr_version vr) now timeout ct1, True)
          else if ruleset_matches N (vr_rules vr) p conn_incoming remote then
            (conntrack_record p conn_incoming (vr_version vr) now timeout ct1, True)
          else (conntrack_remove p ct1, False)
      | None \<Rightarrow> (ct1, False))"

text \<open>The checks between the critical sections, in their order.\<close>

definition check_packet ::
  "'net ipnet_ops \<Rightarrow> 'net list \<Rightarrow> 'net ruleset \<Rightarrow> packet \<Rightarrow> bool \<Rightarrow> 'net peer_identity \<Rightarrow> drop_reason + unit" where
  "check_packet N routable rules p incoming remote =
     (if \<not> owns N remote (remote_addr p) then Inl InvalidRemoteIp
      else if \<not> list_ex (\<lambda>n. net_contains N n (local_addr p)) routable then Inl InvalidLocalIp
      else if \<not> ruleset_matches N rules p incoming remote then Inl NoMatchingRule
      else Inr ())"

definition evaluate ::
  "'net ipnet_ops \<Rightarrow> packet \<Rightarrow> bool \<Rightarrow> 'net peer_identity \<Rightarrow> nat \<Rightarrow> 'net firewall
     \<Rightarrow> 'net firewall \<times> (drop_reason + unit)" where
  "evaluate N p incoming remote now fw =
     (let vr = fw_rules fw;
          (ct, hit) = conntrack_phase N (fw_options fw) vr p remote now (fw_conntrack fw);
          fw1 = fw\<lparr>fw_conntrack := ct\<rparr> in
      if hit then (fw1, Inr ())
      else case check_packet N (fw_routable fw) (vr_rules vr) p incoming remote of
             Inl reason \<Rightarrow> (fw1, Inl reason)
           | Inr _ \<Rightarrow>
               (fw1\<lparr>fw_conntrack := conntrack_record p incoming (vr_version vr) now
                  (timeout_for (fw_options fw) (protocol p)) ct\<rparr>, Inr ()))"

section \<open>The invariant of the firewall and the effect of the phases\<close>

text \<open>At time \<open>t\<close>: the table is well formed and no flow expires later than a record made now
  would, so every refresh extends.\<close>

definition fw_inv :: "nat \<Rightarrow> 'net firewall \<Rightarrow> bool" where
  "fw_inv t fw \<longleftrightarrow> ct_inv (fw_conntrack fw) \<and>
     (\<forall>p e. conns (fw_conntrack fw) p = Some e \<longrightarrow> expires e \<le> t + timeout_for (fw_options fw) (protocol p))"

definition bounded :: "firewall_options \<Rightarrow> nat \<Rightarrow> conntrack \<Rightarrow> bool" where
  "bounded opts t ct \<longleftrightarrow> ct_inv ct \<and> (\<forall>p e. conns ct p = Some e \<longrightarrow> expires e \<le> t + timeout_for opts (protocol p))"

lemma fw_inv_bounded: "fw_inv t fw \<longleftrightarrow> bounded (fw_options fw) t (fw_conntrack fw)"
  by (simp add: fw_inv_def bounded_def)

lemma bounded_mono: "bounded opts t ct \<Longrightarrow> t \<le> t' \<Longrightarrow> bounded opts t' ct"
  by (fastforce simp: bounded_def)

lemma bounded_extends: "bounded opts t ct \<Longrightarrow> t \<le> now \<Longrightarrow> extends ct p (now + timeout_for opts (protocol p))"
  by (fastforce simp: bounded_def extends_def)

lemma bounded_get: "bounded opts t ct \<Longrightarrow> bounded opts t (fst (conntrack_get p now ct))"
  using conns_purge_le [of now ct] by (auto simp: bounded_def conntrack_get_def Let_def ct_inv_purge)

lemma bounded_remove: "bounded opts t ct \<Longrightarrow> bounded opts t (conntrack_remove p ct)"
  using ct_inv_remove [of ct p] by (auto simp: bounded_def conntrack_remove_def)

lemma bounded_record:
  assumes "bounded opts t ct" and "t \<le> now"
  shows "bounded opts now (conntrack_record p i v now (timeout_for opts (protocol p)) ct)"
proof -
  have "extends ct p (now + timeout_for opts (protocol p))"
    using assms by (rule bounded_extends)
  with bounded_mono [OF assms] show ?thesis
    by (auto simp: bounded_def ct_inv_record conns_record)
qed

lemma bounded_conntrack_phase:
  assumes "bounded opts t ct" and "t \<le> now"
  shows "bounded opts now (fst (conntrack_phase N opts vr p remote now ct))"
proof -
  obtain ct1 hit where get: "conntrack_get p now ct = (ct1, hit)" by (cases "conntrack_get p now ct")
  have "bounded opts t ct1" using bounded_get [OF assms(1), of p now] get by simp
  then have "bounded opts now ct1" and "bounded opts now (conntrack_remove p ct1)"
    and "bounded opts now (conntrack_record p i v now (timeout_for opts (protocol p)) ct1)" for i v
    using assms(2) by (blast intro: bounded_mono bounded_remove bounded_record)+
  then show ?thesis by (simp add: conntrack_phase_def get Let_def split: option.split)
qed

lemma fw_inv_evaluate:
  assumes "fw_inv t fw" and "t \<le> now"
  shows "fw_inv now (fst (evaluate N p incoming remote now fw))"
proof -
  obtain ct hit where ph: "conntrack_phase N (fw_options fw) (fw_rules fw) p remote now (fw_conntrack fw) = (ct, hit)"
    by (cases "conntrack_phase N (fw_options fw) (fw_rules fw) p remote now (fw_conntrack fw)")
  have "bounded (fw_options fw) now ct"
    using bounded_conntrack_phase [of "fw_options fw" t "fw_conntrack fw" now N "fw_rules fw" p remote] assms ph
    by (simp add: fw_inv_bounded)
  then show ?thesis
    using bounded_record [of "fw_options fw" now ct now p]
    by (auto simp: evaluate_def ph Let_def fw_inv_bounded split: sum.split)
qed

lemma fw_inv_reload [simp]: "fw_inv t (reload rules fw) = fw_inv t fw"
  by (simp add: fw_inv_def reload_def)

lemma fw_inv_new: "firewall_new N rules opts assigned unsafe = Some fw \<Longrightarrow> fw_inv t fw"
  by (auto simp: firewall_new_def fw_inv_def conntrack_new_def ct_inv_def)

section \<open>What evaluate decides\<close>

lemma conntrack_phase_hit:
  assumes "ct_inv ct"
  shows "snd (conntrack_phase N opts vr p remote now ct) \<longleftrightarrow>
    (\<exists>d v. flow_view ct now p = Some (d, v)
       \<and> (v = vr_version vr \<or> ruleset_matches N (vr_rules vr) p d remote))"
  using ct.get_result [OF assms, of p now]
  by (cases "conntrack_get p now ct") (auto simp: conntrack_phase_def Let_def split: option.split)

lemma evaluate_result:
  "snd (evaluate N p incoming remote now fw) =
     (if snd (conntrack_phase N (fw_options fw) (fw_rules fw) p remote now (fw_conntrack fw)) then Inr ()
      else check_packet N (fw_routable fw) (vr_rules (fw_rules fw)) p incoming remote)"
  by (auto simp: evaluate_def Let_def split: prod.split sum.split)

lemma evaluate_keeps:
  "fw_rules (fst (evaluate N p incoming remote now fw)) = fw_rules fw"
  "fw_options (fst (evaluate N p incoming remote now fw)) = fw_options fw"
  "fw_routable (fst (evaluate N p incoming remote now fw)) = fw_routable fw"
  by (auto simp: evaluate_def Let_def split: prod.split sum.split)

text \<open>An accepted packet leaves a flow of the current version that lives for its timeout.\<close>

lemma evaluate_ok_tracks:
  assumes "snd (evaluate N p incoming remote now fw) = Inr ()"
    and "now' < now + timeout_for (fw_options fw) (protocol p)"
  shows "\<exists>d. flow_view (fw_conntrack (fst (evaluate N p incoming remote now fw))) now' p
    = Some (d, vr_version (fw_rules fw))"
proof -
  obtain ct hit where ph: "conntrack_phase N (fw_options fw) (fw_rules fw) p remote now (fw_conntrack fw) = (ct, hit)"
    by (cases "conntrack_phase N (fw_options fw) (fw_rules fw) p remote now (fw_conntrack fw)")
  show ?thesis
  proof (cases hit)
    case True
    then obtain ct1 d where "ct = conntrack_record p d (vr_version (fw_rules fw)) now
        (timeout_for (fw_options fw) (protocol p)) ct1"
      using ph by (auto simp: conntrack_phase_def Let_def split: prod.splits option.splits if_splits)
    with True ph assms(2) show ?thesis by (simp add: evaluate_def ct.flows_record)
  next
    case False
    with ph assms show ?thesis by (simp add: evaluate_def ct.flows_record Let_def split: sum.splits)
  qed
qed

text \<open>The first section adds no flow and keeps the direction of those it finds; a packet that hits is
  in the table afterwards.\<close>

lemma conntrack_phase_conns:
  assumes "conns (fst (conntrack_phase N opts vr p remote now ct)) q = Some e"
  shows "\<exists>e0. conns ct q = Some e0 \<and> ce_incoming e0 = ce_incoming e"
proof -
  obtain ct1 hit where get: "conntrack_get p now ct = (ct1, hit)" by (cases "conntrack_get p now ct")
  have le: "conns ct1 q = Some e \<Longrightarrow> conns ct q = Some e" for q e
    using get conns_purge_le [of now ct] by (auto simp: conntrack_get_def Let_def)
  have hit: "\<exists>e. conns ct1 p = Some e \<and> ce_incoming e = d" if "hit = Some (d, v)" for d v
    using get that by (auto simp: conntrack_get_def Let_def)
  from assms le hit show ?thesis
    by (fastforce simp: conntrack_phase_def get Let_def conns_record conntrack_remove_def
        split: option.splits if_splits)
qed

lemma conntrack_phase_tracked:
  "snd (conntrack_phase N opts vr p remote now ct) \<Longrightarrow>
   \<exists>e. conns (fst (conntrack_phase N opts vr p remote now ct)) p = Some e"
  by (auto simp: conntrack_phase_def Let_def conns_record split: prod.splits option.splits if_splits)

text \<open>What \<open>Firewall::new\<close> sets up.\<close>

lemma firewall_new_routes:
  assumes "ipnet_laws N"
  shows "\<exists>fw. firewall_new N rules opts assigned unsafe = Some fw \<and>
    (\<forall>a. (\<exists>n \<in> set (fw_routable fw). net_contains N n a) \<longleftrightarrow>
       a \<in> net_addr N ` set assigned \<or> (\<exists>n \<in> set unsafe. net_contains N n a))"
proof -
  let ?host = "\<lambda>n. net_new N (net_addr N n) (net_max_prefix_len N n)"
  have "\<exists>hosts. those (map ?host ns) = Some hosts \<and>
      (\<forall>a. (\<exists>h \<in> set hosts. net_contains N h a) \<longleftrightarrow> a \<in> net_addr N ` set ns)" for ns
  proof (induction ns)
    case (Cons n ns)
    obtain h where h: "?host n = Some h"
      using host_route_exists [OF assms] by (metis assms ipnet_max_prefix)
    then have "net_contains N h a \<longleftrightarrow> a = net_addr N n" for a
      using host_route_contains [OF assms] by (metis assms ipnet_max_prefix)
    with Cons h show ?case by auto
  qed simp
  from this [of assigned] obtain hosts where "those (map ?host assigned) = Some hosts"
    and "\<forall>a. (\<exists>h \<in> set hosts. net_contains N h a) \<longleftrightarrow> a \<in> net_addr N ` set assigned" by blast
  then show ?thesis by (auto simp: firewall_new_def)
qed

section \<open>Interleaved evaluations and reloads\<close>

text \<open>
  Several threads evaluate packets while another reloads. Each evaluation is a job that takes
  its snapshot of the versioned rules, runs the conntrack section, and, after a miss, the
  checks and the final record, each at its own moment. The clock readings are arbitrary. The
  history of installed rule sets is a ghost component; version \<open>v\<close> names entry
  \<open>v mod 2^16\<close> of it.
\<close>

record 'net job =
  j_packet :: packet
  j_incoming :: bool
  j_remote :: "'net peer_identity"
  j_now :: nat
  j_rules :: "'net versioned_rules"
  j_missed :: bool

text \<open>The body of \<open>evaluate\<close> cut at its locks: what it has before the connection table is locked
  for the first time, and what it does from one lock to the next, until it has a verdict.\<close>

definition evaluate_start :: "'net firewall \<Rightarrow> packet \<Rightarrow> bool \<Rightarrow> 'net peer_identity \<Rightarrow> nat \<Rightarrow> 'net job" where
  "evaluate_start fw p incoming remote now =
     \<lparr>j_packet = p, j_incoming = incoming, j_remote = remote, j_now = now, j_rules = fw_rules fw, j_missed = False\<rparr>"

definition evaluate_resume ::
  "'net ipnet_ops \<Rightarrow> 'net firewall \<Rightarrow> 'net job \<Rightarrow> 'net firewall \<times> ('net job + (drop_reason + unit))" where
  "evaluate_resume N fw j =
     (if \<not> j_missed j then
        let (ct, hit) = conntrack_phase N (fw_options fw) (j_rules j) (j_packet j) (j_remote j) (j_now j) (fw_conntrack fw)
        in (fw\<lparr>fw_conntrack := ct\<rparr>, if hit then Inr (Inr ()) else Inl (j\<lparr>j_missed := True\<rparr>))
      else
        case check_packet N (fw_routable fw) (vr_rules (j_rules j)) (j_packet j) (j_incoming j) (j_remote j) of
          Inl reason \<Rightarrow> (fw, Inr (Inl reason))
        | Inr _ \<Rightarrow>
            (fw\<lparr>fw_conntrack := conntrack_record (j_packet j) (j_incoming j) (vr_version (j_rules j)) (j_now j)
               (timeout_for (fw_options fw) (protocol (j_packet j))) (fw_conntrack fw)\<rparr>, Inr (Inr ())))"

text \<open>A section returns \<open>Ok\<close> exactly when it calls \<open>record\<close>, which may panic. It then holds the
  lock of the table and poisons it; whoever locks a poisoned table panics as well. The first section
  always takes the lock, the second only to record.\<close>

definition resume_panics :: "'net ipnet_ops \<Rightarrow> bool \<Rightarrow> 'net firewall \<Rightarrow> 'net job \<Rightarrow> bool" where
  "resume_panics N poisoned fw j \<longleftrightarrow>
     (let ok = (snd (evaluate_resume N fw j) = Inr (Inr ())) in
      poisoned \<and> (\<not> j_missed j \<or> ok) \<or>
      ok \<and> record_panics (j_now j) (timeout_for (fw_options fw) (protocol (j_packet j))))"

definition evaluate_panics ::
  "'net ipnet_ops \<Rightarrow> bool \<Rightarrow> packet \<Rightarrow> bool \<Rightarrow> 'net peer_identity \<Rightarrow> nat \<Rightarrow> 'net firewall \<Rightarrow> bool" where
  "evaluate_panics N poisoned p incoming remote now fw \<longleftrightarrow>
     poisoned \<or> snd (evaluate N p incoming remote now fw) = Inr () \<and>
       record_panics now (timeout_for (fw_options fw) (protocol p))"

record 'net fw_sys =
  sys_fw :: "'net firewall"
  sys_jobs :: "nat \<rightharpoonup> 'net job"
  sys_history :: "'net ruleset list"

inductive fw_step :: "'net ipnet_ops \<Rightarrow> 'net fw_sys \<Rightarrow> 'net fw_sys \<Rightarrow> bool" for N where
  start: "sys_jobs s i = None \<Longrightarrow>
    fw_step N s (s\<lparr>sys_jobs := (sys_jobs s)(i \<mapsto> \<lparr>j_packet = p, j_incoming = incoming,
      j_remote = remote, j_now = now, j_rules = fw_rules (sys_fw s), j_missed = False\<rparr>)\<rparr>)"
| fast: "sys_jobs s i = Some j \<Longrightarrow> \<not> j_missed j \<Longrightarrow>
    conntrack_phase N (fw_options (sys_fw s)) (j_rules j) (j_packet j) (j_remote j) (j_now j)
      (fw_conntrack (sys_fw s)) = (ct, True) \<Longrightarrow>
    fw_step N s (s\<lparr>sys_fw := (sys_fw s)\<lparr>fw_conntrack := ct\<rparr>, sys_jobs := (sys_jobs s)(i := None)\<rparr>)"
| miss: "sys_jobs s i = Some j \<Longrightarrow> \<not> j_missed j \<Longrightarrow>
    conntrack_phase N (fw_options (sys_fw s)) (j_rules j) (j_packet j) (j_remote j) (j_now j)
      (fw_conntrack (sys_fw s)) = (ct, False) \<Longrightarrow>
    fw_step N s (s\<lparr>sys_fw := (sys_fw s)\<lparr>fw_conntrack := ct\<rparr>,
      sys_jobs := (sys_jobs s)(i \<mapsto> j\<lparr>j_missed := True\<rparr>)\<rparr>)"
| drop: "sys_jobs s i = Some j \<Longrightarrow> j_missed j \<Longrightarrow>
    check_packet N (fw_routable (sys_fw s)) (vr_rules (j_rules j)) (j_packet j) (j_incoming j)
      (j_remote j) = Inl reason \<Longrightarrow>
    fw_step N s (s\<lparr>sys_jobs := (sys_jobs s)(i := None)\<rparr>)"
| accept: "sys_jobs s i = Some j \<Longrightarrow> j_missed j \<Longrightarrow>
    check_packet N (fw_routable (sys_fw s)) (vr_rules (j_rules j)) (j_packet j) (j_incoming j)
      (j_remote j) = Inr () \<Longrightarrow>
    fw_step N s (s\<lparr>sys_fw := (sys_fw s)\<lparr>fw_conntrack :=
        conntrack_record (j_packet j) (j_incoming j) (vr_version (j_rules j)) (j_now j)
          (timeout_for (fw_options (sys_fw s)) (protocol (j_packet j))) (fw_conntrack (sys_fw s))\<rparr>,
      sys_jobs := (sys_jobs s)(i := None)\<rparr>)"
| reload: "fw_step N s (s\<lparr>sys_fw := reload rules (sys_fw s), sys_history := sys_history s @ [rules]\<rparr>)"

text \<open>The sections in sequence are \<open>evaluate\<close>, and each of them is a step of the interleaving.\<close>

lemma evaluate_sections:
  obtains (one) "evaluate_resume N fw (evaluate_start fw p incoming remote now) =
      (fst (evaluate N p incoming remote now fw), Inr (snd (evaluate N p incoming remote now fw)))"
      and "\<And>po. resume_panics N po fw (evaluate_start fw p incoming remote now) = evaluate_panics N po p incoming remote now fw"
  | (two) fw1 j where "evaluate_resume N fw (evaluate_start fw p incoming remote now) = (fw1, Inl j)"
      and "evaluate_resume N fw1 j = (fst (evaluate N p incoming remote now fw), Inr (snd (evaluate N p incoming remote now fw)))"
      and "j_packet j = p"
      and "\<And>po. resume_panics N po fw (evaluate_start fw p incoming remote now) = po"
      and "resume_panics N False fw1 j = evaluate_panics N False p incoming remote now fw"
proof -
  obtain ct hit where ph: "conntrack_phase N (fw_options fw) (fw_rules fw) p remote now (fw_conntrack fw) = (ct, hit)"
    by (cases "conntrack_phase N (fw_options fw) (fw_rules fw) p remote now (fw_conntrack fw)")
  show thesis
  proof (cases hit)
    case True
    with ph one show thesis
      by (simp add: evaluate_def evaluate_start_def evaluate_resume_def resume_panics_def evaluate_panics_def)
  next
    case False
    with ph two [of "fw\<lparr>fw_conntrack := ct\<rparr>" "(evaluate_start fw p incoming remote now)\<lparr>j_missed := True\<rparr>"] show thesis
      by (simp add: evaluate_def evaluate_start_def evaluate_resume_def resume_panics_def evaluate_panics_def split: sum.split)
  qed
qed

lemma evaluate_start_packet [simp]: "j_packet (evaluate_start fw p incoming peer now) = p"
  by (simp add: evaluate_start_def)

lemma evaluate_resume_step:
  assumes "sys_jobs s i = Some j" and "evaluate_resume N (sys_fw s) j = (fw', r)"
  shows "fw_step N s (s\<lparr>sys_fw := fw', sys_jobs := (sys_jobs s)(i := (case r of Inl j' \<Rightarrow> Some j' | Inr _ \<Rightarrow> None))\<rparr>)"
proof (cases "j_missed j")
  case False
  with assms fw_step.fast [OF assms(1) False, of N] fw_step.miss [OF assms(1) False, of N] show ?thesis
    by (auto simp: evaluate_resume_def split: prod.splits if_splits)
next
  case True
  with assms fw_step.drop [OF assms(1) True, of N] fw_step.accept [OF assms(1) True, of N] show ?thesis
    by (auto simp: evaluate_resume_def split: sum.splits)
qed

lemma evaluate_resume_keeps:
  assumes "evaluate_resume N fw j = (fw', r)"
  shows "fw_rules fw' = fw_rules fw" and "fw_options fw' = fw_options fw" and "fw_routable fw' = fw_routable fw"
    and "r = Inl j' \<Longrightarrow> j' = j\<lparr>j_missed := True\<rparr>"
  using assms by (auto simp: evaluate_resume_def split: prod.splits sum.splits if_splits)

lemma evaluate_resume_conns:
  assumes "evaluate_resume N fw j = (fw', r)" and "conns (fw_conntrack fw') q = Some e"
  shows "(\<exists>e0. conns (fw_conntrack fw) q = Some e0 \<and> ce_incoming e0 = ce_incoming e) \<or>
    q = j_packet j \<and> ce_incoming e = j_incoming j \<and>
      check_packet N (fw_routable fw) (vr_rules (j_rules j)) (j_packet j) (j_incoming j) (j_remote j) = Inr ()"
  using assms conntrack_phase_conns [of N "fw_options fw" "j_rules j" "j_packet j" "j_remote j" "j_now j" "fw_conntrack fw" q e]
  by (auto simp: evaluate_resume_def Let_def conns_record split: prod.splits sum.splits if_splits)

lemma evaluate_resume_tracked:
  assumes "evaluate_resume N fw j = (fw', Inr (Inr ()))"
  shows "\<exists>e. conns (fw_conntrack fw') (j_packet j) = Some e"
  using assms conntrack_phase_tracked [of N "fw_options fw" "j_rules j" "j_packet j" "j_remote j" "j_now j" "fw_conntrack fw"]
  by (auto simp: evaluate_resume_def Let_def conns_record split: prod.splits sum.splits if_splits)

definition fw_init :: "'net ipnet_ops \<Rightarrow> 'net fw_sys \<Rightarrow> bool" where
  "fw_init N s \<longleftrightarrow> (\<exists>rules opts assigned unsafe.
     firewall_new N rules opts assigned unsafe = Some (sys_fw s)
     \<and> sys_jobs s = Map.empty \<and> sys_history s = [rules])"

text \<open>A flow is justified when some rule set installed under its version admits it.\<close>

definition justified ::
  "'net ipnet_ops \<Rightarrow> 'net ruleset list \<Rightarrow> packet \<Rightarrow> bool \<Rightarrow> u16 \<Rightarrow> bool" where
  "justified N hist p d v \<longleftrightarrow> (\<exists>g < length hist. of_nat g = v \<and> (\<exists>remote. ruleset_matches N (hist ! g) p d remote))"

definition ct_justified :: "'net ipnet_ops \<Rightarrow> 'net ruleset list \<Rightarrow> conntrack \<Rightarrow> bool" where
  "ct_justified N hist ct \<longleftrightarrow>
     (\<forall>p e. conns ct p = Some e \<longrightarrow> justified N hist p (ce_incoming e) (rules_version e))"

definition installed :: "'net ruleset list \<Rightarrow> 'net versioned_rules \<Rightarrow> bool" where
  "installed hist vr \<longleftrightarrow> (\<exists>g < length hist. of_nat g = vr_version vr \<and> hist ! g = vr_rules vr)"

definition fw_sys_inv :: "'net ipnet_ops \<Rightarrow> 'net fw_sys \<Rightarrow> bool" where
  "fw_sys_inv N s \<longleftrightarrow> sys_history s \<noteq> []
     \<and> vr_version (fw_rules (sys_fw s)) = of_nat (length (sys_history s) - 1)
     \<and> vr_rules (fw_rules (sys_fw s)) = last (sys_history s)
     \<and> (\<forall>i j. sys_jobs s i = Some j \<longrightarrow> installed (sys_history s) (j_rules j))
     \<and> ct_justified N (sys_history s) (fw_conntrack (sys_fw s))"

lemma justifiedI:
  "installed hist vr \<Longrightarrow> ruleset_matches N (vr_rules vr) p d remote \<Longrightarrow> justified N hist p d (vr_version vr)"
  unfolding installed_def justified_def by metis

lemma justified_append: "justified N hist p d v \<Longrightarrow> justified N (hist @ [r]) p d v"
  unfolding justified_def by (metis length_append_singleton less_SucI nth_append)

lemma installed_append: "installed hist vr \<Longrightarrow> installed (hist @ [r]) vr"
  unfolding installed_def by (metis length_append_singleton less_SucI nth_append)

lemma ct_justified_get: "ct_justified N hist ct \<Longrightarrow> ct_justified N hist (fst (conntrack_get p now ct))"
  by (auto simp: ct_justified_def conntrack_get_def Let_def dest: conns_purge_le)

lemma ct_justified_record:
  "ct_justified N hist ct \<Longrightarrow> justified N hist p d v \<Longrightarrow>
   ct_justified N hist (conntrack_record p d v now timeout ct)"
  by (auto simp: ct_justified_def conns_record)

lemma ct_justified_remove: "ct_justified N hist ct \<Longrightarrow> ct_justified N hist (conntrack_remove p ct)"
  by (auto simp: ct_justified_def conntrack_remove_def)

lemma ct_justified_phase:
  assumes "ct_justified N hist ct" and "installed hist vr"
  shows "ct_justified N hist (fst (conntrack_phase N opts vr p remote now ct))"
proof -
  obtain ct1 hit where get: "conntrack_get p now ct = (ct1, hit)" by (cases "conntrack_get p now ct")
  have ct1: "ct_justified N hist ct1" using ct_justified_get [OF assms(1), of p now] get by simp
  have hit: "justified N hist p d v" if "hit = Some (d, v)" for d v
    using get ct1 that by (auto simp: conntrack_get_def Let_def ct_justified_def)
  show ?thesis
    using ct1 hit justifiedI [OF assms(2)]
    by (auto simp: conntrack_phase_def get Let_def ct_justified_record ct_justified_remove
        split: option.split)
qed

lemma check_packet_ok:
  "check_packet N routable rules p incoming remote = Inr x \<longleftrightarrow>
     owns N remote (remote_addr p) \<and> (\<exists>n \<in> set routable. net_contains N n (local_addr p))
     \<and> ruleset_matches N rules p incoming remote"
  by (simp add: check_packet_def list_ex_iff)

lemma fw_sys_inv_step: "fw_sys_inv N s \<Longrightarrow> fw_step N s s' \<Longrightarrow> fw_sys_inv N s'"
proof (rotate_tac, induction rule: fw_step.induct)
  case (start s i p incoming remote now)
  then have "installed (sys_history s) (fw_rules (sys_fw s))"
    by (auto simp: fw_sys_inv_def installed_def last_conv_nth intro!: exI [of _ "length (sys_history s) - 1"])
  with start show ?case by (auto simp: fw_sys_inv_def)
next
  case (fast s i j ct)
  then show ?case
    using ct_justified_phase [of N "sys_history s" "fw_conntrack (sys_fw s)" "j_rules j"
        "fw_options (sys_fw s)" "j_packet j" "j_remote j" "j_now j"]
    by (auto simp: fw_sys_inv_def)
next
  case (miss s i j ct)
  then show ?case
    using ct_justified_phase [of N "sys_history s" "fw_conntrack (sys_fw s)" "j_rules j"
        "fw_options (sys_fw s)" "j_packet j" "j_remote j" "j_now j"]
    by (auto simp: fw_sys_inv_def)
next
  case (drop s i j reason)
  then show ?case by (auto simp: fw_sys_inv_def)
next
  case (accept s i j)
  then have "justified N (sys_history s) (j_packet j) (j_incoming j) (vr_version (j_rules j))"
    by (auto simp: fw_sys_inv_def check_packet_ok intro: justifiedI)
  with accept show ?case by (auto simp: fw_sys_inv_def ct_justified_record)
next
  case (reload s rules)
  then have "of_nat (length (sys_history s) - 1) + (1 :: u16) = of_nat (length (sys_history s))"
    by (cases "sys_history s") (auto simp: fw_sys_inv_def)
  with reload show ?case
    by (auto simp: fw_sys_inv_def Firewall.reload_def ct_justified_def justified_append installed_append)
qed

interpretation fw_machine: transition_invariant "fw_init N" "fw_step N" "fw_sys_inv N" for N
proof
  show "fw_sys_inv N s" if "fw_init N s" for s :: "'a fw_sys"
    using that by (auto simp: fw_init_def fw_sys_inv_def firewall_new_def ct_justified_def conntrack_new_def
        dest!: sym [of _ "sys_fw s"])
qed (rule fw_sys_inv_step)

section \<open>A small instance\<close>

definition sample_rules :: "'net ruleset" where
  "sample_rules = \<lparr>rs_inbound = direction_default\<lparr>dir_any_proto := [PORT_ANY \<mapsto>
       ca_rule_default\<lparr>ca_any := Some (peer_rule_default\<lparr>pr_any := Some \<lparr>lc_any = True, lc_nets = []\<rparr>\<rparr>)\<rparr>]\<rparr>,
     rs_outbound = direction_default\<rparr>"

definition sample_options :: firewall_options where
  "sample_options = \<lparr>tcp_timeout = 1, udp_timeout = 60, default_timeout = 600, in_send_reject = False,
     out_send_reject = False, default_local_cidr_any = False\<rparr>"

definition sample_remote :: "(ipaddr \<times> u8) peer_identity" where
  "sample_remote = \<lparr>pi_name = ''host1'', pi_groups = {''default-group''}, pi_ca_name = [], pi_ca_sha = [],
     pi_vpn_networks = [(V4 0x0A000002, 32)], pi_unsafe_networks = []\<rparr>"

definition sample_fw :: "(ipaddr \<times> u8) firewall" where
  "sample_fw = \<lparr>fw_rules = \<lparr>vr_version = 0, vr_rules = sample_rules\<rparr>, fw_conntrack = conntrack_new,
     fw_options = sample_options, fw_routable = [(V4 0x0A000001, 32)]\<rparr>"

lemma sample_fw_new:
  "firewall_new cidr_ops sample_rules sample_options [(V4 0x0A000001, 8)] [] = Some sample_fw"
  by (simp add: firewall_new_def sample_fw_def)

lemma sample_rules_match [simp]:
  "ruleset_matches N sample_rules p incoming remote \<longleftrightarrow> incoming"
  by (cases "protocol p") (auto simp: sample_rules_def matches_defs default_defs PORT_FRAGMENT_def)

lemma sample_check [simp]:
  "check_packet cidr_ops [(V4 0x0A000001, 32)] sample_rules sample_packet True sample_remote = Inr ()"
  by (simp add: check_packet_def owns_def sample_remote_def sample_packet_def)

lemma sample_first:
  "conntrack_phase N opts vr p remote now conntrack_new = (conntrack_new, False)"
  by (simp add: conntrack_phase_def conntrack_get_def conntrack_new_def purge_expired.simps)

lemma sample_evaluate:
  "snd (evaluate cidr_ops sample_packet True sample_remote 5 sample_fw) = Inr ()"
  by (simp add: evaluate_result sample_first sample_fw_def)

section \<open>Properties\<close>

text \<open>C6: The decision of \<open>evaluate\<close> on every branch on which it returns: a live flow recorded under the current rule
  version, or admitted by the current rules in its recorded direction, passes; otherwise the
  packet is dropped as \<open>InvalidRemoteIp\<close> when no network of the peer contains its remote address, as
  \<open>InvalidLocalIp\<close> when no routable network contains its local address, as \<open>NoMatchingRule\<close> when
  no rule admits it in its own direction, in this order, and passes otherwise. The table and its
  heap do not otherwise influence the verdict.\<close>

theorem evaluate_decision:
  assumes "fw_inv t fw" and "t \<le> now"
    and "fresh =
      (if \<not> (\<exists>n \<in> set (pi_vpn_networks remote) \<union> set (pi_unsafe_networks remote). net_contains N n (remote_addr p))
       then Inl InvalidRemoteIp
       else if \<not> (\<exists>n \<in> set (fw_routable fw). net_contains N n (local_addr p)) then Inl InvalidLocalIp
       else if \<not> ruleset_matches N (vr_rules (fw_rules fw)) p incoming remote then Inl NoMatchingRule
       else Inr ())"
  shows "snd (evaluate N p incoming remote now fw) =
    (case flow_view (fw_conntrack fw) now p of
       Some (d, v) \<Rightarrow>
         if v = vr_version (fw_rules fw) \<or> ruleset_matches N (vr_rules (fw_rules fw)) p d remote then Inr () else fresh
     | None \<Rightarrow> fresh)"
proof -
  have "ct_inv (fw_conntrack fw)" using assms by (simp add: fw_inv_def)
  moreover have "check_packet N (fw_routable fw) (vr_rules (fw_rules fw)) p incoming remote = fresh"
    unfolding assms(3) check_packet_def owns_def list_ex_iff by auto
  ultimately show ?thesis
    by (simp add: evaluate_result conntrack_phase_hit split: option.split)
qed

theorem evaluate_decision_witness:
  "snd (evaluate cidr_ops sample_packet False sample_remote 5 sample_fw) = Inl NoMatchingRule"
proof -
  have "fw_inv 0 sample_fw" by (rule fw_inv_new [OF sample_fw_new])
  from evaluate_decision [OF this _ refl, where now = 5 and N = cidr_ops and p = sample_packet and incoming = False
      and remote = sample_remote]
  show ?thesis
    by (simp add: sample_fw_def flow_view_def live_def conntrack_new_def sample_remote_def sample_packet_def)
qed

text \<open>A packet of no live flow passes only when the peer owns the remote address, the local
  address is routable and the current rules admit it in its direction.\<close>

theorem evaluate_new_flow_sound:
  assumes "fw_inv t fw" and "t \<le> now" and "flow_view (fw_conntrack fw) now p = None"
    and "snd (evaluate N p incoming remote now fw) = Inr ()"
  shows "owns N remote (remote_addr p) \<and> (\<exists>n \<in> set (fw_routable fw). net_contains N n (local_addr p))
    \<and> ruleset_matches N (vr_rules (fw_rules fw)) p incoming remote"
  using assms conntrack_phase_hit [of "fw_conntrack fw" N "fw_options fw" "fw_rules fw" p remote now]
  by (simp add: fw_inv_def evaluate_result check_packet_ok)

theorem evaluate_new_flow_sound_witness:
  "owns cidr_ops sample_remote (remote_addr sample_packet)
   \<and> (\<exists>n \<in> set (fw_routable sample_fw). net_contains cidr_ops n (local_addr sample_packet))
   \<and> ruleset_matches cidr_ops (vr_rules (fw_rules sample_fw)) sample_packet True sample_remote"
proof (rule evaluate_new_flow_sound [where t = 0 and now = 5])
  show "fw_inv 0 sample_fw" by (rule fw_inv_new [OF sample_fw_new])
  show "flow_view (fw_conntrack sample_fw) 5 sample_packet = None"
    by (simp add: sample_fw_def flow_view_def live_def conntrack_new_def)
qed (simp_all add: sample_evaluate)

text \<open>C33: Once a packet has passed, every packet of the same tuple passes in both directions and for
  any peer until the protocol's timeout, as long as the rules are not reloaded.\<close>

theorem evaluate_return_leg:
  assumes "fw_inv t fw" and "t \<le> now" and "snd (evaluate N p incoming remote now fw) = Inr ()"
    and "now \<le> now'" and "now' < now + timeout_for (fw_options fw) (protocol p)"
  shows "snd (evaluate N p incoming' remote' now' (fst (evaluate N p incoming remote now fw))) = Inr ()"
proof -
  let ?fw' = "fst (evaluate N p incoming remote now fw)"
  have "ct_inv (fw_conntrack ?fw')"
    using fw_inv_evaluate [OF assms(1,2), of N p incoming remote] by (simp add: fw_inv_def)
  with evaluate_ok_tracks [OF assms(3,5)] show ?thesis
    by (auto simp: evaluate_result conntrack_phase_hit evaluate_keeps)
qed

theorem evaluate_return_leg_witness:
  "snd (evaluate cidr_ops sample_packet False sample_remote 64
     (fst (evaluate cidr_ops sample_packet True sample_remote 5 sample_fw))) = Inr ()"
  by (rule evaluate_return_leg [where t = 0])
    (simp_all add: fw_inv_new [OF sample_fw_new] sample_evaluate,
     simp add: sample_fw_def sample_packet_def sample_options_def)

text \<open>\<open>Firewall::new\<close> never panics, and the local address check it sets up admits exactly the
  node's own assigned addresses, whatever prefix they were assigned with, and the addresses
  inside its unsafe networks.\<close>

theorem firewall_new_routable:
  assumes "ipnet_laws N"
  shows "\<exists>fw. firewall_new N rules opts assigned unsafe = Some fw \<and>
    (\<forall>a. (\<exists>n \<in> set (fw_routable fw). net_contains N n a) \<longleftrightarrow>
       a \<in> net_addr N ` set assigned \<or> (\<exists>n \<in> set unsafe. net_contains N n a))"
  using assms by (rule firewall_new_routes)

theorem firewall_new_routable_witness:
  "\<exists>fw. firewall_new cidr_ops sample_rules sample_options [(V4 0x01010101, 8)] [] = Some fw \<and>
    (\<forall>a. (\<exists>n \<in> set (fw_routable fw). net_contains cidr_ops n a) \<longleftrightarrow> a = V4 0x01010101)"
  using firewall_new_routable [OF cidr_ops_laws, of sample_rules sample_options "[(V4 0x01010101, 8)]" "[]"]
  by simp

text \<open>C5: However evaluations and reloads interleave, a tracked flow that carries the current rule
  version is admitted, in its recorded direction, by the rules installed now, provided the
  16-bit version has not wrapped: the fast path never outlives the rules that opened it.\<close>

theorem current_version_flows_admitted:
  assumes "fw_init N s" and "(fw_step N)\<^sup>*\<^sup>* s s'" and "length (sys_history s') \<le> 65536"
    and "conns (fw_conntrack (sys_fw s')) p = Some e"
    and "rules_version e = vr_version (fw_rules (sys_fw s'))"
  shows "\<exists>remote. ruleset_matches N (vr_rules (fw_rules (sys_fw s'))) p (ce_incoming e) remote"
proof -
  have inv: "fw_sys_inv N s'" using assms(1,2) by (rule fw_machine.reachable_inv)
  then obtain g remote where g: "g < length (sys_history s')"
    and v: "of_nat g = rules_version e" and m: "ruleset_matches N (sys_history s' ! g) p (ce_incoming e) remote"
    using assms(4) by (fastforce simp: fw_sys_inv_def ct_justified_def justified_def)
  have "(of_nat g :: u16) = of_nat (length (sys_history s') - 1)"
    using inv v assms(5) by (simp add: fw_sys_inv_def)
  moreover have "g < 65536" and "length (sys_history s') - 1 < 65536" using g assms(3) by auto
  ultimately have "g = length (sys_history s') - 1" by (simp only: of_nat_u16_inj)
  with m inv show ?thesis by (auto simp: fw_sys_inv_def last_conv_nth)
qed

theorem current_version_flows_admitted_witness:
  "\<exists>remote. ruleset_matches cidr_ops sample_rules sample_packet True remote"
proof -
  define s0 where "s0 = \<lparr>sys_fw = sample_fw, sys_jobs = Map.empty, sys_history = [sample_rules]\<rparr>"
  define j where "j = \<lparr>j_packet = sample_packet, j_incoming = True, j_remote = sample_remote, j_now = 5,
     j_rules = fw_rules sample_fw, j_missed = False\<rparr>"
  define s1 where "s1 = s0\<lparr>sys_jobs := (sys_jobs s0)(0 \<mapsto> j)\<rparr>"
  define s2 where "s2 = s1\<lparr>sys_fw := (sys_fw s1)\<lparr>fw_conntrack := conntrack_new\<rparr>,
     sys_jobs := (sys_jobs s1)(0 \<mapsto> j\<lparr>j_missed := True\<rparr>)\<rparr>"
  define s3 where "s3 = s2\<lparr>sys_fw := (sys_fw s2)\<lparr>fw_conntrack :=
      conntrack_record sample_packet True 0 5 60 conntrack_new\<rparr>, sys_jobs := (sys_jobs s2)(0 := None)\<rparr>"
  have "fw_init cidr_ops s0"
    unfolding fw_init_def s0_def using sample_fw_new by fastforce
  moreover have "fw_step cidr_ops s0 s1"
    unfolding s1_def j_def using fw_step.start [of s0 0] by (simp add: s0_def)
  moreover have "fw_step cidr_ops s1 s2"
    unfolding s2_def
    by (rule fw_step.miss) (simp_all add: s1_def s0_def j_def sample_fw_def sample_first)
  moreover have "fw_step cidr_ops s2 s3"
    using fw_step.accept [of s2 0 "j\<lparr>j_missed := True\<rparr>" cidr_ops]
    by (simp add: s3_def s2_def s1_def s0_def j_def sample_fw_def)
      (simp add: sample_packet_def sample_options_def)
  ultimately have "fw_init cidr_ops s0" and "(fw_step cidr_ops)\<^sup>*\<^sup>* s0 s3"
    by (auto intro: rtranclp.rtrancl_into_rtrancl)
  from current_version_flows_admitted [OF this, of sample_packet
      "\<lparr>expires = 65, ce_incoming = True, rules_version = 0\<rparr>"]
  show ?thesis
    by (simp add: s3_def s2_def s1_def s0_def sample_fw_def conns_record)
qed

text \<open>C40: The version is 16 bits wide: after 65536 reloads it is back at its old value, and a flow that
  stayed alive is accepted without being checked against the new rules, even when these admit
  nothing.\<close>

theorem stale_flow_after_version_wrap:
  assumes "fw_inv t fw" and "t \<le> now"
    and "flow_view (fw_conntrack fw) now p = Some (d, vr_version (fw_rules fw))"
  shows "snd (evaluate N p incoming remote now ((reload rules ^^ 65536) fw)) = Inr ()"
proof -
  have iter: "fw_conntrack ((reload rules ^^ n) fw) = fw_conntrack fw
      \<and> vr_version (fw_rules ((reload rules ^^ n) fw)) = vr_version (fw_rules fw) + of_nat n" for n
    by (induction n) (auto simp: reload_def)
  have "ct_inv (fw_conntrack fw)" using assms(1) by (simp add: fw_inv_def)
  then show ?thesis
    using assms(3) iter [of 65536] by (auto simp: evaluate_result conntrack_phase_hit)
qed

definition no_rules :: "'net ruleset" where
  "no_rules = \<lparr>rs_inbound = direction_default, rs_outbound = direction_default\<rparr>"

theorem stale_flow_after_version_wrap_witness:
  "snd (evaluate cidr_ops sample_packet False sample_remote 64 ((reload no_rules ^^ 65536)
     (fst (evaluate cidr_ops sample_packet True sample_remote 5 sample_fw)))) = Inr ()"
proof (rule stale_flow_after_version_wrap [where t = 5 and d = True])
  show "fw_inv 5 (fst (evaluate cidr_ops sample_packet True sample_remote 5 sample_fw))"
    by (rule fw_inv_evaluate [where t = 0]) (simp_all add: fw_inv_new [OF sample_fw_new])
  show "flow_view (fw_conntrack (fst (evaluate cidr_ops sample_packet True sample_remote 5 sample_fw))) 64
      sample_packet
    = Some (True, vr_version (fw_rules (fst (evaluate cidr_ops sample_packet True sample_remote 5 sample_fw))))"
    by (simp add: evaluate_keeps, simp add: evaluate_def sample_first sample_fw_def Let_def ct.flows_record)
      (simp add: sample_packet_def sample_options_def)
qed simp

end
