(* ===== verification/Peer_Identity.thy ===== *)
theory Peer_Identity
  imports Session Firewall
begin

text \<open>
  \<open>nebula-listener/src/identity.rs\<close>: the identity of a peer as the firewall sees it, made from the
  networks of its certificate. \<open>None\<close> is the panic of an \<open>expect\<close>.
\<close>

section \<open>Identities\<close>

text \<open>\<open>expect\<close> panics when \<open>IpNet::new\<close> refuses the prefix length.\<close>

definition to_ipnet :: "'net ipnet_ops \<Rightarrow> network \<Rightarrow> 'net option" where
  "to_ipnet N n = net_new N (nw_addr n) (nw_prefix_len n)"

definition to_host_route :: "'net ipnet_ops \<Rightarrow> network \<Rightarrow> 'net option" where
  "to_host_route N n = net_new N (nw_addr n) (max_prefix_len (nw_addr n))"

definition peer_identity_of ::
  "'net ipnet_ops \<Rightarrow> peer_info \<Rightarrow> string \<Rightarrow> string \<Rightarrow> 'net peer_identity option" where
  "peer_identity_of N info ca_name ca_sha = do {
     vpn \<leftarrow> those (map (to_host_route N) (info_networks info));
     uns \<leftarrow> those (map (to_ipnet N) (info_unsafe_networks info));
     Some \<lparr>pi_name = info_name info, pi_groups = set (info_groups info), pi_ca_name = ca_name,
       pi_ca_sha = ca_sha, pi_vpn_networks = vpn, pi_unsafe_networks = uns\<rparr> }"

section \<open>Identities of verified peers\<close>

lemma those_None: "those xs = None \<longleftrightarrow> None \<in> set xs"
  by (induction xs) (auto split: option.split)

lemma those_Some: "those xs = Some ys \<longleftrightarrow> xs = map Some ys"
  by (induction xs arbitrary: ys) (auto split: option.split simp: Cons_eq_map_conv)

lemma to_host_route_total: "ipnet_laws N \<Longrightarrow> to_host_route N n \<noteq> None"
  by (simp add: to_host_route_def ipnet_new_None)

lemma to_ipnet_None:
  "ipnet_laws N \<Longrightarrow> to_ipnet N n = None \<longleftrightarrow> max_prefix_len (nw_addr n) < nw_prefix_len n"
  by (simp add: to_ipnet_def ipnet_new_None)

lemma those_map_None: "those (map f xs) = None \<longleftrightarrow> (\<exists>x \<in> set xs. f x = None)"
  by (auto simp: those_None image_iff intro: sym)

lemma peer_identity_None:
  assumes "ipnet_laws N"
  shows "peer_identity_of N info ca_name ca_sha = None \<longleftrightarrow>
    (\<exists>n \<in> set (info_unsafe_networks info). max_prefix_len (nw_addr n) < nw_prefix_len n)"
proof -
  have "those (map (to_host_route N) (info_networks info)) \<noteq> None"
    by (simp add: those_map_None to_host_route_total [OF assms])
  moreover have "those (map (to_ipnet N) (info_unsafe_networks info)) = None \<longleftrightarrow>
      (\<exists>n \<in> set (info_unsafe_networks info). max_prefix_len (nw_addr n) < nw_prefix_len n)"
    by (simp add: those_map_None to_ipnet_None [OF assms])
  ultimately show ?thesis by (auto simp: peer_identity_of_def)
qed

text \<open>What a peer owns: the addresses of its networks, and its unsafe networks in full.\<close>

definition cert_owns :: "peer_info \<Rightarrow> ipaddr \<Rightarrow> bool" where
  "cert_owns info a \<longleftrightarrow> (\<exists>n \<in> set (info_networks info). nw_addr n = a) \<or>
     (\<exists>n \<in> set (info_unsafe_networks info). in_prefix (nw_addr n) (unat (nw_prefix_len n)) a)"

lemma to_ipnet_contains:
  assumes "ipnet_laws N" and "to_ipnet N n = Some m"
  shows "net_contains N m a \<longleftrightarrow> in_prefix (nw_addr n) (unat (nw_prefix_len n)) a"
  using assms ipnet_new_addr [OF assms(1)] ipnet_new_prefix [OF assms(1)]
  by (simp add: ipnet_contains to_ipnet_def)

lemma peer_identity_owns:
  assumes "ipnet_laws N" and "peer_identity_of N info ca_name ca_sha = Some peer"
  shows "owns N peer a \<longleftrightarrow> cert_owns info a"
proof -
  from assms(2) obtain vpn uns where vpn: "map (to_host_route N) (info_networks info) = map Some vpn"
    and uns: "map (to_ipnet N) (info_unsafe_networks info) = map Some uns"
    and peer: "pi_vpn_networks peer = vpn" "pi_unsafe_networks peer = uns"
    by (auto simp: peer_identity_of_def those_Some bind_eq_Some_conv)
  have "Some ` set vpn = to_host_route N ` set (info_networks info)"
    and "Some ` set uns = to_ipnet N ` set (info_unsafe_networks info)"
    using arg_cong [OF vpn, of set] arg_cong [OF uns, of set] by simp_all
  then have v: "m \<in> set vpn \<longleftrightarrow> (\<exists>n \<in> set (info_networks info). to_host_route N n = Some m)"
    and u: "m \<in> set uns \<longleftrightarrow> (\<exists>n \<in> set (info_unsafe_networks info). to_ipnet N n = Some m)" for m
    by (metis (no_types, lifting) image_iff option.inject)+
  have hosts: "(\<exists>m \<in> set vpn. net_contains N m a) \<longleftrightarrow> (\<exists>n \<in> set (info_networks info). nw_addr n = a)"
    unfolding v Bex_def using host_route_contains [OF assms(1)] host_route_exists [OF assms(1)]
    by (metis to_host_route_def v)
  have ex: "\<exists>m. to_ipnet N n = Some m" if "n \<in> set (info_unsafe_networks info)" for n
    using that uns by (metis (no_types, lifting) image_iff list.set_map)
  have "(\<exists>m \<in> set uns. net_contains N m a) \<longleftrightarrow>
      (\<exists>n \<in> set (info_unsafe_networks info). in_prefix (nw_addr n) (unat (nw_prefix_len n)) a)"
    unfolding Bex_def u using to_ipnet_contains [OF assms(1)] ex by blast
  with hosts show ?thesis by (auto simp: owns_iff peer cert_owns_def)
qed

end
