(* ===== verification/Listener_Packet.thy ===== *)
theory Listener_Packet
  imports Fw_Packet "HOL-Library.Monad_Syntax"
begin

text \<open>
  \<open>nebula-listener/src/packet.rs\<close>: the parser that maps a raw IPv4 or IPv6 packet to the
  firewall's 5-tuple. Indexing a slice may panic, so every function here has an outer
  \<open>option\<close> whose \<open>None\<close> is a panic; the inner \<open>option\<close> is the code's own, with
  \<open>None\<close> for a packet that is dropped as unparseable.
\<close>

section \<open>The parser\<close>

record five_tuple =
  ft_src :: ipaddr
  ft_dst :: ipaddr
  ft_protocol :: protocol
  ft_src_port :: u16
  ft_dst_port :: u16
  ft_icmp_identifier :: "u16 option"
  ft_fragment :: bool

text \<open>\<open>&raw[i..]\<close>, which panics past the end, and \<open>u16::from_be_bytes([raw[i], raw[i + 1]])\<close>.\<close>

definition slice_from :: "bytes \<Rightarrow> nat \<Rightarrow> bytes option" where
  "slice_from raw i = (if i \<le> length raw then Some (drop i raw) else None)"

definition index_be16 :: "bytes \<Rightarrow> nat \<Rightarrow> u16 option" where
  "index_be16 raw i = do { hi \<leftarrow> get raw i; lo \<leftarrow> get raw (i + 1); Some (be16 hi lo) }"

definition read_ports :: "bytes \<Rightarrow> (u16 \<times> u16) option" where
  "read_ports l4 =
     (if length l4 < 4 then Some (0, 0)
      else do { src \<leftarrow> index_be16 l4 0; dst \<leftarrow> index_be16 l4 2; Some (src, dst) })"

definition index_ipv4 :: "bytes \<Rightarrow> nat \<Rightarrow> ipaddr option" where
  "index_ipv4 raw i = do {
     a \<leftarrow> get raw i; b \<leftarrow> get raw (i + 1); c \<leftarrow> get raw (i + 2); d \<leftarrow> get raw (i + 3);
     Some (V4 (from_be [a, b, c, d])) }"

definition parse_ipv4 :: "bytes \<Rightarrow> five_tuple option option" where
  "parse_ipv4 raw =
     (if length raw < 20 then Some None
      else do {
        b0 \<leftarrow> get raw 0;
        let ihl = unat (b0 AND 0x0f) * 4;
        if ihl < 20 \<or> length raw < ihl then Some None
        else do {
          proto_num \<leftarrow> get raw 9;
          frag_word \<leftarrow> index_be16 raw 6;
          let frag_offset = frag_word AND 0x1fff;
          let fragment = (frag_offset \<noteq> 0);
          src \<leftarrow> index_ipv4 raw 12;
          dst \<leftarrow> index_ipv4 raw 16;
          let protocol = protocol_from proto_num;
          let need = ihl + (if protocol = Icmp then 6 else 4);
          if frag_offset = 0 \<and> length raw < need then Some None
          else do {
            (src_port, dst_port) \<leftarrow>
              (if frag_offset = 0 \<and> protocol \<in> {Tcp, Udp}
               then do { l4 \<leftarrow> slice_from raw ihl; read_ports l4 }
               else Some (0, 0));
            icmp_identifier \<leftarrow>
              (if frag_offset = 0 \<and> protocol = Icmp
               then do { ident \<leftarrow> index_be16 raw (ihl + 4); Some (Some ident) }
               else Some None);
            Some (Some \<lparr>ft_src = src, ft_dst = dst, ft_protocol = protocol, ft_src_port = src_port,
              ft_dst_port = dst_port, ft_icmp_identifier = icmp_identifier, ft_fragment = fragment\<rparr>)
          }
        }
      })"

definition NH_TCP :: u8 where "NH_TCP = 6"
definition NH_UDP :: u8 where "NH_UDP = 17"
definition NH_FRAGMENT :: u8 where "NH_FRAGMENT = 44"
definition NH_ESP :: u8 where "NH_ESP = 50"
definition NH_AH :: u8 where "NH_AH = 51"
definition NH_ICMPV6 :: u8 where "NH_ICMPV6 = 58"
definition NH_NO_NEXT :: u8 where "NH_NO_NEXT = 59"

lemmas NH_defs = NH_TCP_def NH_UDP_def NH_FRAGMENT_def NH_ESP_def NH_AH_def NH_ICMPV6_def NH_NO_NEXT_def

text \<open>The transport part of the tuple, which the walk over the extension headers ends with.\<close>

type_synonym terminal = "protocol \<times> u16 \<times> u16 \<times> u16 option \<times> bool"

text \<open>The loop of \<open>parse_ipv6\<close>: \<open>proto_at\<close> indexes the byte naming the next header,
  \<open>offset\<close> is where that header starts. Each extension header has at least 8 bytes, so
  the distance from \<open>offset\<close> to the end of the packet shrinks.\<close>

function walk_ipv6 :: "bytes \<Rightarrow> nat \<Rightarrow> nat \<Rightarrow> terminal option option" where
  "walk_ipv6 raw proto_at offset =
     (case get raw proto_at of
        None \<Rightarrow> Some None
      | Some next_header \<Rightarrow>
          let protocol = protocol_from next_header in
          if next_header = NH_ESP \<or> next_header = NH_NO_NEXT then Some (Some (protocol, 0, 0, None, False))
          else if next_header = NH_ICMPV6 then
            (if length raw < offset + 6 then Some None
             else do {
               type \<leftarrow> get raw offset;
               ident \<leftarrow> (if type = 128 \<or> type = 129
                     then do { ident \<leftarrow> index_be16 raw (offset + 4); Some (Some ident) } else Some None);
               Some (Some (protocol, 0, 0, ident, False)) })
          else if next_header = NH_TCP \<or> next_header = NH_UDP then
            (if length raw < offset + 4 then Some None
             else do {
               l4 \<leftarrow> slice_from raw offset;
               (src_port, dst_port) \<leftarrow> read_ports l4;
               Some (Some (protocol, src_port, dst_port, None, False)) })
          else if next_header = NH_FRAGMENT then
            (if length raw < offset + 8 then Some None
             else (case index_be16 raw (offset + 2) of
                     None \<Rightarrow> None
                   | Some w \<Rightarrow>
                       if w AND NOT 7 \<noteq> 0 then
                         do { inner \<leftarrow> get raw offset; Some (Some (protocol_from inner, 0, 0, None, True)) }
                       else walk_ipv6 raw offset (offset + 8)))
          else if next_header = NH_AH then
            (case get raw (offset + 1) of
               None \<Rightarrow> Some None
             | Some len \<Rightarrow> walk_ipv6 raw offset (offset + (unat len + 2) * 4))
          else
            (case get raw (offset + 1) of
               None \<Rightarrow> Some None
             | Some len \<Rightarrow> walk_ipv6 raw offset (offset + (unat len + 1) * 8)))"
  by pat_completeness auto
termination
  by (relation "measure (\<lambda>(raw, proto_at, offset). length raw - offset)") (auto simp: get_Some_iff)

declare walk_ipv6.simps [simp del]

definition parse_ipv6 :: "bytes \<Rightarrow> five_tuple option option" where
  "parse_ipv6 raw =
     (if length raw < 40 then Some None
      else do {
        src_octets \<leftarrow> get_range raw 8 24;
        dst_octets \<leftarrow> get_range raw 24 40;
        let src = V6 (from_be src_octets);
        let dst = V6 (from_be dst_octets);
        t \<leftarrow> walk_ipv6 raw 6 40;
        Some (map_option (\<lambda>(protocol, src_port, dst_port, icmp_identifier, fragment).
          \<lparr>ft_src = src, ft_dst = dst, ft_protocol = protocol, ft_src_port = src_port,
           ft_dst_port = dst_port, ft_icmp_identifier = icmp_identifier, ft_fragment = fragment\<rparr>) t)
      })"

definition orient :: "five_tuple \<Rightarrow> bool \<Rightarrow> packet" where
  "orient t incoming =
     (let (local_addr, remote_addr, local_port, remote_port) =
            (if incoming then (ft_dst t, ft_src t, ft_dst_port t, ft_src_port t)
             else (ft_src t, ft_dst t, ft_src_port t, ft_dst_port t));
          (local_port, remote_port) =
            (case ft_icmp_identifier t of Some ident \<Rightarrow> (0, ident) | None \<Rightarrow> (local_port, remote_port))
      in \<lparr>local_addr = local_addr, remote_addr = remote_addr, local_port = local_port,
          remote_port = remote_port, protocol = ft_protocol t, fragment = ft_fragment t\<rparr>)"

definition parse :: "bytes \<Rightarrow> bool \<Rightarrow> packet option option" where
  "parse raw incoming =
     (case get raw 0 of
        None \<Rightarrow> Some None
      | Some b0 \<Rightarrow>
          let version = drop_bit 4 b0 in
          map_option (map_option (\<lambda>t. orient t incoming))
            (if version = 4 then parse_ipv4 raw
             else if version = 6 then parse_ipv6 raw
             else Some None))"

section \<open>No index leaves the packet\<close>

lemma index_be16_in_range: "i + 1 < length raw \<Longrightarrow> index_be16 raw i = Some (be16 (raw ! i) (raw ! (i + 1)))"
  by (simp add: index_be16_def get_in_range)

lemma index_ipv4_in_range:
  "i + 3 < length raw \<Longrightarrow>
   index_ipv4 raw i = Some (V4 (from_be [raw ! i, raw ! (i + 1), raw ! (i + 2), raw ! (i + 3)]))"
  by (simp add: index_ipv4_def get_in_range)

lemma read_ports_total:
  "read_ports l4 =
     Some (if length l4 < 4 then (0, 0) else (be16 (l4 ! 0) (l4 ! 1), be16 (l4 ! 2) (l4 ! 3)))"
  by (simp add: read_ports_def index_be16_in_range numeral_eq_Suc)

lemmas in_range = index_be16_in_range index_ipv4_in_range read_ports_total get_in_range slice_from_def

lemma parse_ipv4_total: "parse_ipv4 raw \<noteq> None"
proof (cases "length raw < 20")
  case False
  then have "raw \<noteq> []" by auto
  with False have "get raw 0 = Some (raw ! 0)" "get raw 9 = Some (raw ! 9)"
    and "index_be16 raw 6 = Some (be16 (raw ! 6) (raw ! 7))"
    and "\<exists>a. index_ipv4 raw 12 = Some a" "\<exists>a. index_ipv4 raw 16 = Some a"
    by (simp_all add: in_range)
  with False show ?thesis
    by (auto simp: parse_ipv4_def Let_def in_range)
qed (simp add: parse_ipv4_def)

text \<open>One equation per kind of header, with the index reads resolved.\<close>

lemma walk_end: "length raw \<le> proto_at \<Longrightarrow> walk_ipv6 raw proto_at offset = Some None"
  by (simp add: walk_ipv6.simps [of raw proto_at offset] get_def)

lemma walk_opaque:
  assumes "get raw proto_at = Some nh" and "nh \<in> {NH_ESP, NH_NO_NEXT}"
  shows "walk_ipv6 raw proto_at offset = Some (Some (protocol_from nh, 0, 0, None, False))"
  using assms by (auto simp: walk_ipv6.simps [of raw proto_at offset])

lemma walk_icmpv6:
  assumes "get raw proto_at = Some NH_ICMPV6"
  shows "walk_ipv6 raw proto_at offset = Some (if length raw < offset + 6 then None
    else Some (IcmpV6, 0, 0, if raw ! offset = 128 \<or> raw ! offset = 129
      then Some (be16 (raw ! (offset + 4)) (raw ! (offset + 5))) else None, False))"
proof (cases "length raw < offset + 6")
  case True
  with assms show ?thesis by (simp add: walk_ipv6.simps [of raw proto_at offset] NH_defs)
next
  case False
  then have "index_be16 raw (offset + 4) = Some (be16 (raw ! (offset + 4)) (raw ! (offset + 5)))"
    and "get raw offset = Some (raw ! offset)"
    using index_be16_in_range [of "offset + 4" raw] by (simp_all add: get_def numeral_eq_Suc)
  with False assms show ?thesis
    by (simp add: walk_ipv6.simps [of raw proto_at offset] NH_defs protocol_from_def)
qed

lemma walk_ports:
  assumes "get raw proto_at = Some nh" and "nh \<in> {NH_TCP, NH_UDP}"
  shows "walk_ipv6 raw proto_at offset = Some (if length raw < offset + 4 then None
    else Some (protocol_from nh, be16 (raw ! offset) (raw ! (offset + 1)),
      be16 (raw ! (offset + 2)) (raw ! (offset + 3)), None, False))"
  using assms by (auto simp: walk_ipv6.simps [of raw proto_at offset] Let_def in_range NH_defs)

lemma walk_fragment:
  assumes "get raw proto_at = Some NH_FRAGMENT"
  shows "walk_ipv6 raw proto_at offset = (if length raw < offset + 8 then Some None
    else if be16 (raw ! (offset + 2)) (raw ! (offset + 3)) AND NOT 7 \<noteq> 0
    then Some (Some (protocol_from (raw ! offset), 0, 0, None, True))
    else walk_ipv6 raw offset (offset + 8))"
proof (cases "length raw < offset + 8")
  case True
  with assms show ?thesis by (simp add: walk_ipv6.simps [of raw proto_at offset] NH_defs)
next
  case False
  then have "index_be16 raw (offset + 2) = Some (be16 (raw ! (offset + 2)) (raw ! (offset + 3)))"
    and "get raw offset = Some (raw ! offset)"
    using index_be16_in_range [of "offset + 2" raw] by (simp_all add: get_def numeral_eq_Suc)
  with False assms show ?thesis by (simp add: walk_ipv6.simps [of raw proto_at offset] NH_defs)
qed

lemma walk_extension:
  assumes "get raw proto_at = Some nh"
    and "nh \<notin> {NH_ESP, NH_NO_NEXT, NH_ICMPV6, NH_TCP, NH_UDP, NH_FRAGMENT}"
  shows "walk_ipv6 raw proto_at offset = (if length raw \<le> offset + 1 then Some None
    else walk_ipv6 raw offset (offset + (if nh = NH_AH then (unat (raw ! (offset + 1)) + 2) * 4
      else (unat (raw ! (offset + 1)) + 1) * 8)))"
  using assms by (subst walk_ipv6.simps) (auto simp: Let_def get_def)

lemma walk_ipv6_total: "walk_ipv6 raw proto_at offset \<noteq> None"
proof (induction raw proto_at offset rule: walk_ipv6.induct)
  case (1 raw proto_at offset)
  then show ?case
    by (subst walk_ipv6.simps) (auto simp: Let_def in_range split: option.split)
qed

lemma parse_ipv6_total: "parse_ipv6 raw \<noteq> None"
  using walk_ipv6_total [of raw 6 40] by (auto simp: parse_ipv6_def get_range_def)

section \<open>Orientation\<close>

text \<open>ICMP tuples have no ports: the identifier, if any, is theirs alone.\<close>

definition terminal_wf :: "terminal \<Rightarrow> bool" where
  "terminal_wf t = (case t of (proto, src_port, dst_port, ident, frag) \<Rightarrow>
     (if proto \<in> {Icmp, IcmpV6} then src_port = 0 \<and> dst_port = 0 else ident = None) \<and>
     (frag \<longrightarrow> src_port = 0 \<and> dst_port = 0 \<and> ident = None))"

definition ft_terminal :: "five_tuple \<Rightarrow> terminal" where
  "ft_terminal t = (ft_protocol t, ft_src_port t, ft_dst_port t, ft_icmp_identifier t, ft_fragment t)"

lemma if_unparsed: "(if c then Some None else r) = Some (Some t) \<longleftrightarrow> \<not> c \<and> r = Some (Some t)"
  by simp

lemma parse_ipv4_wf:
  assumes "parse_ipv4 raw = Some (Some t)"
  shows "terminal_wf (ft_terminal t)"
proof -
  from assms obtain f ports ident l4 i where
    "(if f \<and> ft_protocol t \<in> {Tcp, Udp} then l4 else Some (0, 0)) = Some ports"
    and "(if f \<and> ft_protocol t = Icmp then i else Some None) = Some ident"
    and "ft_terminal t = (ft_protocol t, fst ports, snd ports, ident, \<not> f)"
    unfolding parse_ipv4_def Let_def if_unparsed bind_eq_Some_conv ft_terminal_def case_prod_unfold
    by clarsimp
  then show ?thesis by (cases f) (auto simp: terminal_wf_def split: if_splits)
qed

lemma walk_ipv6_wf: "walk_ipv6 raw proto_at offset = Some (Some t) \<Longrightarrow> terminal_wf t"
proof (induction "length raw - offset" arbitrary: proto_at offset rule: less_induct)
  case less
  show ?case
  proof (cases "get raw proto_at")
    case None
    with less.prems show ?thesis by (simp add: walk_end)
  next
    case (Some nh)
    have step: "terminal_wf t" if "walk_ipv6 raw offset (offset + k) = Some (Some t)"
      "offset < length raw" "0 < k" for k
      using less.hyps [OF _ that(1)] that(2,3) by simp
    consider "nh \<in> {NH_ESP, NH_NO_NEXT}" | "nh = NH_ICMPV6" | "nh \<in> {NH_TCP, NH_UDP}"
      | "nh = NH_FRAGMENT"
      | "nh \<notin> {NH_ESP, NH_NO_NEXT, NH_ICMPV6, NH_TCP, NH_UDP, NH_FRAGMENT}" by blast
    then show ?thesis
    proof cases
      case 1
      with walk_opaque [OF Some] less.prems show ?thesis
        by (auto simp: terminal_wf_def NH_defs protocol_from_def)
    next
      case 2
      with walk_icmpv6 [of raw proto_at offset] Some less.prems show ?thesis
        by (auto simp: terminal_wf_def split: if_splits)
    next
      case 3
      with walk_ports [OF Some] less.prems show ?thesis
        by (auto simp: terminal_wf_def NH_defs protocol_from_def split: if_splits)
    next
      case 4
      with walk_fragment [of raw proto_at offset] Some less.prems step [of 8] show ?thesis
        by (auto simp: terminal_wf_def split: if_splits)
    next
      case 5
      with walk_extension [OF Some] less.prems step show ?thesis
        by (auto split: if_splits)
    qed
  qed
qed

lemma parse_ipv6_wf: "parse_ipv6 raw = Some (Some t) \<Longrightarrow> terminal_wf (ft_terminal t)"
  by (auto simp: parse_ipv6_def ft_terminal_def bind_eq_Some_conv split: if_splits dest!: walk_ipv6_wf)

text \<open>The same flow seen from the other end.\<close>

definition flip :: "packet \<Rightarrow> packet" where
  "flip p = p\<lparr>local_addr := remote_addr p, remote_addr := local_addr p,
     local_port := (if protocol p \<in> {Icmp, IcmpV6} then local_port p else remote_port p),
     remote_port := (if protocol p \<in> {Icmp, IcmpV6} then remote_port p else local_port p)\<rparr>"

lemma orient_flip: "terminal_wf (ft_terminal t) \<Longrightarrow> orient t False = flip (orient t True)"
  by (cases "ft_icmp_identifier t")
    (auto simp: orient_def flip_def terminal_wf_def ft_terminal_def split: if_splits)

section \<open>Extension-header chains\<close>

text \<open>
  An IPv6 packet as a sender lays it out: the fixed header, extension headers and the upper-layer
  payload. A generic header of length field \<open>n\<close> has \<open>8 * (n + 1)\<close> bytes, an
  authentication header \<open>4 * (n + 2)\<close>, and a fragment header with offset 0 (a first or
  unfragmented piece) has 8. The first byte of each header names what follows it.
\<close>

datatype ext_header =
    Generic u8 u8 bytes
  | Auth u8 bytes
  | FirstFragment u8 u8 u8 bytes

fun ext_kind :: "ext_header \<Rightarrow> u8" where
  "ext_kind (Generic kind len body) = kind"
| "ext_kind (Auth len body) = NH_AH"
| "ext_kind (FirstFragment reserved hi lo body) = NH_FRAGMENT"

fun ext_body :: "ext_header \<Rightarrow> bytes" where
  "ext_body (Generic kind len body) = len # body"
| "ext_body (Auth len body) = len # body"
| "ext_body (FirstFragment reserved hi lo body) = reserved # hi # lo # body"

fun ext_wf :: "ext_header \<Rightarrow> bool" where
  "ext_wf (Generic kind len body) =
     (kind \<notin> {NH_ESP, NH_NO_NEXT, NH_ICMPV6, NH_TCP, NH_UDP, NH_FRAGMENT, NH_AH} \<and>
      length body + 2 = 8 * (unat len + 1))"
| "ext_wf (Auth len body) = (length body + 2 = 4 * (unat len + 2))"
| "ext_wf (FirstFragment reserved hi lo body) = (be16 hi lo AND NOT 7 = 0 \<and> length body = 4)"

fun chain_kind :: "ext_header list \<Rightarrow> u8 \<Rightarrow> u8" where
  "chain_kind [] nh = nh"
| "chain_kind (e # es) nh = ext_kind e"

fun chain_bytes :: "ext_header list \<Rightarrow> u8 \<Rightarrow> bytes \<Rightarrow> bytes" where
  "chain_bytes [] nh l4 = l4"
| "chain_bytes (e # es) nh l4 = chain_kind es nh # ext_body e @ chain_bytes es nh l4"

definition ipv6_packet ::
  "bytes \<Rightarrow> u8 \<Rightarrow> u128 \<Rightarrow> u128 \<Rightarrow> ext_header list \<Rightarrow> u8 \<Rightarrow> bytes \<Rightarrow> bytes" where
  "ipv6_packet h hops src dst es nh l4 =
     h @ chain_kind es nh # hops # to_be 16 src @ to_be 16 dst @ chain_bytes es nh l4"

text \<open>What the walk makes of the upper-layer header once it is there.\<close>

definition l4_terminal :: "u8 \<Rightarrow> bytes \<Rightarrow> terminal option" where
  "l4_terminal nh l4 =
     (if nh = NH_ICMPV6 then
        (if length l4 < 6 then None
         else Some (IcmpV6, 0, 0,
           if l4 ! 0 = 128 \<or> l4 ! 0 = 129 then Some (be16 (l4 ! 4) (l4 ! 5)) else None, False))
      else if nh = NH_TCP \<or> nh = NH_UDP then
        (if length l4 < 4 then None
         else Some (protocol_from nh, be16 (l4 ! 0) (l4 ! 1), be16 (l4 ! 2) (l4 ! 3), None, False))
      else Some (protocol_from nh, 0, 0, None, False))"

abbreviation terminal_header :: "u8 \<Rightarrow> bool" where
  "terminal_header nh \<equiv> nh \<in> {NH_ESP, NH_NO_NEXT, NH_ICMPV6, NH_TCP, NH_UDP}"

lemma nth_append_length_first: "(xs @ ys) ! length xs = ys ! 0"
  by (simp add: nth_append)

lemma less_append_plus: "length (xs @ ys) < length xs + n \<longleftrightarrow> length ys < n"
  by simp

lemmas behind_prefix = nth_append_length_plus nth_append_length_first less_append_plus

lemma walk_upper_layer:
  assumes "terminal_header nh" and "get (pre @ l4) proto_at = Some nh"
  shows "walk_ipv6 (pre @ l4) proto_at (length pre) = Some (l4_terminal nh l4)"
proof -
  consider "nh \<in> {NH_ESP, NH_NO_NEXT}" | "nh = NH_ICMPV6" | "nh \<in> {NH_TCP, NH_UDP}"
    using assms(1) by blast
  then show ?thesis
  proof cases
    case 1
    with walk_opaque [OF assms(2)] show ?thesis by (auto simp: l4_terminal_def NH_defs)
  next
    case 2
    show ?thesis
      unfolding walk_icmpv6 [OF assms(2) [unfolded 2]] behind_prefix 2
      by (simp only: l4_terminal_def if_True simp_thms)
  next
    case 3
    then have "nh \<noteq> NH_ICMPV6" and "nh = NH_TCP \<or> nh = NH_UDP" by (auto simp: NH_defs)
    then show ?thesis
      unfolding walk_ports [OF assms(2) 3] behind_prefix
      by (simp only: l4_terminal_def if_True if_False simp_thms)
  qed
qed

lemma NH_AH_extends: "NH_AH \<notin> {NH_ESP, NH_NO_NEXT, NH_ICMPV6, NH_TCP, NH_UDP, NH_FRAGMENT}"
  by (simp add: NH_defs)

lemma walk_ext_step:
  assumes "ext_wf e" and "get raw proto_at = Some (ext_kind e)"
    and raw: "raw = pre @ nh # ext_body e @ rest"
  shows "walk_ipv6 raw proto_at (length pre) =
    walk_ipv6 raw (length pre) (length (pre @ nh # ext_body e))"
proof (cases e)
  case (Generic kind len body)
  with assms(1,2) walk_extension [of raw proto_at kind "length pre"] show ?thesis
    by (simp add: raw nth_append algebra_simps)
next
  case (Auth len body)
  with assms(1,2) walk_extension [OF _ NH_AH_extends, of raw proto_at "length pre"] show ?thesis
    by (simp add: raw nth_append algebra_simps)
next
  case (FirstFragment reserved hi lo body)
  with assms(1,2) walk_fragment [of raw proto_at "length pre"] show ?thesis
    by (simp add: raw nth_append algebra_simps)
qed

lemma walk_chain:
  assumes "\<forall>e \<in> set es. ext_wf e" and "terminal_header nh"
    and "get (pre @ chain_bytes es nh l4) proto_at = Some (chain_kind es nh)"
  shows "walk_ipv6 (pre @ chain_bytes es nh l4) proto_at (length pre) = Some (l4_terminal nh l4)"
  using assms
proof (induction es arbitrary: pre proto_at)
  case Nil
  then show ?case by (simp add: walk_upper_layer)
next
  case (Cons e es)
  let ?pre = "pre @ chain_kind es nh # ext_body e"
  have "walk_ipv6 (?pre @ chain_bytes es nh l4) (length pre) (length ?pre) = Some (l4_terminal nh l4)"
    by (rule Cons.IH) (use Cons.prems in \<open>simp_all add: get_append\<close>)
  with walk_ext_step [of e _ proto_at pre "chain_kind es nh" "chain_bytes es nh l4"] Cons.prems
  show ?case by simp
qed

lemma parse_ipv6_packet:
  assumes "length h = 6" and "\<forall>e \<in> set es. ext_wf e" and "terminal_header nh"
  shows "parse_ipv6 (ipv6_packet h hops src dst es nh l4) =
    Some (map_option (\<lambda>(proto, src_port, dst_port, ident, frag).
      \<lparr>ft_src = V6 src, ft_dst = V6 dst, ft_protocol = proto, ft_src_port = src_port,
       ft_dst_port = dst_port, ft_icmp_identifier = ident, ft_fragment = frag\<rparr>) (l4_terminal nh l4))"
proof -
  let ?pre = "h @ chain_kind es nh # hops # to_be 16 src @ to_be 16 dst"
  let ?raw = "ipv6_packet h hops src dst es nh l4"
  have raw: "?raw = ?pre @ chain_bytes es nh l4" by (simp add: ipv6_packet_def)
  have "get (?pre @ chain_bytes es nh l4) 6 = Some (chain_kind es nh)"
    using assms(1) by (simp add: get_append)
  from walk_chain [OF assms(2,3) this] assms(1)
  have walk: "walk_ipv6 ?raw 6 40 = Some (l4_terminal nh l4)" by (simp add: raw)
  have "get_range ?raw 8 24 = Some (to_be 16 src)"
    using get_range_append [of 8 "h @ [chain_kind es nh, hops]" 24 "to_be 16 src"
        "to_be 16 dst @ chain_bytes es nh l4"] assms(1) by (simp add: ipv6_packet_def)
  moreover have "get_range ?raw 24 40 = Some (to_be 16 dst)"
    using get_range_append [of 24 "h @ chain_kind es nh # hops # to_be 16 src" 40 "to_be 16 dst"
        "chain_bytes es nh l4"] assms(1) by (simp add: ipv6_packet_def)
  moreover have "\<not> length ?raw < 40" using assms(1) by (simp add: raw)
  ultimately show ?thesis using walk by (simp add: parse_ipv6_def)
qed

section \<open>IPv4 packets\<close>

text \<open>An IPv4 packet as a sender lays it out, options included.\<close>

definition ipv4_packet ::
  "u8 \<Rightarrow> u8 \<Rightarrow> u16 \<Rightarrow> u16 \<Rightarrow> u16 \<Rightarrow> u8 \<Rightarrow> u8 \<Rightarrow> u16 \<Rightarrow> u32 \<Rightarrow> u32 \<Rightarrow> bytes \<Rightarrow> bytes \<Rightarrow> bytes" where
  "ipv4_packet b0 tos len ident frag ttl proto csum src dst options l4 =
     [b0, tos] @ to_be 2 len @ to_be 2 ident @ to_be 2 frag @ [ttl, proto] @ to_be 2 csum
       @ to_be 4 src @ to_be 4 dst @ options @ l4"

definition ipv4_tuple :: "u8 \<Rightarrow> u32 \<Rightarrow> u32 \<Rightarrow> u16 \<Rightarrow> bytes \<Rightarrow> five_tuple option" where
  "ipv4_tuple proto src dst frag l4 =
     (let p = protocol_from proto;
          t = \<lparr>ft_src = V4 src, ft_dst = V4 dst, ft_protocol = p, ft_src_port = 0, ft_dst_port = 0,
               ft_icmp_identifier = None, ft_fragment = False\<rparr>
      in if frag AND 0x1fff \<noteq> 0 then Some (t\<lparr>ft_fragment := True\<rparr>)
         else if length l4 < (if p = Icmp then 6 else 4) then None
         else if p = Icmp then Some (t\<lparr>ft_icmp_identifier := Some (be16 (l4 ! 4) (l4 ! 5))\<rparr>)
         else if p \<in> {Tcp, Udp}
         then Some (t\<lparr>ft_src_port := be16 (l4 ! 0) (l4 ! 1), ft_dst_port := be16 (l4 ! 2) (l4 ! 3)\<rparr>)
         else Some t)"

lemma ipv4_packet_fields:
  assumes "raw = ipv4_packet b0 tos len ident frag ttl proto csum src dst options l4"
  shows "length raw = 20 + length options + length l4"
    and "get raw 0 = Some b0" and "get raw 9 = Some proto" and "index_be16 raw 6 = Some frag"
    and "index_ipv4 raw 12 = Some (V4 src)" and "index_ipv4 raw 16 = Some (V4 dst)"
    and "drop (20 + length options) raw = l4"
proof -
  have src: "from_be (to_be 4 src) = src" and dst: "from_be (to_be 4 dst) = dst" by simp_all
  show "index_ipv4 raw 12 = Some (V4 src)"
    using src by (simp add: assms ipv4_packet_def index_ipv4_def numeral_eq_Suc)
  show "index_ipv4 raw 16 = Some (V4 dst)"
    using dst by (simp add: assms ipv4_packet_def index_ipv4_def numeral_eq_Suc)
  show "index_be16 raw 6 = Some frag"
    using be16_to_be [of frag] by (simp add: assms ipv4_packet_def index_be16_def numeral_eq_Suc)
qed (simp_all add: assms ipv4_packet_def numeral_eq_Suc)

lemma parse_ipv4_packet:
  assumes "unat (b0 AND 0x0f) * 4 = 20 + length options"
  shows "parse_ipv4 (ipv4_packet b0 tos len ident frag ttl proto csum src dst options l4) =
    Some (ipv4_tuple proto src dst frag l4)"
proof -
  define raw where "raw = ipv4_packet b0 tos len ident frag ttl proto csum src dst options l4"
  note fields = ipv4_packet_fields [OF raw_def]
  have l4: "slice_from raw (20 + length options) = Some l4"
    using fields(1,7) by (simp add: slice_from_def)
  have icmp: "index_be16 raw (20 + length options + 4) = Some (be16 (l4 ! 4) (l4 ! 5))"
    if "6 \<le> length l4"
    using that index_be16_in_range [of "20 + length options + 4" raw] fields(1,7)
      nth_drop [of "20 + length options" raw 4] nth_drop [of "20 + length options" raw 5]
    by (simp add: add.commute add.left_commute)
  show ?thesis
    unfolding raw_def [symmetric] parse_ipv4_def ipv4_tuple_def
    using fields(1-6) l4 icmp assms by (auto simp: Let_def read_ports_total)
qed

lemma parse_total: "parse raw incoming \<noteq> None"
  using parse_ipv4_total [of raw] parse_ipv6_total [of raw]
  by (auto simp: parse_def Let_def split: option.split)

lemma parse_ipv4_bytes:
  assumes "drop_bit 4 b0 = (4 :: u8)" and "unat (b0 AND 0x0f) * 4 = 20 + length options"
  shows "parse (ipv4_packet b0 tos len ident frag ttl proto csum src dst options l4) incoming =
    Some (map_option (\<lambda>t. orient t incoming) (ipv4_tuple proto src dst frag l4))"
  using assms(1) parse_ipv4_packet [OF assms(2)] ipv4_packet_fields(2) [OF refl]
  by (simp add: parse_def Let_def)

fun same_family :: "ipaddr \<Rightarrow> ipaddr \<Rightarrow> bool" where
  "same_family (V4 _) (V4 _) = True"
| "same_family (V6 _) (V6 _) = True"
| "same_family _ _ = False"

lemma same_family_sym: "same_family a b = same_family b a"
  by (cases a; cases b) simp_all

lemma index_ipv4_V4: "index_ipv4 raw i = Some a \<Longrightarrow> \<exists>x. a = V4 x"
  by (auto simp: index_ipv4_def bind_eq_Some_conv)

lemma parse_family:
  "parse_ipv4 raw = Some (Some t) \<Longrightarrow> same_family (ft_src t) (ft_dst t)"
  "parse_ipv6 raw = Some (Some t) \<Longrightarrow> same_family (ft_src t) (ft_dst t)"
proof -
  assume "parse_ipv4 raw = Some (Some t)"
  then have "\<exists>a b. index_ipv4 raw 12 = Some a \<and> index_ipv4 raw 16 = Some b \<and> ft_src t = a \<and> ft_dst t = b"
    unfolding parse_ipv4_def Let_def if_unparsed bind_eq_Some_conv case_prod_unfold by clarsimp
  then show "same_family (ft_src t) (ft_dst t)" by (auto dest!: index_ipv4_V4)
next
  assume "parse_ipv6 raw = Some (Some t)"
  then show "same_family (ft_src t) (ft_dst t)"
    by (auto simp: parse_ipv6_def Let_def bind_eq_Some_conv split: if_splits)
qed

section \<open>Properties\<close>

text \<open>C30: \<open>parse\<close> never panics: whatever the bytes, no index or slice leaves the packet.\<close>

theorem parse_never_panics: "parse raw incoming \<noteq> None"
  by (rule parse_total)

text \<open>A packet parsed as outgoing is the packet parsed as incoming with the two ends exchanged:
  addresses and ports swap, while the ICMP identifier stays where it is, so that an echo request
  and its reply share one conntrack tuple.\<close>

theorem parse_directions: "parse raw False = map_option (map_option flip) (parse raw True)"
proof -
  have "map_option (map_option (\<lambda>t. orient t False)) r =
      map_option (map_option flip) (map_option (map_option (\<lambda>t. orient t True)) r)"
    if "\<And>t. r = Some (Some t) \<Longrightarrow> terminal_wf (ft_terminal t)" for r
    using that orient_flip by (cases r) (auto simp: option.map_comp intro!: map_option_cong)
  with parse_ipv4_wf [of raw] parse_ipv6_wf [of raw] show ?thesis
    by (auto simp: parse_def Let_def split: option.split)
qed

text \<open>C32: Every packet the parser delivers is well formed: both addresses are of one family, a
  fragment carries no ports, so that it meets only the rules for fragments, and an ICMP packet has
  local port 0, its identifier being the remote port.\<close>

theorem parse_well_formed:
  assumes "parse raw incoming = Some (Some p)"
  shows "same_family (local_addr p) (remote_addr p) \<and> (fragment p \<longrightarrow> local_port p = 0 \<and> remote_port p = 0) \<and>
    (protocol p \<in> {Icmp, IcmpV6} \<longrightarrow> local_port p = 0)"
proof -
  from assms obtain t where p: "p = orient t incoming" and t: "parse_ipv4 raw = Some (Some t) \<or> parse_ipv6 raw = Some (Some t)"
    by (auto simp: parse_def Let_def split: option.splits if_splits)
  from t parse_ipv4_wf parse_ipv6_wf have "terminal_wf (ft_terminal t)" by blast
  moreover from t have "same_family (ft_src t) (ft_dst t)" by (blast dest: parse_family)
  ultimately show ?thesis
    by (cases "ft_icmp_identifier t") (auto simp: p orient_def terminal_wf_def ft_terminal_def same_family_sym [of "ft_dst t"] split: if_splits)
qed

theorem parse_well_formed_witness:
  "local_port (orient \<lparr>ft_src = V4 1, ft_dst = V4 2, ft_protocol = Icmp, ft_src_port = 0, ft_dst_port = 0,
     ft_icmp_identifier = Some 7, ft_fragment = False\<rparr> True) = 0"
proof -
  have "parse (ipv4_packet 0x45 0 28 0 0 64 1 0 1 2 [] [8, 0, 0, 0, 0, 7, 0, 1]) True =
    Some (Some (orient \<lparr>ft_src = V4 1, ft_dst = V4 2, ft_protocol = Icmp, ft_src_port = 0, ft_dst_port = 0,
     ft_icmp_identifier = Some 7, ft_fragment = False\<rparr> True))"
    by (subst parse_ipv4_bytes) (simp_all add: ipv4_tuple_def protocol_from_def be_simps Let_def)
  from parse_well_formed [OF this] show ?thesis by (simp add: orient_def)
qed

text \<open>C29: Extension headers are transparent: behind any chain of well-formed IPv6 extension headers
  (generic ones up to 2048 bytes, authentication headers, fragment headers of a first fragment)
  \<open>parse\<close> finds the upper-layer header and reads the ports, or the ICMPv6 echo identifier,
  from it and from nowhere else; a packet is unparseable only when that header is cut off.\<close>

theorem parse_extension_chain:
  assumes "length h = 6" and "drop_bit 4 (h ! 0) = (6 :: u8)"
    and "\<forall>e \<in> set es. ext_wf e"
    and "nh \<in> {NH_ESP, NH_NO_NEXT, NH_ICMPV6, NH_TCP, NH_UDP}"
  shows "parse (ipv6_packet h hops src dst es nh l4) incoming =
    Some (map_option (\<lambda>(proto, src_port, dst_port, ident, frag).
      orient \<lparr>ft_src = V6 src, ft_dst = V6 dst, ft_protocol = proto, ft_src_port = src_port,
        ft_dst_port = dst_port, ft_icmp_identifier = ident, ft_fragment = frag\<rparr> incoming)
      (l4_terminal nh l4))"
proof -
  have "get (ipv6_packet h hops src dst es nh l4) 0 = Some (h ! 0)"
    using assms(1) by (cases h) (simp_all add: ipv6_packet_def)
  with assms(2) parse_ipv6_packet [OF assms(1,3,4)] show ?thesis
    by (simp add: parse_def Let_def option.map_comp comp_def case_prod_unfold)
qed

theorem parse_extension_chain_witness:
  "parse (ipv6_packet [0x60, 0, 0, 0, 0, 24] 64 1 2
      [Generic 0 0 [1, 4, 0, 0, 0, 0], FirstFragment 0 0 1 [0, 0, 0, 7]] NH_UDP
      [0x30, 0x39, 0, 53, 0, 8, 0, 0]) True =
    Some (Some \<lparr>local_addr = V6 2, remote_addr = V6 1, local_port = 53, remote_port = 12345,
      protocol = Udp, fragment = False\<rparr>)"
  by (subst parse_extension_chain)
    (simp_all add: NH_defs l4_terminal_def orient_def protocol_from_def be_simps)

text \<open>C31: On an IPv4 packet with options, \<open>parse\<close> reads the ports or the ICMP identifier behind
  the options; a later fragment yields a fragment-flagged tuple with zero ports whatever its
  payload, and a payload too short for its header drops the packet.\<close>

theorem parse_ipv4_layout:
  assumes "drop_bit 4 b0 = (4 :: u8)" and "unat (b0 AND 0x0f) * 4 = 20 + length options"
  shows "parse (ipv4_packet b0 tos len ident frag ttl proto csum src dst options l4) incoming =
    Some (map_option (\<lambda>t. orient t incoming) (ipv4_tuple proto src dst frag l4))"
  using assms by (rule parse_ipv4_bytes)

theorem parse_ipv4_layout_witness:
  "parse (ipv4_packet 0x46 0 0 0 0x4000 64 6 0 0x0A000001 0x0A000002 [1, 1, 1, 0]
      [0x30, 0x39, 0, 80]) False =
    Some (Some \<lparr>local_addr = V4 0x0A000001, remote_addr = V4 0x0A000002, local_port = 12345,
      remote_port = 80, protocol = Tcp, fragment = False\<rparr>)"
  by (subst parse_ipv4_layout)
    (simp_all add: ipv4_tuple_def orient_def protocol_from_def be_simps Let_def)

end
