(* ===== verification/Listener_Io.thy ===== *)
theory Listener_Io
  imports Kernel
begin

text \<open>
  The descriptor I/O of \<open>nebula-listener/src/listener.rs\<close>: switching the tun descriptor to
  non-blocking mode, and the loops that read and write it when the reactor says it is ready. A loop
  is run on the successive answers of the reactor and the kernel; it is still waiting when they run
  out.
\<close>

definition O_NONBLOCK :: u32 where
  "O_NONBLOCK = 0x800"

definition set_nonblocking :: "kernel \<Rightarrow> fd \<Rightarrow> unit io" where
  "set_nonblocking K fd = io_bind (fcntl_getfl K fd) (\<lambda>flags. fcntl_setfl K fd (flags OR O_NONBLOCK))"

definition EWOULDBLOCK :: nat where
  "EWOULDBLOCK = 11"

text \<open>One turn of a loop: waiting for readiness fails, or the call is made and answers.\<close>

datatype 'a attempt = WaitFailed io_error | Answered "nat + 'a"

text \<open>\<open>try_io\<close> turns the error \<open>WouldBlock\<close> into another turn of the loop and passes on every other
  outcome.\<close>

fun retry_io :: "'a attempt list \<Rightarrow> ((io_error + 'a) \<times> 'a attempt list) option" where
  "retry_io [] = None"
| "retry_io (WaitFailed e # rest) = Some (Inl e, rest)"
| "retry_io (Answered (Inl errno) # rest) = (if errno = EWOULDBLOCK then retry_io rest else Some (Inl (OsError errno), rest))"
| "retry_io (Answered (Inr x) # rest) = Some (Inr x, rest)"

text \<open>\<open>read\<close> stores what fits into the buffer.\<close>

definition read_fd :: "nat \<Rightarrow> bytes attempt list \<Rightarrow> ((io_error + bytes) \<times> bytes attempt list) option" where
  "read_fd buf_len attempts = map_option (\<lambda>(r, rest). (map_sum id (take buf_len) r, rest)) (retry_io attempts)"

definition write_fd :: "nat attempt list \<Rightarrow> ((io_error + nat) \<times> nat attempt list) option" where
  "write_fd attempts = retry_io attempts"

abbreviation would_block :: "'a attempt" where
  "would_block \<equiv> Answered (Inl EWOULDBLOCK)"

fun outcome :: "'a attempt \<Rightarrow> io_error + 'a" where
  "outcome (WaitFailed e) = Inl e"
| "outcome (Answered (Inl errno)) = Inl (OsError errno)"
| "outcome (Answered (Inr x)) = Inr x"

text \<open>A loop returns as soon as something other than \<open>WouldBlock\<close> happens, with that outcome.\<close>

lemma retry_io_skips: "retry_io (replicate n would_block @ attempts) = retry_io attempts"
  by (induction n) simp_all

lemma retry_io_Some:
  "retry_io attempts = Some (r, rest) \<longleftrightarrow>
     (\<exists>n a. attempts = replicate n would_block @ a # rest \<and> a \<noteq> would_block \<and> r = outcome a)"
proof
  show "\<exists>n a. attempts = replicate n would_block @ a # rest \<and> a \<noteq> would_block \<and> r = outcome a"
    if "retry_io attempts = Some (r, rest)" using that
  proof (induction attempts rule: retry_io.induct)
    case (3 errno rest')
    show ?case
    proof (cases "errno = EWOULDBLOCK")
      case True
      with 3 obtain n a where "rest' = replicate n would_block @ a # rest" "a \<noteq> would_block" "r = outcome a" by auto
      with True show ?thesis by (intro exI [of _ "Suc n"] exI [of _ a]) simp
    next
      case False
      with 3 show ?thesis by (intro exI [of _ 0]) simp
    qed
  qed (auto intro: exI [of _ 0])
next
  assume "\<exists>n a. attempts = replicate n would_block @ a # rest \<and> a \<noteq> would_block \<and> r = outcome a"
  then obtain n a where a: "attempts = replicate n would_block @ a # rest" "a \<noteq> would_block" "r = outcome a" by blast
  have "retry_io (a # rest) = Some (outcome a, rest)"
    using a(2) by (cases a rule: outcome.cases) auto
  with a show "retry_io attempts = Some (r, rest)" by (simp add: retry_io_skips)
qed

lemma read_fd_length: "read_fd n attempts = Some (Inr raw, rest) \<Longrightarrow> length raw \<le> n"
proof -
  assume "read_fd n attempts = Some (Inr raw, rest)"
  then obtain r :: "io_error + bytes" where "map_sum id (take n) r = Inr raw" by (auto simp: read_fd_def)
  then show ?thesis by (cases r) auto
qed

lemma balanced_set_nonblocking: "balanced (set_nonblocking K fd)"
  unfolding set_nonblocking_def by (intro balanced_bind balanced_calls refl)

end
