(* ===== verification/Listener.thy ===== *)
theory Listener
  imports Session_Run Peer_Identity Listener_Packet Listener_Io
begin

text \<open>
  \<open>nebula-listener/src/listener.rs\<close>: \<open>Listener::new\<close>, the two forwarding loops between the tun
  device and the mesh, and the running listener, in which both loops and the session's tasks
  interleave. A loop is a task with a phase, the place in its body it has reached; every step from
  one phase to the next takes one lock at most, so that the steps of \<open>listener_step\<close> are the
  critical sections of the program.
\<close>

section \<open>The listener\<close>

record 'net listener_config =
  firewall_rules :: "'net ruleset"
  firewall_opts :: firewall_options
  assigned_networks :: "'net list"
  unsafe_networks :: "'net list"
  cfg_ca_name :: string
  cfg_ca_sha :: string

record ('net, 'hs) shared =
  sh_session :: "'hs inner"
  sh_firewall :: "'net firewall"
  sh_ca_name :: string
  sh_ca_sha :: string
  sh_tun :: fd
  sh_poisoned :: bool

text \<open>\<open>sh_poisoned\<close> is the flag of the firewall's connection table: a task panicked while it held the
  lock.\<close>

text \<open>\<open>new\<close> owns the tun descriptor and closes it unless it returns the listener.\<close>

definition listener_new ::
  "kernel \<Rightarrow> 'net ipnet_ops \<Rightarrow> 'net listener_config \<Rightarrow> 'hs inner \<Rightarrow> fd \<Rightarrow> (stop, ('net, 'hs) shared) prog" where
  "listener_new K N cfg session tun = closing_on_error tun (
     io_bind (io_lift (case firewall_new N (firewall_rules cfg) (firewall_opts cfg) (assigned_networks cfg) (unsafe_networks cfg) of
         None \<Rightarrow> Inl (Panic ''max_prefix_len is a valid prefix length'') | Some fw \<Rightarrow> Inr fw)) (\<lambda>fw.
     io_bind (io_err Failed (set_nonblocking K tun)) (\<lambda>_.
     io_bind (io_err Failed (reactor_register K tun)) (\<lambda>_.
     io_lift (Inr \<lparr>sh_session = session, sh_firewall = fw, sh_ca_name = cfg_ca_name cfg, sh_ca_sha = cfg_ca_sha cfg,
       sh_tun = tun, sh_poisoned = False\<rparr>)))))"

section \<open>The verdict\<close>

text \<open>The end both loops share, when nothing else runs in between: the identity of the peer, and the
  firewall's verdict; \<open>None\<close> is a panic.\<close>

definition firewall_verdict ::
  "'net ipnet_ops \<Rightarrow> ('net, 'hs) shared \<Rightarrow> packet \<Rightarrow> bool \<Rightarrow> peer_info \<Rightarrow> nat
     \<Rightarrow> (('net, 'hs) shared \<times> bool) option" where
  "firewall_verdict N sh p incoming info now = do {
     peer \<leftarrow> peer_identity_of N info (sh_ca_name sh) (sh_ca_sha sh);
     if evaluate_panics N (sh_poisoned sh) p incoming peer now (sh_firewall sh) then None
     else do {
       let (fw, res) = evaluate N p incoming peer now (sh_firewall sh);
       Some (sh\<lparr>sh_firewall := fw\<rparr>, res = Inr ()) } }"

section \<open>The loops cut at their locks and awaits\<close>

text \<open>How a task ends; \<open>run\<close> turns a panic into an error of its own.\<close>

datatype task_end = Returned "io_error + unit" | Panicked

fun join_result :: "task_end \<Rightarrow> io_error + unit" where
  "join_result (Returned r) = r"
| "join_result Panicked = Inl TaskPanicked"

text \<open>\<open>mesh_to_tun\<close>: waiting for the inbox; a packet parsed and its sender to be looked up; the
  identity of the sender known; inside \<open>evaluate\<close>; writing.\<close>

datatype 'net down_phase =
    DownIdle
  | DownParsed ipaddr bytes packet
  | DownKnown ipaddr bytes packet "'net peer_identity"
  | DownEvaluating ipaddr bytes "'net job"
  | DownWriting ipaddr bytes
  | DownEnded task_end

definition down_received :: "ipaddr \<Rightarrow> bytes \<Rightarrow> 'net down_phase" where
  "down_received src raw =
     (case parse raw True of
        None \<Rightarrow> DownEnded Panicked
      | Some None \<Rightarrow> DownIdle
      | Some (Some p) \<Rightarrow> DownParsed src raw p)"

fun down_next ::
  "'net ipnet_ops \<Rightarrow> nat \<Rightarrow> ('net, 'hs) shared \<times> 'net down_phase \<Rightarrow> ('net, 'hs) shared \<times> 'net down_phase" where
  "down_next N now (sh, DownParsed src raw p) =
     (case peer_info_of (sh_session sh) src of
        None \<Rightarrow> (sh, DownIdle)
      | Some info \<Rightarrow>
          (case peer_identity_of N info (sh_ca_name sh) (sh_ca_sha sh) of
             None \<Rightarrow> (sh, DownEnded Panicked)
           | Some peer \<Rightarrow> (sh, DownKnown src raw p peer)))"
| "down_next N now (sh, DownKnown src raw p peer) =
     (sh, DownEvaluating src raw (evaluate_start (sh_firewall sh) p True peer now))"
| "down_next N now (sh, DownEvaluating src raw j) =
     (if resume_panics N (sh_poisoned sh) (sh_firewall sh) j then (sh\<lparr>sh_poisoned := True\<rparr>, DownEnded Panicked)
      else
        let (fw, res) = evaluate_resume N (sh_firewall sh) j
        in (sh\<lparr>sh_firewall := fw\<rparr>,
            case res of Inl j' \<Rightarrow> DownEvaluating src raw j' | Inr (Inr _) \<Rightarrow> DownWriting src raw | Inr (Inl _) \<Rightarrow> DownIdle))"
| "down_next N now (sh, phase) = (sh, phase)"

text \<open>\<open>tun_to_mesh\<close>: waiting for the tun; a packet parsed and its destination to be looked up; no
  tunnel found and \<open>connect\<close> to be called; inside \<open>connect\<close>, with the session it was called on
  and what the session has done since; the destination to be looked up again; its identity known;
  inside \<open>evaluate\<close>; sending.\<close>

datatype ('net, 'hs) up_phase =
    UpIdle
  | UpParsed bytes packet
  | UpMissing bytes packet
  | UpConnecting bytes packet "'hs inner" "effect list"
  | UpReady bytes packet
  | UpKnown bytes packet "'net peer_identity"
  | UpEvaluating bytes "'net job"
  | UpSending bytes packet
  | UpEnded task_end

definition up_received :: "io_error + bytes \<Rightarrow> ('net, 'hs) up_phase" where
  "up_received res =
     (case res of
        Inl e \<Rightarrow> UpEnded (Returned (Inl e))
      | Inr raw \<Rightarrow>
          (case parse raw False of
             None \<Rightarrow> UpEnded Panicked
           | Some None \<Rightarrow> UpIdle
           | Some (Some p) \<Rightarrow> UpParsed raw p))"

fun up_next ::
  "'net ipnet_ops \<Rightarrow> nat \<Rightarrow> ('net, 'hs) shared \<times> ('net, 'hs) up_phase \<Rightarrow> ('net, 'hs) shared \<times> ('net, 'hs) up_phase" where
  "up_next N now (sh, UpParsed raw p) =
     (let dst = remote_addr p in
      (sh, if peer_info_of (sh_session sh) dst = None
           then if is_multicast dst then UpIdle else UpMissing raw p
           else UpReady raw p))"
| "up_next N now (sh, UpMissing raw p) = (sh, UpConnecting raw p (sh_session sh) [])"
| "up_next N now (sh, UpReady raw p) =
     (case peer_info_of (sh_session sh) (remote_addr p) of
        None \<Rightarrow> (sh, UpIdle)
      | Some info \<Rightarrow>
          (case peer_identity_of N info (sh_ca_name sh) (sh_ca_sha sh) of
             None \<Rightarrow> (sh, UpEnded Panicked)
           | Some peer \<Rightarrow> (sh, UpKnown raw p peer)))"
| "up_next N now (sh, UpKnown raw p peer) =
     (sh, UpEvaluating raw (evaluate_start (sh_firewall sh) p False peer now))"
| "up_next N now (sh, UpEvaluating raw j) =
     (if resume_panics N (sh_poisoned sh) (sh_firewall sh) j then (sh\<lparr>sh_poisoned := True\<rparr>, UpEnded Panicked)
      else
        let (fw, res) = evaluate_resume N (sh_firewall sh) j
        in (sh\<lparr>sh_firewall := fw\<rparr>,
            case res of Inl j' \<Rightarrow> UpEvaluating raw j' | Inr (Inr _) \<Rightarrow> UpSending raw (j_packet j) | Inr (Inl _) \<Rightarrow> UpIdle))"
| "up_next N now (sh, phase) = (sh, phase)"

section \<open>The running listener\<close>

text \<open>
  The inbox holds what the session has delivered and \<open>mesh_to_tun\<close> has not taken. A waiting
  \<open>tun_to_mesh\<close> ends its wait exactly as \<open>connect_run\<close> says, or panics on the system clock.
  Readings of the monotonic clock (\<open>Instant\<close>) do not decrease. What a step shows: the reading of the
  monotonic clock, the effects of the session's own tasks, what is read from the tun, the attempt to
  write to it with its ignored result, what the tun loop sends, and the reading of the system clock
  that made it panic.
\<close>

datatype listener_event =
    Internal
  | Tick nat
  | ClockBeforeEpoch int
  | Net "effect list"
  | TunRead "io_error + bytes"
  | TunWrite bytes "io_error + nat"
  | Forwarded bytes "effect list"

record ('net, 'hs) listener =
  ls_shared :: "('net, 'hs) shared"
  ls_inbox :: "(ipaddr \<times> bytes) list"
  ls_down :: "'net down_phase"
  ls_up :: "('net, 'hs) up_phase"
  ls_time :: nat

text \<open>The sender of the inbox is in the session's \<open>Inner\<close>, which lives while a task has a reference to
  it: each loop has one, through \<open>Shared\<close>, until it ends. (The receive loop of the session has another
  one, unless it has panicked.)\<close>

fun down_ended :: "'net down_phase \<Rightarrow> bool" where
  "down_ended (DownEnded e) = True"
| "down_ended phase = False"

fun up_ended :: "('net, 'hs) up_phase \<Rightarrow> bool" where
  "up_ended (UpEnded e) = True"
| "up_ended phase = False"

definition inbox_senders :: "('net, 'hs) listener \<Rightarrow> nat" where
  "inbox_senders l = (if down_ended (ls_down l) \<and> up_ended (ls_up l) then 0 else 1)"

fun up_observe :: "effect list \<Rightarrow> ('net, 'hs) up_phase \<Rightarrow> ('net, 'hs) up_phase" where
  "up_observe out (UpConnecting raw p s before) = UpConnecting raw p s (before @ out)"
| "up_observe out phase = phase"

definition TUN_BUFFER :: nat where
  "TUN_BUFFER = 65535"

inductive listener_step ::
  "'net ipnet_ops \<Rightarrow> 'hs externs \<Rightarrow> ('net, 'hs) listener \<Rightarrow> listener_event \<Rightarrow> ('net, 'hs) listener \<Rightarrow> bool"
  for N :: "'net ipnet_ops" and X :: "'hs externs" where
  net_step: "session_step X (sh_session (ls_shared l)) out s' \<Longrightarrow>
    listener_step N X l (Net out) (l\<lparr>ls_shared := (ls_shared l)\<lparr>sh_session := s'\<rparr>,
      ls_inbox := ls_inbox l @ inbox_of out, ls_up := up_observe out (ls_up l)\<rparr>)"
| receive_step: "ls_down l = DownIdle \<Longrightarrow> session_recv (ls_inbox l) (inbox_senders l) = Some (Inr (src, raw), rest) \<Longrightarrow>
    listener_step N X l Internal (l\<lparr>ls_inbox := rest, ls_down := down_received src raw\<rparr>)"
| closed_step: "ls_down l = DownIdle \<Longrightarrow> session_recv (ls_inbox l) (inbox_senders l) = Some (Inl e, rest) \<Longrightarrow>
    listener_step N X l Internal (l\<lparr>ls_inbox := rest, ls_down := DownEnded (Returned (Inr ()))\<rparr>)"
| down_step: "ls_time l \<le> now \<Longrightarrow> down_next N now (ls_shared l, ls_down l) = (sh', phase') \<Longrightarrow>
    listener_step N X l (Tick now) (l\<lparr>ls_shared := sh', ls_down := phase', ls_time := now\<rparr>)"
| write_step: "ls_down l = DownWriting src raw \<Longrightarrow> write_fd attempts = Some (res, rest) \<Longrightarrow>
    listener_step N X l (TunWrite raw res) (l\<lparr>ls_down := DownIdle\<rparr>)"
| read_step: "ls_up l = UpIdle \<Longrightarrow> read_fd TUN_BUFFER attempts = Some (res, rest) \<Longrightarrow>
    listener_step N X l (TunRead res) (l\<lparr>ls_up := up_received res\<rparr>)"
| up_step: "ls_time l \<le> now \<Longrightarrow> up_next N now (ls_shared l, ls_up l) = (sh', phase') \<Longrightarrow>
    listener_step N X l (Tick now) (l\<lparr>ls_shared := sh', ls_up := phase', ls_time := now\<rparr>)"
| connected_step: "ls_up l = UpConnecting raw p s before \<Longrightarrow>
    connect_run X s (remote_addr p) before (sh_session (ls_shared l)) r \<Longrightarrow>
    listener_step N X l Internal (l\<lparr>ls_up := (case r of Inl _ \<Rightarrow> UpIdle | Inr _ \<Rightarrow> UpReady raw p)\<rparr>)"
| clock_panic: "ls_up l = UpConnecting raw p s before \<Longrightarrow>
    connect_panics X s (remote_addr p) before (sh_session (ls_shared l)) t \<Longrightarrow>
    listener_step N X l (ClockBeforeEpoch t) (l\<lparr>ls_up := UpEnded Panicked\<rparr>)"
| forward_step: "ls_up l = UpSending raw p \<Longrightarrow>
    send X (sh_session (ls_shared l)) (remote_addr p) raw = Some (r, s', out) \<Longrightarrow>
    listener_step N X l (Forwarded raw out) (l\<lparr>ls_shared := (ls_shared l)\<lparr>sh_session := s'\<rparr>, ls_up := UpIdle\<rparr>)"
| forward_panic: "ls_up l = UpSending raw p \<Longrightarrow> send X (sh_session (ls_shared l)) (remote_addr p) raw = None \<Longrightarrow>
    listener_step N X l Internal (l\<lparr>ls_up := UpEnded Panicked\<rparr>)"

text \<open>A listener starts with a session that has been running, with what is in its inbox by then.\<close>

definition listener_init ::
  "'net ipnet_ops \<Rightarrow> 'hs externs \<Rightarrow> 'net listener_config \<Rightarrow> certificate \<Rightarrow> effect list \<Rightarrow> ('net, 'hs) listener \<Rightarrow> bool" where
  "listener_init N X cfg ca out l \<longleftrightarrow>
     (\<exists>s0 s K tun log log'. session_init s0 \<and> ca_cert s0 = ca \<and> session_run X s0 out s \<and>
        listener_new K N cfg s tun log = (Inr (ls_shared l), log')) \<and>
     ls_inbox l = inbox_of out \<and> ls_down l = DownIdle \<and> ls_up l = UpIdle"

text \<open>A run with everything it showed; the first event is what the session did before.\<close>

inductive listener_run ::
  "'net ipnet_ops \<Rightarrow> 'hs externs \<Rightarrow> 'net listener_config \<Rightarrow> certificate \<Rightarrow> listener_event list \<Rightarrow> ('net, 'hs) listener \<Rightarrow> bool"
  for N :: "'net ipnet_ops" and X :: "'hs externs" and cfg ca where
  run_start: "listener_init N X cfg ca out l \<Longrightarrow> listener_run N X cfg ca [Net out] l"
| run_continue: "listener_run N X cfg ca trace l \<Longrightarrow> listener_step N X l ev l' \<Longrightarrow> listener_run N X cfg ca (trace @ [ev]) l'"

text \<open>\<open>select!\<close> in \<open>run\<close>: the result of a task that has ended. Both tasks are then aborted.\<close>

definition run_returns :: "('net, 'hs) listener \<Rightarrow> io_error + unit \<Rightarrow> bool" where
  "run_returns l r \<longleftrightarrow> (\<exists>e. ls_up l = UpEnded e \<and> r = join_result e) \<or> (\<exists>e. ls_down l = DownEnded e \<and> r = join_result e)"

section \<open>Undisturbed turns\<close>

lemma phases_stay:
  "(down_next N now ^^ n) (sh, DownIdle) = (sh, DownIdle)"
  "(down_next N now ^^ n) (sh, DownEnded e) = (sh, DownEnded e)"
  "(up_next N now ^^ n) (sh, UpIdle) = (sh, UpIdle)"
  "(up_next N now ^^ n) (sh, UpEnded e) = (sh, UpEnded e)"
  by (induction n) simp_all

text \<open>Two sections of \<open>evaluate\<close>, or one that is followed by a phase that stays, lead to its
  verdict, or into the panic.\<close>

lemma down_evaluates:
  "\<not> evaluate_panics N (sh_poisoned sh) p incoming peer t (sh_firewall sh) \<Longrightarrow>
   (down_next N now ^^ 2) (sh, DownEvaluating src raw (evaluate_start (sh_firewall sh) p incoming peer t)) =
     (sh\<lparr>sh_firewall := fst (evaluate N p incoming peer t (sh_firewall sh))\<rparr>,
      if snd (evaluate N p incoming peer t (sh_firewall sh)) = Inr () then DownWriting src raw else DownIdle)"
  "evaluate_panics N (sh_poisoned sh) p incoming peer t (sh_firewall sh) \<Longrightarrow>
   \<exists>sh'. (down_next N now ^^ 2) (sh, DownEvaluating src raw (evaluate_start (sh_firewall sh) p incoming peer t)) =
     (sh', DownEnded Panicked)"
  by (cases "sh_poisoned sh"; rule evaluate_sections [of N "sh_firewall sh" p incoming peer t];
      simp add: numeral_2_eq_2 evaluate_panics_def split: sum.split)+

lemma up_evaluates:
  "\<not> evaluate_panics N (sh_poisoned sh) p incoming peer t (sh_firewall sh) \<Longrightarrow>
   (up_next N now ^^ 2) (sh, UpEvaluating raw (evaluate_start (sh_firewall sh) p incoming peer t)) =
     (sh\<lparr>sh_firewall := fst (evaluate N p incoming peer t (sh_firewall sh))\<rparr>,
      if snd (evaluate N p incoming peer t (sh_firewall sh)) = Inr () then UpSending raw p else UpIdle)"
  by (cases "sh_poisoned sh"; rule evaluate_sections [of N "sh_firewall sh" p incoming peer t];
      simp add: numeral_2_eq_2 evaluate_panics_def split: sum.split)

text \<open>The ways \<open>firewall_verdict\<close> goes.\<close>

lemma firewall_verdict_Some:
  "firewall_verdict N sh p incoming info now = Some (sh', ok) \<longleftrightarrow>
   (\<exists>peer. peer_identity_of N info (sh_ca_name sh) (sh_ca_sha sh) = Some peer \<and>
      \<not> evaluate_panics N (sh_poisoned sh) p incoming peer now (sh_firewall sh) \<and>
      sh' = sh\<lparr>sh_firewall := fst (evaluate N p incoming peer now (sh_firewall sh))\<rparr> \<and>
      ok = (snd (evaluate N p incoming peer now (sh_firewall sh)) = Inr ()))"
  by (cases "peer_identity_of N info (sh_ca_name sh) (sh_ca_sha sh)")
    (auto simp: firewall_verdict_def case_prod_unfold Let_def split: if_splits)

lemma firewall_verdict_None:
  "firewall_verdict N sh p incoming info now = None \<longleftrightarrow>
   (case peer_identity_of N info (sh_ca_name sh) (sh_ca_sha sh) of
      None \<Rightarrow> True | Some peer \<Rightarrow> evaluate_panics N (sh_poisoned sh) p incoming peer now (sh_firewall sh))"
  by (cases "peer_identity_of N info (sh_ca_name sh) (sh_ca_sha sh)")
    (auto simp: firewall_verdict_def case_prod_unfold Let_def split: if_splits)

lemma four_sections: "(f ^^ 4) x = (f ^^ 2) (f (f x))"
  by (simp add: numeral_eq_Suc)

lemma down_turn:
  assumes "peer_info_of (sh_session sh) src = Some info"
  shows "firewall_verdict N sh p True info now = Some (sh', ok) \<Longrightarrow>
      (down_next N now ^^ 4) (sh, DownParsed src raw p) = (sh', if ok then DownWriting src raw else DownIdle)"
    and "firewall_verdict N sh p True info now = None \<Longrightarrow>
      \<exists>sh'. (down_next N now ^^ 4) (sh, DownParsed src raw p) = (sh', DownEnded Panicked)"
  using assms
  by (auto simp: four_sections phases_stay down_evaluates firewall_verdict_Some firewall_verdict_None split: option.splits)

lemma up_turn:
  assumes "peer_info_of (sh_session sh) (remote_addr p) = Some info"
    and "firewall_verdict N sh p False info now = Some (sh', ok)"
  shows "(up_next N now ^^ 4) (sh, UpReady raw p) = (sh', if ok then UpSending raw p else UpIdle)"
  using assms by (auto simp: four_sections up_evaluates firewall_verdict_Some)

text \<open>Sections in sequence are steps of the listener.\<close>

lemma down_run:
  assumes "listener_run N X cfg ca trace l" and "ls_time l \<le> now"
    and "(down_next N now ^^ n) (ls_shared l, ls_down l) = (sh', ph')"
  shows "listener_run N X cfg ca (trace @ replicate n (Tick now)) (l\<lparr>ls_shared := sh', ls_down := ph',
    ls_time := (if n = 0 then ls_time l else now)\<rparr>)"
  using assms(3)
proof (induction n arbitrary: sh' ph')
  case 0
  with assms(1) show ?case by (cases l) auto
next
  case (Suc n)
  obtain sh1 ph1 where n: "(down_next N now ^^ n) (ls_shared l, ls_down l) = (sh1, ph1)"
    by (cases "(down_next N now ^^ n) (ls_shared l, ls_down l)")
  let ?l = "l\<lparr>ls_shared := sh1, ls_down := ph1, ls_time := (if n = 0 then ls_time l else now)\<rparr>"
  have "listener_step N X ?l (Tick now) (?l\<lparr>ls_shared := sh', ls_down := ph', ls_time := now\<rparr>)"
    by (rule down_step) (use Suc.prems n assms(2) in auto)
  from run_continue [OF Suc.IH [OF n] this] show ?case
    by (simp add: replicate_append_same [symmetric])
qed

lemma up_run:
  assumes "listener_run N X cfg ca trace l" and "ls_time l \<le> now"
    and "(up_next N now ^^ n) (ls_shared l, ls_up l) = (sh', ph')"
  shows "listener_run N X cfg ca (trace @ replicate n (Tick now)) (l\<lparr>ls_shared := sh', ls_up := ph',
    ls_time := (if n = 0 then ls_time l else now)\<rparr>)"
  using assms(3)
proof (induction n arbitrary: sh' ph')
  case 0
  with assms(1) show ?case by (cases l) auto
next
  case (Suc n)
  obtain sh1 ph1 where n: "(up_next N now ^^ n) (ls_shared l, ls_up l) = (sh1, ph1)"
    by (cases "(up_next N now ^^ n) (ls_shared l, ls_up l)")
  let ?l = "l\<lparr>ls_shared := sh1, ls_up := ph1, ls_time := (if n = 0 then ls_time l else now)\<rparr>"
  have "listener_step N X ?l (Tick now) (?l\<lparr>ls_shared := sh', ls_up := ph', ls_time := now\<rparr>)"
    by (rule up_step) (use Suc.prems n assms(2) in auto)
  from run_continue [OF Suc.IH [OF n] this] show ?case
    by (simp add: replicate_append_same [symmetric])
qed

text \<open>An admitted packet at the head of the inbox comes to be written; one read from the tun, with
  the peer known, comes to be sent.\<close>

lemma inbox_to_write:
  assumes "listener_run N X cfg ca trace l" and "ls_time l \<le> now" and "ls_down l = DownIdle"
    and "ls_inbox l = (src, raw) # rest" and "parse raw True = Some (Some p)"
    and "peer_info_of (sh_session (ls_shared l)) src = Some info"
    and "firewall_verdict N (ls_shared l) p True info now = Some (sh', True)"
  obtains l' where "listener_run N X cfg ca (trace @ Internal # replicate 4 (Tick now)) l'" and "ls_down l' = DownWriting src raw"
proof -
  have "listener_step N X l Internal (l\<lparr>ls_inbox := rest, ls_down := down_received src raw\<rparr>)"
    by (rule receive_step) (simp_all add: assms(3,4) session_recv_def)
  note run = run_continue [OF assms(1) this]
  have "(down_next N now ^^ 4) (ls_shared l, down_received src raw) = (sh', DownWriting src raw)"
    using down_turn(1) [OF assms(6,7)] by (simp add: down_received_def assms(5))
  from down_run [OF run, of now 4] this assms(2) that show thesis by (simp add: numeral_eq_Suc)
qed

lemma verdict_session:
  assumes "firewall_verdict N sh p incoming info now = Some (sh', ok)"
  shows "sh_session sh' = sh_session sh"
    and "firewall_verdict N (sh\<lparr>sh_session := s\<rparr>) p incoming info now = Some (sh'\<lparr>sh_session := s\<rparr>, ok)"
  using assms by (auto simp: firewall_verdict_Some)

lemma ready_to_send:
  assumes "listener_run N X cfg ca trace l" and "ls_time l \<le> now" and "ls_up l = UpReady raw p"
    and "peer_info_of (sh_session (ls_shared l)) (remote_addr p) = Some info"
    and "firewall_verdict N (ls_shared l) p False info now = Some (sh', True)"
  obtains l' where "listener_run N X cfg ca (trace @ replicate 4 (Tick now)) l'"
    and "ls_up l' = UpSending raw p" and "sh_session (ls_shared l') = sh_session (ls_shared l)"
proof -
  have "(up_next N now ^^ 4) (ls_shared l, ls_up l) = (sh', UpSending raw p)" using up_turn [OF assms(4,5)] by (simp add: assms(3))
  with up_run [OF assms(1,2), of 4] verdict_session(1) [OF assms(5)] that show thesis by simp
qed

lemma read_parsed:
  assumes "listener_run N X cfg ca trace l" and "ls_up l = UpIdle" and "length raw \<le> TUN_BUFFER" and "parse raw False = Some (Some p)"
  shows "listener_run N X cfg ca (trace @ [TunRead (Inr raw)]) (l\<lparr>ls_up := UpParsed raw p\<rparr>)"
proof -
  have "listener_step N X l (TunRead (Inr raw)) (l\<lparr>ls_up := up_received (Inr raw)\<rparr>)"
    by (rule read_step [where attempts = "[Answered (Inr raw)]"]) (simp_all add: assms(2,3) read_fd_def)
  from run_continue [OF assms(1) this] show ?thesis by (simp add: up_received_def assms(4))
qed

lemma read_to_send:
  assumes "listener_run N X cfg ca trace l" and "ls_time l \<le> now" and "ls_up l = UpIdle"
    and "length raw \<le> TUN_BUFFER" and "parse raw False = Some (Some p)"
    and "peer_info_of (sh_session (ls_shared l)) (remote_addr p) = Some info"
    and "firewall_verdict N (ls_shared l) p False info now = Some (sh', True)"
  obtains l' where "listener_run N X cfg ca (trace @ TunRead (Inr raw) # replicate 5 (Tick now)) l'"
    and "ls_up l' = UpSending raw p" and "sh_session (ls_shared l') = sh_session (ls_shared l)"
proof -
  let ?l = "l\<lparr>ls_up := UpReady raw p, ls_time := now\<rparr>"
  have "listener_run N X cfg ca ((trace @ [TunRead (Inr raw)]) @ [Tick now]) ?l"
    using up_run [OF read_parsed [OF assms(1,3-5)], of now 1 "ls_shared l" "UpReady raw p"] assms(2,6) by simp
  then obtain l' where "listener_run N X cfg ca (((trace @ [TunRead (Inr raw)]) @ [Tick now]) @ replicate 4 (Tick now)) l'"
    and "ls_up l' = UpSending raw p" and "sh_session (ls_shared l') = sh_session (ls_shared ?l)"
    by (rule ready_to_send [where now = now and sh' = sh']) (use assms(6,7) in simp_all)
  with that [of l'] show thesis by (simp add: numeral_eq_Suc)
qed

text \<open>A packet for a host without a tunnel waits in \<open>connect\<close>.\<close>

lemma read_to_connect:
  assumes "listener_run N X cfg ca trace l" and "ls_time l \<le> now" and "ls_up l = UpIdle"
    and "length raw \<le> TUN_BUFFER" and "parse raw False = Some (Some p)"
    and "peer_info_of (sh_session (ls_shared l)) (remote_addr p) = None" and "\<not> is_multicast (remote_addr p)"
  shows "listener_run N X cfg ca (trace @ [TunRead (Inr raw), Tick now, Tick now])
    (l\<lparr>ls_up := UpConnecting raw p (sh_session (ls_shared l)) [], ls_time := now\<rparr>)"
  using up_run [OF read_parsed [OF assms(1,3-5)], of now 2 "ls_shared l"] assms(2,6,7) by (simp add: numeral_2_eq_2)

end
