(* ===== verification/Listener_Safety.thy ===== *)
theory Listener_Safety
  imports Listener
begin

text \<open>
  What a running listener lets through. The invariant says that the connection table holds only flows
  that were admitted for a verified peer, and that each loop, wherever it is in its body, works on a
  packet that was really delivered or read and on an identity from a verified certificate. It is
  kept by every critical section, so the properties hold under every interleaving.
\<close>

section \<open>The invariant of the listener\<close>

text \<open>The identities the firewall is asked about come from verified certificates. A flow is admitted
  when such a peer passes the firewall's checks for it under the configured rules: it owns the remote
  address, the local one is routable here, and a rule matches.\<close>

definition verified :: "'hs externs \<Rightarrow> certificate \<Rightarrow> certificate \<Rightarrow> bool" where
  "verified X ca c \<longleftrightarrow> (\<exists>now. verify_host_cert (x_crypto X) c ca now = Inr ())"

definition verified_peer ::
  "'net ipnet_ops \<Rightarrow> 'hs externs \<Rightarrow> certificate \<Rightarrow> 'net listener_config \<Rightarrow> 'net peer_identity \<Rightarrow> bool" where
  "verified_peer N X ca cfg peer \<longleftrightarrow>
     (\<exists>c. verified X ca c \<and> peer_identity_of N (cert_info c) (cfg_ca_name cfg) (cfg_ca_sha cfg) = Some peer)"

definition admitted ::
  "'net ipnet_ops \<Rightarrow> 'hs externs \<Rightarrow> certificate \<Rightarrow> 'net listener_config \<Rightarrow> 'net list \<Rightarrow> packet \<Rightarrow> bool \<Rightarrow> bool" where
  "admitted N X ca cfg routable p d \<longleftrightarrow>
     (\<exists>peer. verified_peer N X ca cfg peer \<and> check_packet N routable (firewall_rules cfg) p d peer = Inr ())"

definition listener_inv ::
  "'net ipnet_ops \<Rightarrow> 'hs externs \<Rightarrow> certificate \<Rightarrow> 'net listener_config \<Rightarrow> 'net list \<Rightarrow> ('net, 'hs) shared \<Rightarrow> bool" where
  "listener_inv N X ca cfg routable sh \<longleftrightarrow>
     session_inv X ca (sh_session sh) \<and> sh_ca_name sh = cfg_ca_name cfg \<and> sh_ca_sha sh = cfg_ca_sha cfg \<and>
     vr_rules (fw_rules (sh_firewall sh)) = firewall_rules cfg \<and> fw_routable (sh_firewall sh) = routable \<and>
     fw_options (sh_firewall sh) = firewall_opts cfg \<and>
     (\<forall>p e. conns (fw_conntrack (sh_firewall sh)) p = Some e \<longrightarrow> admitted N X ca cfg routable p (ce_incoming e))"

definition job_ok ::
  "'net ipnet_ops \<Rightarrow> 'hs externs \<Rightarrow> certificate \<Rightarrow> 'net listener_config \<Rightarrow> 'net job \<Rightarrow> bool" where
  "job_ok N X ca cfg j \<longleftrightarrow> verified_peer N X ca cfg (j_remote j) \<and> vr_rules (j_rules j) = firewall_rules cfg"

text \<open>A verified certificate with an unsafe network longer than its address.\<close>

definition overlong_cert :: "'hs externs \<Rightarrow> certificate \<Rightarrow> bool" where
  "overlong_cert X ca \<longleftrightarrow> (\<exists>c. verified X ca c \<and>
     (\<exists>n \<in> set (d_unsafe_networks (cert_details c)). max_prefix_len (nw_addr n) < nw_prefix_len n))"

text \<open>At some clock reading of a run a configured timeout was too long to be added to it.\<close>

definition overdue :: "'net listener_config \<Rightarrow> listener_event list \<Rightarrow> bool" where
  "overdue cfg trace \<longleftrightarrow> (\<exists>now proto. Tick now \<in> set trace \<and> record_panics now (timeout_for (firewall_opts cfg) proto))"

text \<open>What has been delivered in a run, and what each phase remembers of it.\<close>

definition delivered :: "listener_event list \<Rightarrow> (ipaddr \<times> bytes) set" where
  "delivered trace = {m. \<exists>out. Net out \<in> set trace \<and> m \<in> set (inbox_of out)}"

fun down_ok ::
  "'net ipnet_ops \<Rightarrow> 'hs externs \<Rightarrow> certificate \<Rightarrow> 'net listener_config \<Rightarrow> 'net list \<Rightarrow> listener_event list
     \<Rightarrow> 'net down_phase \<Rightarrow> bool" where
  "down_ok N X ca cfg routable trace DownIdle = True"
| "down_ok N X ca cfg routable trace (DownParsed src raw p) =
     ((src, raw) \<in> delivered trace \<and> parse raw True = Some (Some p))"
| "down_ok N X ca cfg routable trace (DownKnown src raw p peer) =
     ((src, raw) \<in> delivered trace \<and> parse raw True = Some (Some p) \<and> verified_peer N X ca cfg peer)"
| "down_ok N X ca cfg routable trace (DownEvaluating src raw j) =
     ((src, raw) \<in> delivered trace \<and> parse raw True = Some (Some (j_packet j)) \<and> job_ok N X ca cfg j \<and>
      Tick (j_now j) \<in> set trace)"
| "down_ok N X ca cfg routable trace (DownWriting src raw) =
     ((src, raw) \<in> delivered trace \<and> (\<exists>p d. parse raw True = Some (Some p) \<and> admitted N X ca cfg routable p d))"
| "down_ok N X ca cfg routable trace (DownEnded e) = (e = Panicked \<and> (overlong_cert X ca \<or> overdue cfg trace))"

fun up_ok ::
  "'net ipnet_ops \<Rightarrow> 'hs externs \<Rightarrow> certificate \<Rightarrow> 'net listener_config \<Rightarrow> 'net list \<Rightarrow> listener_event list
     \<Rightarrow> ('net, 'hs) up_phase \<Rightarrow> bool" where
  "up_ok N X ca cfg routable trace UpIdle = True"
| "up_ok N X ca cfg routable trace (UpParsed raw p) = (TunRead (Inr raw) \<in> set trace \<and> parse raw False = Some (Some p))"
| "up_ok N X ca cfg routable trace (UpMissing raw p) = (TunRead (Inr raw) \<in> set trace \<and> parse raw False = Some (Some p))"
| "up_ok N X ca cfg routable trace (UpConnecting raw p s before) =
     (TunRead (Inr raw) \<in> set trace \<and> parse raw False = Some (Some p))"
| "up_ok N X ca cfg routable trace (UpReady raw p) = (TunRead (Inr raw) \<in> set trace \<and> parse raw False = Some (Some p))"
| "up_ok N X ca cfg routable trace (UpKnown raw p peer) =
     (TunRead (Inr raw) \<in> set trace \<and> parse raw False = Some (Some p) \<and> verified_peer N X ca cfg peer)"
| "up_ok N X ca cfg routable trace (UpEvaluating raw j) =
     (TunRead (Inr raw) \<in> set trace \<and> parse raw False = Some (Some (j_packet j)) \<and> job_ok N X ca cfg j \<and>
      Tick (j_now j) \<in> set trace)"
| "up_ok N X ca cfg routable trace (UpSending raw p) =
     (TunRead (Inr raw) \<in> set trace \<and> parse raw False = Some (Some p) \<and> (\<exists>d. admitted N X ca cfg routable p d))"
| "up_ok N X ca cfg routable trace (UpEnded e) =
     (case e of
        Returned r \<Rightarrow> (\<exists>err. r = Inl err \<and> TunRead (Inl err) \<in> set trace)
      | Panicked \<Rightarrow> aead_sizes (x_aead X) \<longrightarrow> overlong_cert X ca \<or> overdue cfg trace \<or>
          (\<exists>t < 0. ClockBeforeEpoch t \<in> set trace))"

lemma delivered_snoc [simp]:
  "delivered (trace @ [ev]) = delivered trace \<union> (case ev of Net out \<Rightarrow> set (inbox_of out) | _ \<Rightarrow> {})"
  by (auto simp: delivered_def split: listener_event.split)

lemma overdue_snoc: "overdue cfg trace \<Longrightarrow> overdue cfg (trace @ [ev])"
  by (auto simp: overdue_def)

lemma down_ok_snoc: "down_ok N X ca cfg routable trace ph \<Longrightarrow> down_ok N X ca cfg routable (trace @ [ev]) ph"
  by (cases ph) (auto simp: overdue_snoc)

lemma up_ok_snoc: "up_ok N X ca cfg routable trace ph \<Longrightarrow> up_ok N X ca cfg routable (trace @ [ev]) ph"
  by (cases ph) (auto simp: overdue_snoc split: task_end.splits)

lemma peer_info_verified:
  assumes "session_inv X ca s" and "peer_info_of s v = Some info"
  obtains c where "info = cert_info c" and "verified X ca c"
proof -
  from assms(2) have "index_by_vpn_addr s v \<noteq> None" by (auto simp: peer_info_of_def bind_eq_Some_conv)
  with assms(1) obtain i t r c ri where i: "index_by_vpn_addr s v = Some i"
    and p: "peers_by_index s i = Some (Established t r v c ri)"
    and "\<exists>now. verify_host_cert (x_crypto X) c ca now = Inr ()" by (rule tunnel_of_address)
  with assms(2) that show thesis by (auto simp: peer_info_of_def verified_def)
qed

text \<open>Looking up a peer and making its identity.\<close>

lemma identify_verified:
  assumes "listener_inv N X ca cfg routable sh" and "peer_info_of (sh_session sh) v = Some info"
  shows "peer_identity_of N info (sh_ca_name sh) (sh_ca_sha sh) = Some peer \<Longrightarrow> verified_peer N X ca cfg peer"
    and "ipnet_laws N \<Longrightarrow> peer_identity_of N info (sh_ca_name sh) (sh_ca_sha sh) = None \<Longrightarrow> overlong_cert X ca"
proof -
  from assms(1) have inv: "session_inv X ca (sh_session sh)" and "sh_ca_name sh = cfg_ca_name cfg" "sh_ca_sha sh = cfg_ca_sha cfg"
    by (auto simp: listener_inv_def)
  moreover obtain c where c: "info = cert_info c" "verified X ca c" by (rule peer_info_verified [OF inv assms(2)])
  ultimately show "peer_identity_of N info (sh_ca_name sh) (sh_ca_sha sh) = Some peer \<Longrightarrow> verified_peer N X ca cfg peer"
    by (auto simp: verified_peer_def)
  assume "ipnet_laws N" and "peer_identity_of N info (sh_ca_name sh) (sh_ca_sha sh) = None"
  then have "\<exists>n \<in> set (info_unsafe_networks info). max_prefix_len (nw_addr n) < nw_prefix_len n"
    by (simp add: peer_identity_None)
  with c show "overlong_cert X ca" by (auto simp: overlong_cert_def cert_info_def)
qed

text \<open>A section of \<open>evaluate\<close> tracks only admitted flows, and lets only admitted packets pass.\<close>

lemma evaluate_resume_cases:
  assumes inv: "listener_inv N X ca cfg routable sh" and j: "job_ok N X ca cfg j"
    and res: "evaluate_resume N (sh_firewall sh) j = (fw, r)"
  obtains (again) j' where "r = Inl j'" and "job_ok N X ca cfg j'" and "j_packet j' = j_packet j" and "j_now j' = j_now j"
      and "listener_inv N X ca cfg routable (sh\<lparr>sh_firewall := fw\<rparr>)"
    | (pass) d where "r = Inr (Inr ())" and "admitted N X ca cfg routable (j_packet j) d"
      and "listener_inv N X ca cfg routable (sh\<lparr>sh_firewall := fw\<rparr>)"
    | (drop) reason where "r = Inr (Inl reason)" and "listener_inv N X ca cfg routable (sh\<lparr>sh_firewall := fw\<rparr>)"
proof -
  have new: "admitted N X ca cfg routable (j_packet j) (j_incoming j)"
    if "check_packet N (fw_routable (sh_firewall sh)) (vr_rules (j_rules j)) (j_packet j) (j_incoming j) (j_remote j) = Inr ()"
    using that j inv by (auto simp: admitted_def job_ok_def listener_inv_def)
  have keep: "listener_inv N X ca cfg routable (sh\<lparr>sh_firewall := fw\<rparr>)"
    using inv new evaluate_resume_conns [OF res] unfolding listener_inv_def
    by (fastforce simp: evaluate_resume_keeps [OF res])
  consider j' where "r = Inl j'" | "r = Inr (Inr ())" | reason where "r = Inr (Inl reason)"
    by (cases r; cases "projr r") auto
  then show thesis
  proof cases
    case (1 j')
    with evaluate_resume_keeps(4) [OF res 1] j keep again show thesis by (simp add: job_ok_def)
  next
    case 2
    with keep evaluate_resume_tracked [of N "sh_firewall sh" j fw] res have "\<exists>d. admitted N X ca cfg routable (j_packet j) d"
      unfolding listener_inv_def by fastforce
    with 2 keep pass show thesis by blast
  qed (use keep drop in blast)
qed

lemma resume_panics_overdue:
  assumes "listener_inv N X ca cfg routable sh" and "resume_panics N (sh_poisoned sh) (sh_firewall sh) j"
    and "Tick (j_now j) \<in> set trace" and "sh_poisoned sh \<Longrightarrow> overdue cfg trace"
  shows "overdue cfg trace"
  using assms by (auto simp: resume_panics_def Let_def overdue_def listener_inv_def)

lemma inv_poisoned: "listener_inv N X ca cfg routable (sh\<lparr>sh_poisoned := b\<rparr>) = listener_inv N X ca cfg routable sh"
  by (simp add: listener_inv_def)

lemma evaluate_start_now [simp]: "j_now (evaluate_start fw p incoming peer now) = now"
  by (simp add: evaluate_start_def)

lemma evaluate_start_ok:
  assumes "listener_inv N X ca cfg routable sh" and "verified_peer N X ca cfg peer"
  shows "job_ok N X ca cfg (evaluate_start (sh_firewall sh) p incoming peer now)"
  using assms by (simp add: job_ok_def evaluate_start_def listener_inv_def)

lemma down_next_inv:
  assumes "ipnet_laws N" and inv: "listener_inv N X ca cfg routable sh" and ok: "down_ok N X ca cfg routable trace ph"
    and "down_next N now (sh, ph) = (sh', ph')" and tick: "Tick now \<in> set trace"
    and poison: "sh_poisoned sh \<longrightarrow> overdue cfg trace"
  shows "listener_inv N X ca cfg routable sh' \<and> down_ok N X ca cfg routable trace ph' \<and> (sh_poisoned sh' \<longrightarrow> overdue cfg trace)"
proof (cases ph)
  case (DownParsed src raw p)
  with assms identify_verified [OF inv, of src] show ?thesis by (auto split: option.splits)
next
  case (DownKnown src raw p peer)
  with assms evaluate_start_ok [OF inv] show ?thesis by auto
next
  case (DownEvaluating src raw j)
  show ?thesis
  proof (cases "resume_panics N (sh_poisoned sh) (sh_firewall sh) j")
    case True
    with resume_panics_overdue [OF inv True] assms(4) ok poison inv show ?thesis by (auto simp: DownEvaluating inv_poisoned)
  next
    case False
    obtain fw r where r: "evaluate_resume N (sh_firewall sh) j = (fw, r)" by (cases "evaluate_resume N (sh_firewall sh) j")
    have "job_ok N X ca cfg j" using ok DownEvaluating by simp
    from inv this r show ?thesis
      by (cases rule: evaluate_resume_cases) (use assms(4) ok r False poison in \<open>auto simp: DownEvaluating\<close>)
  qed
qed (use assms in auto)

lemma up_next_inv:
  assumes "ipnet_laws N" and inv: "listener_inv N X ca cfg routable sh" and ok: "up_ok N X ca cfg routable trace ph"
    and "up_next N now (sh, ph) = (sh', ph')" and tick: "Tick now \<in> set trace"
    and poison: "sh_poisoned sh \<longrightarrow> overdue cfg trace"
  shows "listener_inv N X ca cfg routable sh' \<and> up_ok N X ca cfg routable trace ph' \<and> (sh_poisoned sh' \<longrightarrow> overdue cfg trace)"
proof (cases ph)
  case (UpReady raw p)
  with assms identify_verified [OF inv, of "remote_addr p"] show ?thesis by (auto split: option.splits)
next
  case (UpKnown raw p peer)
  with assms evaluate_start_ok [OF inv] show ?thesis by auto
next
  case (UpEvaluating raw j)
  show ?thesis
  proof (cases "resume_panics N (sh_poisoned sh) (sh_firewall sh) j")
    case True
    with resume_panics_overdue [OF inv True] assms(4) ok poison inv show ?thesis by (auto simp: UpEvaluating inv_poisoned)
  next
    case False
    obtain fw r where r: "evaluate_resume N (sh_firewall sh) j = (fw, r)" by (cases "evaluate_resume N (sh_firewall sh) j")
    have "job_ok N X ca cfg j" using ok UpEvaluating by simp
    from inv this r show ?thesis
      by (cases rule: evaluate_resume_cases) (use assms(4) ok r False poison in \<open>auto simp: UpEvaluating\<close>)
  qed
qed (use assms in \<open>auto simp: Let_def\<close>)

text \<open>The addresses a listener routes: the node's own and those inside its unsafe networks.\<close>

definition routes :: "'net ipnet_ops \<Rightarrow> 'net listener_config \<Rightarrow> ipaddr \<Rightarrow> bool" where
  "routes N cfg a \<longleftrightarrow> a \<in> net_addr N ` set (assigned_networks cfg) \<or> (\<exists>n \<in> set (unsafe_networks cfg). net_contains N n a)"

text \<open>Only the peers of a session fill its inbox.\<close>

lemma inbox_of_iff: "(v, m) \<in> set (inbox_of out) \<longleftrightarrow> Inbox v m \<in> set out"
  by (induction out rule: inbox_of.induct) auto

lemma quiet_senders:
  "send_typed X s w ty payload = Some (r, s', out) \<Longrightarrow> Inbox v m \<notin> set out"
  "resolve_wait s w = (tx, s', out) \<Longrightarrow> Inbox v m \<notin> set out"
  "connect_start X clk s w rm = Some (r', s', out) \<Longrightarrow> Inbox v m \<notin> set out"
proof -
  assume "send_typed X s w ty payload = Some (r, s', out)"
  then show "Inbox v m \<notin> set out" by (rule send_typed_cases) auto
next
  assume "resolve_wait s w = (tx, s', out)"
  then show "Inbox v m \<notin> set out" by (auto simp: resolve_wait_def Let_def split: option.splits)
next
  assume "connect_start X clk s w rm = Some (r', s', out)"
  then show "Inbox v m \<notin> set out" by (rule connect_start_cases) auto
qed

definition sender_verified :: "'hs externs \<Rightarrow> certificate \<Rightarrow> ipaddr \<Rightarrow> bool" where
  "sender_verified X ca v \<longleftrightarrow> (\<exists>c. verified X ca c \<and> map nw_addr (take 1 (d_networks (cert_details c))) = [v])"

lemma step_inbox_verified:
  assumes "session_inv X ca s" and "session_step X s out s'" and "Inbox v m \<in> set out"
  shows "sender_verified X ca v"
  using assms(2)
proof cases
  case (recv_step clk buf "from")
  obtain hdr where "decrypt_from X s hdr (take LEN buf) (drop LEN buf) = Some (s', Some (v, m))"
    by (rule inbox_origin [OF recv_step assms(3)])
  then obtain t r c ri where p: "peers_by_index s (remote_index hdr) = Some (Established t r v c ri)"
    by (cases rule: decrypt_from_cases) (auto split: sum.splits)
  from session_invD(2) [OF assms(1) p] show ?thesis by (auto simp: peer_ok_def sender_verified_def verified_def)
qed (use assms(3) in \<open>auto dest: quiet_senders split: option.splits\<close>)

lemma run_inbox_verified:
  "session_run X s out s' \<Longrightarrow> session_inv X ca s \<Longrightarrow> Inbox v m \<in> set out \<Longrightarrow> sender_verified X ca v"
  by (induction rule: session_run.induct) (auto dest: run_inv step_inbox_verified)

text \<open>The invariant of a run.\<close>

definition listener_ok ::
  "'net ipnet_ops \<Rightarrow> 'hs externs \<Rightarrow> certificate \<Rightarrow> 'net listener_config \<Rightarrow> listener_event list \<times> ('net, 'hs) listener \<Rightarrow> bool" where
  "listener_ok N X ca cfg = (\<lambda>(trace, l). ipnet_laws N \<longrightarrow>
     (\<exists>routable. (\<forall>a. (\<exists>n \<in> set routable. net_contains N n a) \<longleftrightarrow> routes N cfg a) \<and>
        listener_inv N X ca cfg routable (ls_shared l) \<and>
        down_ok N X ca cfg routable trace (ls_down l) \<and> up_ok N X ca cfg routable trace (ls_up l)) \<and>
     set (ls_inbox l) \<subseteq> delivered trace \<and> (sh_poisoned (ls_shared l) \<longrightarrow> overdue cfg trace) \<and>
     (\<forall>(v, m) \<in> delivered trace. sender_verified X ca v))"

lemma listener_okE:
  assumes "listener_ok N X ca cfg (trace, l)" and "ipnet_laws N"
  obtains routable where "\<forall>a. (\<exists>n \<in> set routable. net_contains N n a) \<longleftrightarrow> routes N cfg a"
    and "listener_inv N X ca cfg routable (ls_shared l)" and "down_ok N X ca cfg routable trace (ls_down l)"
    and "up_ok N X ca cfg routable trace (ls_up l)" and "set (ls_inbox l) \<subseteq> delivered trace"
    and "sh_poisoned (ls_shared l) \<longrightarrow> overdue cfg trace"
    and "\<forall>v m. (v, m) \<in> delivered trace \<longrightarrow> sender_verified X ca v"
  using assms unfolding listener_ok_def by blast

lemma listener_okI:
  assumes "\<forall>a. (\<exists>n \<in> set routable. net_contains N n a) \<longleftrightarrow> routes N cfg a"
    and "listener_inv N X ca cfg routable (ls_shared l)" and "down_ok N X ca cfg routable trace (ls_down l)"
    and "up_ok N X ca cfg routable trace (ls_up l)" and "set (ls_inbox l) \<subseteq> delivered trace"
    and "sh_poisoned (ls_shared l) \<longrightarrow> overdue cfg trace"
    and "\<And>v m. (v, m) \<in> delivered trace \<Longrightarrow> sender_verified X ca v"
  shows "listener_ok N X ca cfg (trace, l)"
  using assms unfolding listener_ok_def by auto

lemma inv_session:
  "listener_inv N X ca cfg routable sh \<Longrightarrow> session_inv X ca s \<Longrightarrow> listener_inv N X ca cfg routable (sh\<lparr>sh_session := s\<rparr>)"
  by (simp add: listener_inv_def)

lemma inv_is_session: "listener_inv N X ca cfg routable sh \<Longrightarrow> session_inv X ca (sh_session sh)"
  by (simp add: listener_inv_def)

text \<open>The phases in which a packet enters a loop, and what a waiting loop observes.\<close>

lemma entered_ok:
  "(src, raw) \<in> delivered trace \<Longrightarrow> down_ok N X ca cfg routable trace (down_received src raw)"
  "TunRead res \<in> set trace \<Longrightarrow> up_ok N X ca cfg routable trace (up_received res)"
  "up_ok N X ca cfg routable trace ph \<Longrightarrow> up_ok N X ca cfg routable trace (up_observe out ph)"
proof -
  show "(src, raw) \<in> delivered trace \<Longrightarrow> down_ok N X ca cfg routable trace (down_received src raw)"
    using parse_total [of raw True] by (auto simp: down_received_def split: option.split)
  show "TunRead res \<in> set trace \<Longrightarrow> up_ok N X ca cfg routable trace (up_received res)"
    using parse_total by (auto simp: up_received_def split: sum.split option.split) (metis option.distinct(1))
  show "up_ok N X ca cfg routable trace ph \<Longrightarrow> up_ok N X ca cfg routable trace (up_observe out ph)"
    by (cases ph) simp_all
qed

lemma send_None: "send X s v raw = None \<Longrightarrow> \<not> aead_sizes (x_aead X)"
  using send_typed_total [of X s v MESSAGE raw] by (auto simp: send_def)

lemma listener_ok_step:
  assumes "listener_ok N X ca cfg (trace, l)" and "listener_step N X l ev l'"
  shows "listener_ok N X ca cfg (trace @ [ev], l')"
proof (cases "ipnet_laws N")
  case laws: True
  obtain routable where routable: "\<forall>a. (\<exists>n \<in> set routable. net_contains N n a) \<longleftrightarrow> routes N cfg a"
    and inv: "listener_inv N X ca cfg routable (ls_shared l)" and down: "down_ok N X ca cfg routable trace (ls_down l)"
    and up: "up_ok N X ca cfg routable trace (ls_up l)" and inbox: "set (ls_inbox l) \<subseteq> delivered trace"
    and poison: "sh_poisoned (ls_shared l) \<longrightarrow> overdue cfg trace" and sender: "\<forall>v m. (v, m) \<in> delivered trace \<longrightarrow> sender_verified X ca v"
    by (rule listener_okE [OF assms(1) laws])
  have poison': "sh_poisoned (ls_shared l) \<longrightarrow> overdue cfg (trace @ [ev])" using poison overdue_snoc by blast
  note keep = down_ok_snoc [OF down, of ev] up_ok_snoc [OF up, of ev]
  note facts = routable inv keep inbox poison' sender
  from assms(2) show ?thesis
  proof cases
    case (net_step out s')
    with facts inv_session [OF inv session_step_inv [OF inv_is_session [OF inv] net_step(3)]]
      step_inbox_verified [OF inv_is_session [OF inv] net_step(3)] entered_ok(3) [OF keep(2)]
    show ?thesis by (intro listener_okI [of routable]) (auto simp: inbox_of_iff)
  next
    case (receive_step src raw rest)
    then have q: "ls_inbox l = (src, raw) # rest" by (auto simp: session_recv_def split: list.splits if_splits)
    with inbox have "(src, raw) \<in> delivered (trace @ [ev])" by (auto simp: delivered_def)
    from entered_ok(1) [OF this] receive_step facts q show ?thesis by (intro listener_okI [of routable]) auto
  next
    case (closed_step e rest)
    then show ?thesis by (auto simp: session_recv_def inbox_senders_def split: list.splits)
  next
    case (down_step now sh' phase')
    then have "Tick now \<in> set (trace @ [ev])" by simp
    from down_next_inv [OF laws inv keep(1) down_step(4) this poison'] down_step facts show ?thesis by (intro listener_okI [of routable]) auto
  next
    case (read_step attempts res rest)
    with entered_ok(2) [of res "trace @ [ev]"] facts show ?thesis by (intro listener_okI [of routable]) auto
  next
    case (up_step now sh' phase')
    then have "Tick now \<in> set (trace @ [ev])" by simp
    from up_next_inv [OF laws inv keep(2) up_step(4) this poison'] up_step facts show ?thesis by (intro listener_okI [of routable]) auto
  next
    case (clock_panic raw p s before t)
    with connect_panics_early [OF clock_panic(4)] facts show ?thesis by (intro listener_okI [of routable]) auto
  next
    case (forward_step raw p r s' out)
    with facts send_typed_inv [OF inv_is_session [OF inv] forward_step(4) [unfolded send_def]]
    show ?thesis by (intro listener_okI [of routable]) (auto simp: inv_session)
  next
    case (forward_panic raw p)
    with send_None [OF forward_panic(4)] facts show ?thesis by (intro listener_okI [of routable]) auto
  qed (use facts in \<open>(intro listener_okI [of routable]; auto split: sum.split)+\<close>)
qed (simp add: listener_ok_def)

text \<open>What \<open>new\<close> sets up.\<close>

lemma listener_new_Inr:
  assumes "listener_new K N cfg session tun log = (Inr sh, log')"
  shows "\<exists>fw. firewall_new N (firewall_rules cfg) (firewall_opts cfg) (assigned_networks cfg) (unsafe_networks cfg) = Some fw \<and>
    sh = \<lparr>sh_session = session, sh_firewall = fw, sh_ca_name = cfg_ca_name cfg, sh_ca_sha = cfg_ca_sha cfg, sh_tun = tun,
       sh_poisoned = False\<rparr>"
  using assms by (auto simp: listener_new_def io_Inr split: option.splits)

lemma firewall_new_state:
  "firewall_new N rules opts assigned unsafe = Some fw \<Longrightarrow>
   fw_rules fw = \<lparr>vr_version = 0, vr_rules = rules\<rparr> \<and> fw_conntrack fw = conntrack_new \<and> fw_options fw = opts"
  by (auto simp: firewall_new_def)

lemma listener_ok_init:
  assumes "listener_init N X cfg ca out l"
  shows "listener_ok N X ca cfg ([Net out], l)"
proof (cases "ipnet_laws N")
  case laws: True
  from assms obtain s0 s K tun log log' where s0: "session_init s0" "ca_cert s0 = ca" and s: "session_run X s0 out s"
    and new: "listener_new K N cfg s tun log = (Inr (ls_shared l), log')"
    and l: "ls_inbox l = inbox_of out" "ls_down l = DownIdle" "ls_up l = UpIdle"
    by (auto simp: listener_init_def)
  obtain fw where
    fw: "firewall_new N (firewall_rules cfg) (firewall_opts cfg) (assigned_networks cfg) (unsafe_networks cfg) = Some fw"
    and sh: "ls_shared l = \<lparr>sh_session = s, sh_firewall = fw, sh_ca_name = cfg_ca_name cfg, sh_ca_sha = cfg_ca_sha cfg, sh_tun = tun,
       sh_poisoned = False\<rparr>"
    using listener_new_Inr [OF new] by blast
  from firewall_new_routes [OF laws, of "firewall_rules cfg" "firewall_opts cfg" "assigned_networks cfg" "unsafe_networks cfg"] fw
  have "\<forall>a. (\<exists>n \<in> set (fw_routable fw). net_contains N n a) \<longleftrightarrow> routes N cfg a" by (simp add: routes_def)
  moreover have "listener_inv N X ca cfg (fw_routable fw) (ls_shared l)"
    using run_inv [OF s session_init_inv [OF s0]] firewall_new_state [OF fw] by (simp add: listener_inv_def sh conntrack_new_def)
  moreover have "sender_verified X ca v" if "(v, m) \<in> delivered [Net out]" for v m
    using that run_inbox_verified [OF s session_init_inv [OF s0]] by (auto simp: delivered_def inbox_of_iff)
  ultimately show ?thesis
    using l sh by (intro listener_okI [of "fw_routable fw"]) (auto simp: delivered_def)
qed (simp add: listener_ok_def)

interpretation listening: transition_invariant
  "\<lambda>(trace, l). \<exists>out. trace = [Net out] \<and> listener_init N X cfg ca out l"
  "\<lambda>(trace, l) (trace', l'). \<exists>ev. trace' = trace @ [ev] \<and> listener_step N X l ev l'"
  "listener_ok N X ca cfg" for N X cfg ca
  by unfold_locales (auto intro: listener_ok_init listener_ok_step)

lemma listener_run_ok:
  assumes "listener_run N X cfg ca trace l"
  shows "listener_ok N X ca cfg (trace, l)"
proof -
  from assms have "\<exists>x. (\<lambda>(trace, l). \<exists>out. trace = [Net out] \<and> listener_init N X cfg ca out l) x \<and>
    (\<lambda>(trace, l) (trace', l'). \<exists>ev. trace' = trace @ [ev] \<and> listener_step N X l ev l')\<^sup>*\<^sup>* x (trace, l)"
    by (induction rule: listener_run.induct) (fastforce intro: rtranclp.rtrancl_into_rtrancl)+
  then show ?thesis using listening.reachable_inv by blast
qed

text \<open>The clock readings of a run are in the past.\<close>

lemma run_ticks: "listener_run N X cfg ca trace l \<Longrightarrow> Tick t \<in> set trace \<Longrightarrow> t \<le> ls_time l"
proof (induction rule: listener_run.induct)
  case (run_continue trace l ev l')
  from run_continue(2) have "ls_time l \<le> ls_time l' \<and> (\<forall>now. ev = Tick now \<longrightarrow> now \<le> ls_time l')" by cases auto
  with run_continue show ?case by fastforce
qed simp

lemma admitted_addresses:
  assumes "ipnet_laws N" and "\<forall>a. (\<exists>n \<in> set routable. net_contains N n a) \<longleftrightarrow> routes N cfg a"
    and "admitted N X ca cfg routable p d"
  shows "routes N cfg (local_addr p) \<and> (\<exists>c peer. verified X ca c \<and> cert_owns (cert_info c) (remote_addr p) \<and>
    peer_identity_of N (cert_info c) (cfg_ca_name cfg) (cfg_ca_sha cfg) = Some peer \<and>
    ruleset_matches N (firewall_rules cfg) p d peer)"
  using assms(2,3) peer_identity_owns [OF assms(1)] unfolding admitted_def verified_peer_def check_packet_ok by blast

section \<open>A small mesh\<close>

text \<open>Node 2 of the two hosts listens, and lets every packet through between its own address and its
  peers'.\<close>

definition world_rules :: "'net ruleset" where
  "world_rules = \<lparr>rs_inbound = rs_inbound sample_rules, rs_outbound = rs_inbound sample_rules\<rparr>"

definition world_listening :: "(ipaddr \<times> u8) listener_config" where
  "world_listening = \<lparr>firewall_rules = world_rules, firewall_opts = sample_options,
     assigned_networks = [(V4 2, 16)], unsafe_networks = [], cfg_ca_name = [], cfg_ca_sha = []\<rparr>"

definition world_fw :: "(ipaddr \<times> u8) firewall" where
  "world_fw = \<lparr>fw_rules = \<lparr>vr_version = 0, vr_rules = world_rules\<rparr>, fw_conntrack = conntrack_new,
     fw_options = sample_options, fw_routable = [(V4 2, 32)]\<rparr>"

definition world_shared :: "plain_state inner \<Rightarrow> (ipaddr \<times> u8, plain_state) shared" where
  "world_shared s = \<lparr>sh_session = s, sh_firewall = world_fw, sh_ca_name = [], sh_ca_sha = [], sh_tun = 3,
     sh_poisoned = False\<rparr>"

definition world_listener :: "plain_state inner \<Rightarrow> (ipaddr \<times> bytes) list \<Rightarrow> (ipaddr \<times> u8) down_phase
    \<Rightarrow> (ipaddr \<times> u8, plain_state) up_phase \<Rightarrow> (ipaddr \<times> u8, plain_state) listener" where
  "world_listener s inbox down up =
     \<lparr>ls_shared = world_shared s, ls_inbox = inbox, ls_down = down, ls_up = up, ls_time = 0\<rparr>"

lemma world_listener_sel [simp]:
  "ls_shared (world_listener s inbox down up) = world_shared s" "ls_inbox (world_listener s inbox down up) = inbox"
  "ls_down (world_listener s inbox down up) = down"
  "ls_up (world_listener s inbox down up) = up" "ls_time (world_listener s inbox down up) = 0"
  "sh_session (world_shared s) = s"
  by (simp_all add: world_listener_def world_shared_def)

lemma world_rules_match: "ruleset_matches N world_rules p incoming remote"
  by (cases "protocol p")
    (auto simp: world_rules_def sample_rules_def matches_defs default_defs PORT_FRAGMENT_def)

lemma world_listener_new:
  "listener_new granting cidr_ops world_listening s 3 [] =
     (Inr (world_shared s), [FlagsRead 3 True, FlagsSet 3 0x802 True, Registered 3 True])"
  by (simp add: listener_new_def io_bind_def io_lift_def io_err_def syscall_defs syscall_def closing_on_error_def
      set_nonblocking_def O_NONBLOCK_def granting_def world_listening_def firewall_new_def world_fw_def world_shared_def)

abbreviation world_run where
  "world_run \<equiv> listener_run cidr_ops world world_listening world_ca"

lemma world_listener_starts: "world_run [Net []] (world_listener (world_inner 2 [2]) [] DownIdle UpIdle)"
proof (rule run_start)
  have "ca_cert (world_inner 2 [2]) = world_ca" by (simp add: world_inner_def world_node_def)
  then show "listener_init cidr_ops world world_listening world_ca [] (world_listener (world_inner 2 [2]) [] DownIdle UpIdle)"
    unfolding listener_init_def using world_init [of 2 "[2]"] world_listener_new [of "world_inner 2 [2]"] run_nil
    by fastforce
qed

definition world_identity :: "(ipaddr \<times> u8) peer_identity" where
  "world_identity = \<lparr>pi_name = ''h'', pi_groups = {}, pi_ca_name = [], pi_ca_sha = [],
     pi_vpn_networks = [(V4 1, 32)], pi_unsafe_networks = []\<rparr>"

lemma world_peer_identity: "peer_identity_of cidr_ops (cert_info (world_cert 1 key)) [] [] = Some world_identity"
  by (simp add: peer_identity_of_def cert_info_def world_cert_def world_details_def to_host_route_def world_identity_def)

lemma sample_timely: "now \<le> 5 \<Longrightarrow> \<not> record_panics now (timeout_for sample_options proto)"
  by (cases proto) (simp_all add: record_panics_def INSTANT_BOUND_def sample_options_def)

lemma world_verdict:
  assumes "local_addr p = V4 2" and "remote_addr p = V4 1" and "now \<le> 5"
  shows "\<exists>sh'. firewall_verdict cidr_ops (world_shared s) p incoming (cert_info (world_cert 1 key)) now = Some (sh', True) \<and>
    sh_session sh' = s"
proof -
  have "snd (evaluate cidr_ops p incoming world_identity now world_fw) = Inr ()"
    by (simp add: evaluate_result world_fw_def sample_first check_packet_def owns_def world_identity_def
        world_rules_match assms)
  moreover have "\<not> evaluate_panics cidr_ops False p incoming world_identity now world_fw"
    using sample_timely [OF assms(3)] by (simp add: evaluate_panics_def world_fw_def)
  ultimately show ?thesis
    by (simp add: firewall_verdict_Some world_shared_def world_peer_identity)
qed

definition world_packet :: "u32 \<Rightarrow> u32 \<Rightarrow> bytes" where
  "world_packet src dst = ipv4_packet 0x45 0 24 0 0 64 17 0 src dst [] [0x30, 0x39, 0, 53]"

abbreviation world_flow :: "u32 \<Rightarrow> u32 \<Rightarrow> bool \<Rightarrow> packet" where
  "world_flow src dst incoming \<equiv> orient \<lparr>ft_src = V4 src, ft_dst = V4 dst, ft_protocol = Udp,
     ft_src_port = 12345, ft_dst_port = 53, ft_icmp_identifier = None, ft_fragment = False\<rparr> incoming"

lemma world_parse: "parse (world_packet src dst) incoming = Some (Some (world_flow src dst incoming))"
  unfolding world_packet_def
  by (subst parse_ipv4_bytes) (simp_all add: ipv4_tuple_def protocol_from_def be_simps Let_def)

lemma world_ends:
  "local_addr (world_flow src dst incoming) = (if incoming then V4 dst else V4 src)"
  "remote_addr (world_flow src dst incoming) = (if incoming then V4 src else V4 dst)"
  by (simp_all add: orient_def)

lemma world_info: "peer_info_of (world_replied [1] from) (V4 1) = Some (cert_info (world_cert 1 [1]))"
  by (simp add: peer_info_of_def world_replied_def)

lemma world_run_net:
  assumes "world_run trace (world_listener s inbox DownIdle UpIdle)" and "session_step world s out s'"
  shows "world_run (trace @ [Net out]) (world_listener s' (inbox @ inbox_of out) DownIdle UpIdle)"
  using run_continue [OF assms(1) net_step [of world "world_listener s inbox DownIdle UpIdle" out s' cidr_ops]] assms(2)
  by (simp add: world_listener_def world_shared_def)

lemma world_run_replied:
  obtains trace where "world_run trace (world_listener (world_replied [1] (SockV4 11 11)) [] DownIdle UpIdle)"
proof -
  note step = recv_step [OF world_reply [of "[1]" "SockV4 11 11"]]
  from world_run_net [OF world_listener_starts step] that show thesis by simp
qed

lemma world_run_delivered:
  obtains trace s where "world_run trace (world_listener s [(V4 1, m)] DownIdle UpIdle)"
    and "peer_info_of s (V4 1) = Some (cert_info (world_cert 1 [1]))"
proof -
  obtain pkt s where pkt: "recv_datagram world world_clock (world_replied [1] (SockV4 11 11)) pkt (SockV4 11 11) =
    Some (s, [Inbox (V4 1) m])" by (rule world_delivered)
  obtain trace where "world_run trace (world_listener (world_replied [1] (SockV4 11 11)) [] DownIdle UpIdle)"
    by (rule world_run_replied)
  from world_run_net [OF this recv_step [OF pkt]]
  have "world_run (trace @ [Net [Inbox (V4 1) m]]) (world_listener s [(V4 1, m)] DownIdle UpIdle)" by simp
  moreover have "peer_info_of s (V4 1) = Some (cert_info (world_cert 1 [1]))"
    by (rule inbox_origin [OF pkt, of "V4 1" m]) (simp_all add: decrypt_from_info world_info)
  ultimately show thesis by (rule that)
qed

section \<open>Properties\<close>

text \<open>C1: Whatever a running listener writes to its tun device is, unchanged, the payload of a message
  that the session delivered for a peer with a verified certificate; it parses as an IP packet whose
  destination is an address this node routes and whose source is an address that the verified
  certificate of some peer owns, on a flow that the configured rules admitted for that peer. This
  holds however the critical sections of the two loops, of the firewall and of the session
  interleave.\<close>

theorem tun_writes_admitted:
  assumes "ipnet_laws N" and "listener_run N X cfg ca trace l" and "listener_step N X l (TunWrite raw res) l'"
  shows "\<exists>src p d. (src, raw) \<in> delivered trace \<and> sender_verified X ca src \<and>
    parse raw True = Some (Some p) \<and> routes N cfg (local_addr p) \<and>
    (\<exists>c peer. verified X ca c \<and> cert_owns (cert_info c) (remote_addr p) \<and>
       peer_identity_of N (cert_info c) (cfg_ca_name cfg) (cfg_ca_sha cfg) = Some peer \<and>
       ruleset_matches N (firewall_rules cfg) p d peer)"
proof -
  obtain routable where r: "\<forall>a. (\<exists>n \<in> set routable. net_contains N n a) \<longleftrightarrow> routes N cfg a"
    and down: "down_ok N X ca cfg routable trace (ls_down l)"
    and sender: "\<forall>v m. (v, m) \<in> delivered trace \<longrightarrow> sender_verified X ca v"
    by (rule listener_okE [OF listener_run_ok [OF assms(2)] assms(1)])
  from assms(3) obtain src where "ls_down l = DownWriting src raw" by cases auto
  with down obtain p d where "(src, raw) \<in> delivered trace" and "parse raw True = Some (Some p)"
    and "admitted N X ca cfg routable p d" by auto
  with sender admitted_addresses [OF assms(1) r] show ?thesis by blast
qed

lemma world_writes:
  obtains trace l l' where "world_run trace l" and "listener_step cidr_ops world l (TunWrite (world_packet 1 2) (Inr 24)) l'"
proof -
  let ?raw = "world_packet 1 2"
  obtain trace s where run: "world_run trace (world_listener s [(V4 1, ?raw)] DownIdle UpIdle)"
    and info: "peer_info_of s (V4 1) = Some (cert_info (world_cert 1 [1]))" by (rule world_run_delivered)
  obtain sh where "firewall_verdict cidr_ops (world_shared s) (world_flow 1 2 True) True (cert_info (world_cert 1 [1])) 5 = Some (sh, True)"
    using world_verdict [of "world_flow 1 2 True" 5 s True "[1]"] by (auto simp: world_ends)
  with info obtain l where "world_run (trace @ Internal # replicate 4 (Tick 5)) l" and "ls_down l = DownWriting (V4 1) ?raw"
    using inbox_to_write [OF run, of 5 "V4 1" ?raw "[]" "world_flow 1 2 True"] by (auto simp: world_parse)
  with write_step [of l "V4 1" ?raw "[Answered (Inr 24)]" "Inr 24" "[]" cidr_ops world] that show thesis
    by (auto simp: write_fd_def)
qed

theorem tun_writes_admitted_witness:
  "\<exists>trace l l'. world_run trace l \<and> listener_step cidr_ops world l (TunWrite (world_packet 1 2) (Inr 24)) l' \<and>
     (\<exists>src. (src, world_packet 1 2) \<in> delivered trace) \<and> routes cidr_ops world_listening (V4 2)"
proof -
  obtain trace l l' where run: "world_run trace l"
    and step: "listener_step cidr_ops world l (TunWrite (world_packet 1 2) (Inr 24)) l'" by (rule world_writes)
  from tun_writes_admitted [OF cidr_ops_laws run step]
  have "\<exists>src. (src, world_packet 1 2) \<in> delivered trace" and "routes cidr_ops world_listening (V4 2)"
    by (auto simp: world_parse world_ends)
  with run step show ?thesis by blast
qed

text \<open>C14: What the tun loop sends into the mesh is one packet read from the tun, to the tunnel of the
  very address the IP packet is destined to; its source is an address this node routes and its
  destination one that a verified certificate owns, on a flow the configured rules admitted.\<close>

theorem mesh_sends_admitted:
  assumes "ipnet_laws N" and "listener_run N X cfg ca trace l" and "listener_step N X l (Forwarded raw out) l'" and "out \<noteq> []"
  shows "\<exists>p i t r c ri pkt. TunRead (Inr raw) \<in> set trace \<and> parse raw False = Some (Some p) \<and>
    index_by_vpn_addr (sh_session (ls_shared l)) (remote_addr p) = Some i \<and>
    peers_by_index (sh_session (ls_shared l)) i = Some (Established t r (remote_addr p) c ri) \<and>
    out = [SendTo r pkt] \<and> routes N cfg (local_addr p) \<and>
    (\<exists>c peer d. verified X ca c \<and> cert_owns (cert_info c) (remote_addr p) \<and>
       peer_identity_of N (cert_info c) (cfg_ca_name cfg) (cfg_ca_sha cfg) = Some peer \<and>
       ruleset_matches N (firewall_rules cfg) p d peer)"
proof -
  obtain routable where r: "\<forall>a. (\<exists>n \<in> set routable. net_contains N n a) \<longleftrightarrow> routes N cfg a"
    and inv: "listener_inv N X ca cfg routable (ls_shared l)" and up: "up_ok N X ca cfg routable trace (ls_up l)"
    by (rule listener_okE [OF listener_run_ok [OF assms(2)] assms(1)])
  from assms(3) obtain p res s' where ph: "ls_up l = UpSending raw p"
    and s: "send X (sh_session (ls_shared l)) (remote_addr p) raw = Some (res, s', out)" by cases auto
  from up ph obtain d where raw: "TunRead (Inr raw) \<in> set trace" "parse raw False = Some (Some p)"
    and ad: "admitted N X ca cfg routable p d" by auto
  from s [unfolded send_def] show ?thesis
  proof (cases rule: send_typed_cases)
    case (peer i t rm v' c ri)
    from session_invD(3) [OF inv_is_session [OF inv] peer(1)] peer(2) have "v' = remote_addr p" by simp
    with raw peer assms(4) admitted_addresses [OF assms(1) r ad] show ?thesis by blast
  qed (use assms(4) in simp)
qed

lemma world_forwards:
  obtains trace l l' out where "world_run trace l" and "listener_step cidr_ops world l (Forwarded (world_packet 2 1) out) l'"
    and "out \<noteq> []"
proof -
  let ?s = "world_replied [1] (SockV4 11 11)" and ?raw = "world_packet 2 1" and ?p = "world_flow 2 1 False"
  obtain trace where run: "world_run trace (world_listener ?s [] DownIdle UpIdle)" by (rule world_run_replied)
  have len: "length ?raw = 24" by (simp add: world_packet_def ipv4_packet_def)
  obtain sh where "firewall_verdict cidr_ops (world_shared ?s) ?p False (cert_info (world_cert 1 [1])) 5 = Some (sh, True)"
    using world_verdict [of ?p 5 ?s False "[1]"] by (auto simp: world_ends)
  then obtain l where l: "world_run (trace @ TunRead (Inr ?raw) # replicate 5 (Tick 5)) l" "ls_up l = UpSending ?raw ?p"
    and s: "sh_session (ls_shared l) = ?s"
    using read_to_send [OF run, of 5 ?raw ?p "cert_info (world_cert 1 [1])" sh] world_info
    by (auto simp: len TUN_BUFFER_def world_parse world_ends)
  have i: "index_by_vpn_addr ?s (V4 1) = Some 0x9E3779BC" by (simp add: world_replied_def)
  obtain s' out where send: "send world ?s (V4 1) ?raw = Some (Inr (), s', out)"
    by (rule send_succeeds [OF world_sizes world_seals i world_replied_peer])
  with l s forward_step [of l ?raw ?p world "Inr ()" s' out cidr_ops]
    send_typed_ok_sends [OF send [unfolded send_def]] that show thesis
    by (simp add: world_ends)
qed

theorem mesh_sends_admitted_witness:
  "\<exists>trace l l' r pkt. world_run trace l \<and> listener_step cidr_ops world l (Forwarded (world_packet 2 1) [SendTo r pkt]) l' \<and>
     TunRead (Inr (world_packet 2 1)) \<in> set trace"
proof -
  obtain trace l l' out where w: "world_run trace l" "listener_step cidr_ops world l (Forwarded (world_packet 2 1) out) l'" "out \<noteq> []"
    by (rule world_forwards)
  from mesh_sends_admitted [OF cidr_ops_laws w] w show ?thesis by blast
qed

text \<open>C15: What \<open>run\<close> returns, with an AEAD of the documented sizes and in a release build. Either
  reading the tun failed, and it returns that error, or a task panicked, for one of three reasons: a
  verified certificate has an unsafe network whose prefix is longer than its address; the configured
  timeout of some protocol is so long that it cannot be added to a clock reading of the run; or the
  system clock was read before 1970. It never returns \<open>Ok\<close>: a loop that waits for the inbox has
  itself a reference to its sender, so the exit for a closed session is never taken.\<close>

theorem run_outcome:
  assumes "ipnet_laws N" and "aead_sizes (x_aead X)" and "listener_run N X cfg ca trace l" and "run_returns l r"
  shows "(\<exists>e. r = Inl e \<and> TunRead (Inl e) \<in> set trace) \<or>
    r = Inl TaskPanicked \<and>
      ((\<exists>c. verified X ca c \<and>
         (\<exists>n \<in> set (d_unsafe_networks (cert_details c)). max_prefix_len (nw_addr n) < nw_prefix_len n)) \<or>
       (\<exists>now proto. Tick now \<in> set trace \<and> INSTANT_BOUND \<le> now + timeout_for (firewall_opts cfg) proto) \<or>
       (\<exists>t < 0. ClockBeforeEpoch t \<in> set trace))"
proof -
  obtain routable where down: "down_ok N X ca cfg routable trace (ls_down l)"
    and up: "up_ok N X ca cfg routable trace (ls_up l)"
    by (rule listener_okE [OF listener_run_ok [OF assms(3)] assms(1)])
  note reasons = overlong_cert_def overdue_def record_panics_def
  from assms(4) consider e where "ls_up l = UpEnded e" "r = join_result e" | e where "ls_down l = DownEnded e" "r = join_result e"
    by (auto simp: run_returns_def)
  then show ?thesis
  proof cases
    case 1
    show ?thesis
    proof (cases e)
      case Panicked
      with 1 up assms(2) have "overlong_cert X ca \<or> overdue cfg trace \<or> (\<exists>t < 0. ClockBeforeEpoch t \<in> set trace)" by simp
      with 1 Panicked show ?thesis unfolding reasons by auto
    qed (use 1 up in auto)
  next
    case 2
    with down have "e = Panicked" "overlong_cert X ca \<or> overdue cfg trace" by simp_all
    with 2 show ?thesis unfolding reasons by auto
  qed
qed

theorem run_outcome_witness:
  "\<exists>trace l. world_run trace l \<and> run_returns l (Inl (OsError 5)) \<and> TunRead (Inl (OsError 5)) \<in> set trace"
proof -
  let ?l = "world_listener (world_inner 2 [2]) [] DownIdle UpIdle"
  have "listener_step cidr_ops world ?l (TunRead (Inl (OsError 5))) (?l\<lparr>ls_up := UpEnded (Returned (Inl (OsError 5)))\<rparr>)"
    using read_step [of ?l "[Answered (Inl 11), Answered (Inl 5)]" "Inl (OsError 5)" "[]" cidr_ops world]
    by (simp add: read_fd_def EWOULDBLOCK_def up_received_def)
  from run_continue [OF world_listener_starts this]
  have run: "world_run ([Net []] @ [TunRead (Inl (OsError 5))]) (?l\<lparr>ls_up := UpEnded (Returned (Inl (OsError 5)))\<rparr>)" .
  have ret: "run_returns (?l\<lparr>ls_up := UpEnded (Returned (Inl (OsError 5)))\<rparr>) (Inl (OsError 5))"
    by (simp add: run_returns_def)
  from run_outcome [OF cidr_ops_laws world_sizes run ret] run ret show ?thesis by fastforce
qed

text \<open>C35: Handling a mesh packet without interruption panics exactly when the packet parses, its
  sender has a tunnel, and either the sender's certificate lists an unsafe network whose prefix
  length exceeds the address width, or a panic has poisoned the connection table before, or the
  packet is accepted and its protocol's timeout is too long to be added to the clock reading.
  Decoding does not check prefix lengths, so a certificate of a trusted CA can carry such a network.\<close>

theorem mesh_to_tun_panics_iff:
  assumes "ipnet_laws N"
  shows "(\<exists>sh'. (down_next N now ^^ 4) (sh, down_received src raw) = (sh', DownEnded Panicked)) \<longleftrightarrow>
    (\<exists>p info. parse raw True = Some (Some p) \<and> peer_info_of (sh_session sh) src = Some info \<and>
       ((\<exists>n \<in> set (info_unsafe_networks info). max_prefix_len (nw_addr n) < nw_prefix_len n) \<or>
        sh_poisoned sh \<or>
        (\<exists>peer. peer_identity_of N info (sh_ca_name sh) (sh_ca_sha sh) = Some peer \<and>
           snd (evaluate N p True peer now (sh_firewall sh)) = Inr () \<and>
           INSTANT_BOUND \<le> now + timeout_for (fw_options (sh_firewall sh)) (protocol p))))"
proof -
  obtain parsed where parsed: "parse raw True = Some parsed" using parse_total [of raw True] by blast
  show ?thesis
  proof (cases "\<exists>p info. parsed = Some p \<and> peer_info_of (sh_session sh) src = Some info")
    case True
    then obtain p info where p: "parsed = Some p" "peer_info_of (sh_session sh) src = Some info" by blast
    have "(\<exists>sh'. (down_next N now ^^ 4) (sh, DownParsed src raw p) = (sh', DownEnded Panicked)) \<longleftrightarrow>
        firewall_verdict N sh p True info now = None"
      using down_turn [OF p(2), of N p now] by (cases "firewall_verdict N sh p True info now") (auto split: if_splits)
    moreover have "peer_identity_of N info (sh_ca_name sh) (sh_ca_sha sh) = None \<longleftrightarrow>
        (\<exists>n \<in> set (info_unsafe_networks info). max_prefix_len (nw_addr n) < nw_prefix_len n)"
      by (rule peer_identity_None [OF assms])
    ultimately show ?thesis
      using p parsed
      by (auto simp: down_received_def firewall_verdict_None evaluate_panics_def record_panics_def split: option.splits)
  next
    case False
    then show ?thesis
      by (cases parsed) (auto simp: down_received_def parsed four_sections phases_stay split: option.split)
  qed
qed

theorem mesh_to_tun_panics_iff_witness:
  "\<exists>sh'. (down_next cidr_ops 5 ^^ 4) (world_shared ((world_inner 2 [2])\<lparr>index_by_vpn_addr := [V4 1 \<mapsto> 7],
     peers_by_index := [7 \<mapsto> Established (transport_new AesGcm [] []) (SockV4 11 11) (V4 1) ((world_cert 1 [1])\<lparr>cert_details :=
       (world_details 1)\<lparr>d_unsafe_networks := [\<lparr>nw_addr = V4 9, nw_prefix_len = 33\<rparr>]\<rparr>\<rparr>) 7]\<rparr>),
     down_received (V4 1) (world_packet 1 2)) = (sh', DownEnded Panicked)"
  by (subst mesh_to_tun_panics_iff [OF cidr_ops_laws])
    (simp add: world_parse world_shared_def peer_info_of_def cert_info_def)

end
