(* ===== verification/Tun.thy ===== *)
theory Tun
  imports Kernel
begin

text \<open>
  \<open>nebula-listener/src/tun.rs\<close>: creation and configuration of the tun interface, as the
  sequence of system calls it makes.
\<close>

section \<open>Requests\<close>

definition IFF_TUN :: u16 where "IFF_TUN = 0x0001"
definition IFF_NO_PI :: u16 where "IFF_NO_PI = 0x1000"
definition IFF_UP :: u16 where "IFF_UP = 0x1"
definition IFF_RUNNING :: u16 where "IFF_RUNNING = 0x40"

definition TUNSETIFF :: u64 where "TUNSETIFF = 0x400454ca"
definition SIOCSIFADDR :: u64 where "SIOCSIFADDR = 0x8916"
definition SIOCSIFNETMASK :: u64 where "SIOCSIFNETMASK = 0x891c"
definition SIOCSIFMTU :: u64 where "SIOCSIFMTU = 0x8922"
definition SIOCGIFFLAGS :: u64 where "SIOCGIFFLAGS = 0x8913"
definition SIOCSIFFLAGS :: u64 where "SIOCSIFFLAGS = 0x8914"
definition SIOCGIFINDEX :: u64 where "SIOCGIFINDEX = 0x8933"

lemmas request_defs = TUNSETIFF_def SIOCSIFADDR_def SIOCSIFNETMASK_def SIOCSIFMTU_def SIOCGIFFLAGS_def
  SIOCSIFFLAGS_def SIOCGIFINDEX_def

text \<open>The destination is a zeroed array of 16.\<close>

definition write_name :: "bytes \<Rightarrow> string \<Rightarrow> io_error + bytes" where
  "write_name dst name =
     (let b = as_bytes name in
      if length b \<ge> 16 then Inl (InvalidInput ''interface name too long (max 15 bytes)'')
      else Inr (b @ drop (length b) dst))"

section \<open>create\<close>

text \<open>A request carrying the interface name in a zeroed array: \<open>write_name\<close> and the call.\<close>

definition named_ioctl :: "kernel \<Rightarrow> fd \<Rightarrow> u64 \<Rightarrow> string \<Rightarrow> (bytes \<Rightarrow> ifreq) \<Rightarrow> ioctl_reply io" where
  "named_ioctl K fd request name arg =
     io_bind (io_lift (write_name (replicate 16 0) name)) (\<lambda>n. ioctl K fd request (arg n))"

text \<open>\<open>netmask\<close> of the ipnet crate joins the operations of the other components.\<close>

record 'net tun_net_ops = "'net ipnet_ops" +
  net_netmask_v4 :: "'net \<Rightarrow> u32"

definition assign_v4 :: "kernel \<Rightarrow> 'net tun_net_ops \<Rightarrow> fd \<Rightarrow> string \<Rightarrow> 'net \<Rightarrow> u32 \<Rightarrow> ioctl_reply io" where
  "assign_v4 K N sfd name addr a =
     io_bind (named_ioctl K sfd SIOCSIFADDR name (\<lambda>n. IfReqSockaddr n (sockaddr_in_v4 a))) (\<lambda>_.
     named_ioctl K sfd SIOCSIFNETMASK name (\<lambda>n. IfReqSockaddr n (sockaddr_in_v4 (net_netmask_v4 N addr))))"

definition assign_v6 :: "kernel \<Rightarrow> 'net tun_net_ops \<Rightarrow> fd \<Rightarrow> string \<Rightarrow> 'net \<Rightarrow> u128 \<Rightarrow> ioctl_reply io" where
  "assign_v6 K N sfd name addr a =
     io_bind (write_file K (''/proc/sys/net/ipv6/conf/'' @ name @ ''/accept_dad'') ''0'') (\<lambda>_.
     io_bind (named_ioctl K sfd SIOCGIFINDEX name (\<lambda>n. IfReqInt n 0)) (\<lambda>idx.
     ioctl K sfd SIOCSIFADDR (In6Ifreq (to_be 16 a) (ucast (net_prefix_len N addr)) (reply_val idx))))"

definition bring_up :: "kernel \<Rightarrow> fd \<Rightarrow> string \<Rightarrow> u32 \<Rightarrow> ioctl_reply io" where
  "bring_up K sfd name mtu =
     io_bind (named_ioctl K sfd SIOCSIFMTU name (\<lambda>n. IfReqInt n mtu)) (\<lambda>_.
     io_bind (io_lift (write_name (replicate 16 0) name)) (\<lambda>n.
     io_bind (ioctl K sfd SIOCGIFFLAGS (IfReqShort n 0)) (\<lambda>flags.
     ioctl K sfd SIOCSIFFLAGS (IfReqShort n (reply_data flags OR (IFF_UP OR IFF_RUNNING))))))"

definition create :: "kernel \<Rightarrow> 'net tun_net_ops \<Rightarrow> string \<Rightarrow> 'net \<Rightarrow> u32 \<Rightarrow> fd io" where
  "create K N name addr mtu =
     io_bind (open_tun K) (\<lambda>tun. closing_on_error tun (
       io_bind (named_ioctl K tun TUNSETIFF name (\<lambda>n. IfReqShort n (IFF_TUN OR IFF_NO_PI))) (\<lambda>_.
       io_bind (open_socket K (case net_addr N addr of V4 _ \<Rightarrow> AF_INET | V6 _ \<Rightarrow> AF_INET6)) (\<lambda>sfd. closing sfd (
         io_bind (case net_addr N addr of
                    V4 a \<Rightarrow> assign_v4 K N sfd name addr a
                  | V6 a \<Rightarrow> assign_v6 K N sfd name addr a) (\<lambda>_.
         io_bind (bring_up K sfd name mtu) (\<lambda>_.
         io_lift (Inr tun))))))))"

section \<open>Successful calls\<close>







lemma balanced_named_ioctl: "balanced (named_ioctl K fd request name arg)"
  unfolding named_ioctl_def by (intro balanced_bind balanced_lift balanced_calls refl)

lemma balanced_setup: "balanced (assign_v4 K N sfd name addr a)" "balanced (assign_v6 K N sfd name addr b)"
  "balanced (bring_up K sfd name mtu)"
  unfolding assign_v4_def assign_v6_def bring_up_def
  by (intro balanced_bind balanced_lift balanced_calls balanced_named_ioctl refl)+

lemma create_owes: "owes {#} result_fd (create K N name addr mtu)"
  unfolding create_def
proof (rule owes_handed_out [OF owes_opens(1)])
  fix tun
  show "balanced (io_bind (named_ioctl K tun TUNSETIFF name (\<lambda>n. IfReqShort n (IFF_TUN OR IFF_NO_PI))) (\<lambda>_.
    io_bind (open_socket K (case net_addr N addr of V4 _ \<Rightarrow> AF_INET | V6 _ \<Rightarrow> AF_INET6)) (\<lambda>sfd. closing sfd (
      io_bind (case net_addr N addr of
                 V4 a \<Rightarrow> assign_v4 K N sfd name addr a
               | V6 a \<Rightarrow> assign_v6 K N sfd name addr a) (\<lambda>_.
      io_bind (bring_up K sfd name mtu) (\<lambda>_. io_lift (Inr tun)))))))"
    by (intro balanced_bind owes_scoped owes_opens balanced_named_ioctl balanced_lift balanced_setup refl)
      (auto split: ipaddr.split intro: balanced_setup)
qed (auto simp: io_Inr)

section \<open>An instance\<close>

definition tun_cidr_ops :: "(ipaddr \<times> u8) tun_net_ops" where
  "tun_cidr_ops = ipnet_ops.extend cidr_ops \<lparr>net_netmask_v4 = (\<lambda>(a, p). NOT (mask (32 - unat p)))\<rparr>"

lemma granting_create:
  "create granting tun_cidr_ops ''nb0'' (V4 0x0A090901, 24) 1300 [] =
     (Inr 3, snd (create granting tun_cidr_ops ''nb0'' (V4 0x0A090901, 24) 1300 []))"
  by (simp add: create_def io_bind_def syscall_defs syscall_def closing_on_error_def named_ioctl_def io_lift_def
      write_name_def closing_def assign_v4_def bring_up_def granting_def tun_cidr_ops_def
      ipnet_ops.defs cidr_ops_def Let_def)

section \<open>Properties\<close>

text \<open>C34: \<open>create\<close> leaks no descriptor, whatever the kernel answers and wherever it fails: every
  descriptor it opened is closed again except, on success, the tun descriptor it returns.\<close>

theorem create_no_fd_leak:
  assumes "create K N name addr mtu [] = (r, log)"
  shows "mset (opened log) = mset (closed log) + (case r of Inl _ \<Rightarrow> {#} | Inr fd \<Rightarrow> {#fd#})"
proof -
  from owesE [OF create_owes [of K N name addr mtu], of "[]"] assms show ?thesis by (fastforce simp: result_fd_def split: sum.split)
qed

theorem create_no_fd_leak_witness:
  "mset (opened (snd (create granting tun_cidr_ops ''nb0'' (V4 0x0A090901, 24) 1300 []))) =
   mset (closed (snd (create granting tun_cidr_ops ''nb0'' (V4 0x0A090901, 24) 1300 []))) + {#3#}"
  using create_no_fd_leak [OF granting_create] by simp



text \<open>An interface name of 16 bytes or more is refused before the interface is registered, and
  the device is closed again; but the device is opened first, so that the error is the operating
  system's when that fails.\<close>

theorem create_long_name:
  assumes "16 \<le> length name"
  shows "create K N name addr mtu [] =
    (case sys_open K [] of
       Inl e \<Rightarrow> (Inl (OsError e), [OpenFailed])
     | Inr fd \<Rightarrow> (Inl (InvalidInput ''interface name too long (max 15 bytes)''), [Opened fd, Closed fd]))"
  using assms
  by (auto simp: create_def io_bind_def open_tun_def syscall_def closing_on_error_def named_ioctl_def io_lift_def write_name_def
      split: sum.split)

theorem create_long_name_witness:
  "create granting tun_cidr_ops ''this-name-is-way-too-long'' (V4 0x0A090901, 24) 1300 [] =
     (Inl (InvalidInput ''interface name too long (max 15 bytes)''), [Opened 3, Closed 3])"
  by (subst create_long_name) (simp_all add: granting_def)

end
