(* ===== verification/Node.thy ===== *)
theory Node
  imports Rule_Builder Session_Open Listener_Safety Tun
begin

text \<open>
  \<open>nebula-listener/examples/node.rs\<close>: the program that puts the parts together. It reads its
  configuration from the environment, creates the tun device and the UDP socket, opens a session,
  and runs a listener that admits every packet between its own address and its peers'. What stops it
  early, a panic or an error, is a value of \<open>stop\<close>; descriptors are closed as they are dropped.
\<close>

section \<open>Configuration\<close>

text \<open>\<open>std::env::var\<close>: \<open>None\<close> for a variable that is missing or not Unicode.\<close>

type_synonym environment = "string \<Rightarrow> string option"

definition expect :: "string \<Rightarrow> 'a option \<Rightarrow> string + 'a" where
  "expect message x = (case x of Some v \<Rightarrow> Inr v | None \<Rightarrow> Inl message)"

definition env :: "environment \<Rightarrow> string \<Rightarrow> string + string" where
  "env vars key = expect (''missing required env var '' @ key) (vars key)"

definition env_or_default :: "environment \<Rightarrow> string \<Rightarrow> string" where
  "env_or_default vars key = (case vars key of Some v \<Rightarrow> v | None \<Rightarrow> [])"

definition any_rule :: "bool \<Rightarrow> 'net rule" where
  "any_rule incoming = \<lparr>r_incoming = incoming, r_proto = AnyProto, r_port = PortAny, r_groups = [], r_host = None,
     r_cidr = None, r_local_cidr = LcAny, r_ca_name = None, r_ca_sha = None\<rparr>"

definition add_any_rule :: "bool \<Rightarrow> 'net builder \<Rightarrow> string + 'net builder" where
  "add_any_rule incoming b = map_err (\<lambda>_. ''allow-any rule is valid'') (add_rule (any_rule incoming) b)"

definition allow_any :: "'net list \<Rightarrow> string + 'net ruleset" where
  "allow_any assigned =
     and_then (add_any_rule True (builder_new assigned False True)) (\<lambda>b.
     and_then (add_any_rule False b) (\<lambda>b.
     Inr (build b)))"

text \<open>\<open>map\<close> and \<open>collect\<close> on a sequence whose closure may panic: the first panic ends it.\<close>

fun collect :: "('a \<Rightarrow> 'e + 'b) \<Rightarrow> 'a list \<Rightarrow> 'e + 'b list" where
  "collect f [] = Inr []"
| "collect f (x # xs) = and_then (f x) (\<lambda>y. and_then (collect f xs) (\<lambda>ys. Inr (y # ys)))"

definition parse_entry :: "string \<Rightarrow> string + (ipaddr \<times> socketaddr)" where
  "parse_entry entry =
     and_then (expect ''static host must be vpn_ip=host:port'' (split_once (CHR ''='') entry)) (\<lambda>(ip, sock).
     and_then (expect ''valid vpn ip'' (ipaddr_from_str (trim ip))) (\<lambda>ip.
     and_then (expect ''valid socket addr'' (socketaddr_from_str (trim sock))) (\<lambda>sock.
     Inr (ip, sock))))"

definition parse_hosts :: "string \<Rightarrow> string + (ipaddr \<times> socketaddr) list" where
  "parse_hosts raw = collect parse_entry (filter (\<lambda>s. trim s \<noteq> []) (split_char (CHR '','') raw))"

definition parse_lighthouses :: "string \<Rightarrow> string + ipaddr list" where
  "parse_lighthouses raw =
     collect (\<lambda>s. expect ''valid lighthouse vpn addr'' (ipaddr_from_str (trim s)))
       (filter (\<lambda>s. trim s \<noteq> []) (split_char (CHR '','') raw))"

section \<open>main\<close>

text \<open>A step of \<open>main\<close> that computes or panics, and one that returns an \<open>io::Error\<close>.\<close>

definition or_panic :: "string + 'a \<Rightarrow> (stop, 'a) prog" where
  "or_panic r = io_lift (map_err Panic r)"

definition node_cipher :: "environment \<Rightarrow> cipher" where
  "node_cipher vars = (case vars ''NEBULA_CIPHER'' of
     Some c \<Rightarrow> if c = ''chachapoly'' then ChaChaPoly else AesGcm | None \<Rightarrow> AesGcm)"

definition node_tun :: "kernel \<Rightarrow> 'net tun_net_ops \<Rightarrow> environment \<Rightarrow> 'net \<Rightarrow> (stop, fd) prog" where
  "node_tun K N vars tun_addr =
     io_bind (or_panic (env vars ''NEBULA_TUN_NAME'')) (\<lambda>name.
     io_err Failed (create K N name tun_addr 1300))"

definition node_socket :: "kernel \<Rightarrow> environment \<Rightarrow> (stop, fd) prog" where
  "node_socket K vars =
     io_bind (or_panic (env vars ''NEBULA_BIND'')) (\<lambda>b.
     io_bind (or_panic (expect ''valid bind addr'' (socketaddr_from_str b))) (\<lambda>addr.
     io_err Failed (udp_bind K addr)))"

definition read_env_file :: "kernel \<Rightarrow> environment \<Rightarrow> string \<Rightarrow> (stop, bytes) prog" where
  "read_env_file K vars key = io_bind (or_panic (env vars key)) (\<lambda>path. io_err Failed (read_file K path))"

definition node_session_config :: "kernel \<Rightarrow> environment \<Rightarrow> (stop, session_config) prog" where
  "node_session_config K vars =
     io_bind (read_env_file K vars ''NEBULA_CA'') (\<lambda>ca.
     io_bind (read_env_file K vars ''NEBULA_CERT'') (\<lambda>cert.
     io_bind (read_env_file K vars ''NEBULA_KEY'') (\<lambda>key.
     io_bind (or_panic (parse_lighthouses (env_or_default vars ''NEBULA_LIGHTHOUSES''))) (\<lambda>lhs.
     io_bind (or_panic (parse_hosts (env_or_default vars ''NEBULA_STATIC_HOSTS''))) (\<lambda>hosts.
     io_lift (Inr \<lparr>ca_cert_pem = ca, host_cert_pem = cert, host_key_pem = key, cfg_cipher = node_cipher vars,
       bind_addr = SockV4 0 0, cfg_lighthouses = lhs, static_hosts = hosts\<rparr>))))))"

definition io_other :: "(io_error \<Rightarrow> string) \<Rightarrow> error \<Rightarrow> io_error" where
  "io_other io_text e = IoOther (error_text io_text e)"

text \<open>The text parser of the ipnet crate is a parameter, \<open>net_from_str\<close>. Up to the point where \<open>from_socket\<close> has spawned the receive loop: the tun descriptor and its
  address, the configuration, the socket and the state of the session.\<close>

definition node_setup ::
  "kernel \<Rightarrow> 'hs externs \<Rightarrow> 'net tun_net_ops \<Rightarrow> (string \<Rightarrow> 'net option) \<Rightarrow> (io_error \<Rightarrow> string) \<Rightarrow> environment
     \<Rightarrow> (stop, fd \<times> 'net \<times> session_config \<times> fd \<times> ('hs inner \<times> socketaddr)) prog" where
  "node_setup K X N net_from_str io_text vars =
     io_bind (or_panic (env vars ''NEBULA_TUN_ADDR'')) (\<lambda>cidr.
     io_bind (or_panic (expect ''valid tun cidr'' (net_from_str cidr))) (\<lambda>tun_addr.
     io_bind (node_tun K N vars tun_addr) (\<lambda>tun. closing_on_error tun (
       io_bind (node_socket K vars) (\<lambda>udp.
       io_bind (closing_on_error udp (node_session_config K vars)) (\<lambda>cfg.
       io_bind (io_err (\<lambda>e. Failed (io_other io_text e)) (from_socket_setup K X cfg udp)) (\<lambda>session.
       io_lift (Inr (tun, tun_addr, cfg, udp, session)))))))))"

definition node_options :: firewall_options where
  "node_options = \<lparr>tcp_timeout = 120 * 10 ^ 9, udp_timeout = 60 * 10 ^ 9, default_timeout = 60 * 10 ^ 9,
     in_send_reject = False, out_send_reject = False, default_local_cidr_any = True\<rparr>"

definition node_listener_config :: "'net ruleset \<Rightarrow> environment \<Rightarrow> 'net \<Rightarrow> 'net listener_config" where
  "node_listener_config rules vars tun_addr = \<lparr>firewall_rules = rules, firewall_opts = node_options,
     assigned_networks = [tun_addr], unsafe_networks = [],
     cfg_ca_name = env_or_default vars ''NEBULA_CA_NAME'', cfg_ca_sha = []\<rparr>"

definition node_listen ::
  "kernel \<Rightarrow> 'net ipnet_ops \<Rightarrow> environment \<Rightarrow> 'net \<Rightarrow> 'hs inner \<Rightarrow> fd \<Rightarrow> (stop, ('net, 'hs) shared) prog" where
  "node_listen K N vars tun_addr session tun =
     io_bind (closing_on_error tun (or_panic (allow_any [tun_addr]))) (\<lambda>rules.
     io_bind (listener_new K N (node_listener_config rules vars tun_addr) session tun) (\<lambda>shared.
     closing_on_error tun (
       io_bind (or_panic (env vars ''NEBULA_TUN_NAME'')) (\<lambda>_.
       io_lift (Inr shared)))))"

text \<open>\<open>main\<close> up to \<open>Listener::run\<close>: it stops, or the listener is about to run, with the log of its
  system calls and what the session did.\<close>

inductive node_main ::
  "kernel \<Rightarrow> 'hs externs \<Rightarrow> 'net tun_net_ops \<Rightarrow> (string \<Rightarrow> 'net option) \<Rightarrow> (io_error \<Rightarrow> string) \<Rightarrow> environment
     \<Rightarrow> event list \<Rightarrow> effect list \<Rightarrow> stop + ('net, 'hs) listener \<Rightarrow> bool"
  for K :: kernel and X :: "'hs externs" and N :: "'net tun_net_ops" and net_from_str io_text vars where
  setup_stops: "node_setup K X N net_from_str io_text vars [] = (Inl e, log) \<Longrightarrow>
    node_main K X N net_from_str io_text vars log [] (Inl e)"
| session_fails: "node_setup K X N net_from_str io_text vars [] = (Inr (tun, tun_addr, cfg, udp, setup), log) \<Longrightarrow>
    opened_run X cfg setup out (Inl e) \<Longrightarrow>
    node_main K X N net_from_str io_text vars (log @ [Closed tun]) out (Inl (Failed (io_other io_text e)))"
| listen_stops: "node_setup K X N net_from_str io_text vars [] = (Inr (tun, tun_addr, cfg, udp, setup), log) \<Longrightarrow>
    opened_run X cfg setup out (Inr ses) \<Longrightarrow>
    node_listen K (ipnet_ops.truncate N) vars tun_addr (ses_inner ses) tun log = (Inl e, log') \<Longrightarrow>
    node_main K X N net_from_str io_text vars log' out (Inl e)"
| listens: "node_setup K X N net_from_str io_text vars [] = (Inr (tun, tun_addr, cfg, udp, setup), log) \<Longrightarrow>
    opened_run X cfg setup out (Inr ses) \<Longrightarrow>
    node_listen K (ipnet_ops.truncate N) vars tun_addr (ses_inner ses) tun log = (Inr shared, log') \<Longrightarrow>
    node_main K X N net_from_str io_text vars log' out (Inr \<lparr>ls_shared = shared, ls_inbox = ses_inbox ses,
      ls_down = DownIdle, ls_up = UpIdle, ls_time = 0\<rparr>)"

section \<open>The rules of the node\<close>

lemma any_rule_denotes: "rule_denotes N dflt (any_rule incoming) (p, d, remote) \<longleftrightarrow> d = incoming"
  by (auto simp: rule_denotes_def any_rule_def rule_accepted_def proto_covers_def ca_denotes_def peer_denotes_def is_any_def)

lemma add_any_rule_ok:
  obtains b' where "add_any_rule incoming b = Inr b'"
    and "\<And>N p d remote. ruleset_matches N (build b') p d remote \<longleftrightarrow> ruleset_matches N (build b) p d remote \<or> d = incoming"
proof -
  have "rule_accepted (any_rule incoming :: 'a rule)" by (simp add: rule_accepted_def any_rule_def)
  then obtain b' where "add_rule (any_rule incoming) b = Inr b'" using add_rule_accepted_iff by blast
  with that show thesis by (simp add: add_any_rule_def add_rule_matches any_rule_denotes)
qed

lemma node_timeout: "timeout_for (firewall_opts (node_listener_config rules vars tun_addr)) proto \<le> 120 * 10 ^ 9"
  by (cases proto) (simp_all add: node_listener_config_def node_options_def)

lemma allow_any_ok:
  obtains rules where "allow_any nets = Inr rules" and "\<And>N p d remote. ruleset_matches N rules p d remote"
proof -
  obtain b1 where b1: "add_any_rule True (builder_new nets False True) = Inr b1"
    "\<And>N p d remote. ruleset_matches N (build b1) p d remote \<longleftrightarrow>
       ruleset_matches N (build (builder_new nets False True)) p d remote \<or> d"
    by (rule add_any_rule_ok [of True "builder_new nets False True"]) auto
  obtain b2 where b2: "add_any_rule False b1 = Inr b2"
    "\<And>N p d remote. ruleset_matches N (build b2) p d remote \<longleftrightarrow> ruleset_matches N (build b1) p d remote \<or> \<not> d"
    by (rule add_any_rule_ok [of False b1]) auto
  from b1 b2 that [of "build b2"] show thesis by (simp add: allow_any_def)
qed

section \<open>Descriptors of the node\<close>

lemma balanced_or_panic: "balanced (or_panic r)"
  unfolding or_panic_def by (rule balanced_lift)

lemma balanced_session_config: "balanced (node_session_config K vars)"
  unfolding node_session_config_def read_env_file_def
  by (intro balanced_bind balanced_or_panic balanced_lift owes_err balanced_calls refl)

lemma owes_node_opens: "owes {#} result_fd (node_tun K N vars tun_addr)" "owes {#} result_fd (node_socket K vars)"
  unfolding node_tun_def node_socket_def
  by (intro balanced_bind balanced_or_panic result_fd_err create_owes owes_opens result_fd_simps)+

lemma guards_listener_new: "guards tun (listener_new K N cfg session tun)"
  unfolding listener_new_def
  by (intro guards_closing balanced_bind balanced_lift owes_err balanced_set_nonblocking balanced_calls refl)

lemma guards_node_listen: "guards tun (node_listen K N vars tun_addr session tun)"
  unfolding node_listen_def
  by (intro guards_bind guards_closing balanced_bind guards_listener_new balanced_or_panic balanced_lift refl)

text \<open>What \<open>node_setup\<close> leaves open: the tun and the socket.\<close>

fun setup_fds :: "stop + fd \<times> 'net \<times> session_config \<times> fd \<times> ('hs inner \<times> socketaddr) \<Rightarrow> fd multiset" where
  "setup_fds (Inl e) = {#}"
| "setup_fds (Inr (tun, tun_addr, cfg, udp, session)) = {#tun, udp#}"

lemma owes_node_setup:
  fixes N :: "'net tun_net_ops"
  shows "owes {#} setup_fds (node_setup K X N net_from_str io_text vars)"
proof -
  have session: "owes {#udp#} (case_sum (\<lambda>_. {#}) (\<lambda>_. {#udp#}))
      (io_bind (closing_on_error udp (node_session_config K vars)) (\<lambda>cfg.
       io_bind (io_err (\<lambda>e. Failed (io_other io_text e)) (from_socket_setup K X cfg udp)) (\<lambda>session.
       io_lift (Inr (tun, tun_addr, cfg, udp, session)))))" for tun udp and tun_addr :: 'net
    by (intro guards_bind guards_closing balanced_session_config owes_err_case_sum from_socket_guards owes_lift) simp
  let ?D = "case_sum (\<lambda>_. {#}) (\<lambda>(_, _, _, udp, _). {#udp#})"
  have "owes {#} ?D (io_bind (node_socket K vars) (\<lambda>udp.
      io_bind (closing_on_error udp (node_session_config K vars)) (\<lambda>cfg.
      io_bind (io_err (\<lambda>e. Failed (io_other io_text e)) (from_socket_setup K X cfg udp)) (\<lambda>session.
      io_lift (Inr (tun, tun_addr, cfg, udp, session))))))" for tun and tun_addr :: 'net
  proof (rule owes_bind [OF owes_node_opens(2)])
    fix udp
    show "owes (result_fd (Inr udp)) ?D (io_bind (closing_on_error udp (node_session_config K vars)) (\<lambda>cfg.
       io_bind (io_err (\<lambda>e. Failed (io_other io_text e)) (from_socket_setup K X cfg udp)) (\<lambda>session.
       io_lift (Inr (tun, tun_addr, cfg, udp, session)))))"
      unfolding result_fd_simps
      by (rule owes_cong [OF session]) (auto simp: io_Inr split: sum.split)
  qed simp
  note body = owes_closing_on_error [OF this]
  have "owes {#tun#} setup_fds (closing_on_error tun (io_bind (node_socket K vars) (\<lambda>udp.
      io_bind (closing_on_error udp (node_session_config K vars)) (\<lambda>cfg.
      io_bind (io_err (\<lambda>e. Failed (io_other io_text e)) (from_socket_setup K X cfg udp)) (\<lambda>session.
      io_lift (Inr (tun, tun_addr, cfg, udp, session)))))))" for tun and tun_addr :: 'net
    by (rule owes_cong [OF body [unfolded add_0]]) (auto simp: io_Inr closing_on_error_Inr split: sum.split)
  then show ?thesis
    unfolding node_setup_def
    by (intro balanced_bind balanced_or_panic owes_bind [OF owes_node_opens(1)]) simp_all
qed

section \<open>The running node\<close>

lemma or_panic_Inr: "or_panic r log = (Inr x, log') \<longleftrightarrow> r = Inr x \<and> log' = log"
  by (auto simp: or_panic_def io_lift_Inr)

lemma expect_Inr: "expect message x = Inr v \<longleftrightarrow> x = Some v"
  by (auto simp: expect_def split: option.splits)

text \<open>A node that listens is a listener with the rules of \<open>allow_any\<close> and the configured tun
  address, on a session whose CA is the configured one.\<close>

lemma node_main_listens:
  assumes "node_main K X N net_from_str io_text vars log out (Inr l)"
  obtains cidr tun_addr rules ca where "vars ''NEBULA_TUN_ADDR'' = Some cidr" and "net_from_str cidr = Some tun_addr"
    and "allow_any [tun_addr] = Inr rules"
    and "listener_run (ipnet_ops.truncate N) X (node_listener_config rules vars tun_addr) ca [Net out] l"
  using assms
proof cases
  case (listens tun tun_addr cfg udp st log0 ses shared)
  from listens(2) obtain cidr where "vars ''NEBULA_TUN_ADDR'' = Some cidr" "net_from_str cidr = Some tun_addr"
    by (auto simp: node_setup_def io_Inr or_panic_Inr env_def expect_Inr)
  moreover obtain rules log1 log2 where rules: "allow_any [tun_addr] = Inr rules"
    and new: "listener_new K (ipnet_ops.truncate N) (node_listener_config rules vars tun_addr) (ses_inner ses) tun log1 = (Inr shared, log2)"
    using listens(4) by (auto simp: node_listen_def io_Inr or_panic_Inr)
  moreover obtain s0 where "session_init s0" and run: "session_run X s0 out (ses_inner ses)" and "ses_inbox ses = inbox_of out"
    by (rule opened_runE [OF listens(3)])
  with new have "listener_init (ipnet_ops.truncate N) X (node_listener_config rules vars tun_addr) (ca_cert s0) out l"
    unfolding listener_init_def listens(1) by (simp, blast)
  ultimately show thesis using that run_start by blast
qed

text \<open>Steps from the first state continue the run.\<close>

lemma run_steps:
  assumes "(\<lambda>l l'. \<exists>ev. listener_step N X l ev l')\<^sup>*\<^sup>* l0 l" and "listener_run N X cfg ca trace0 l0"
  obtains trace where "listener_run N X cfg ca trace l"
proof -
  from assms have "\<exists>trace. listener_run N X cfg ca trace l"
    by (induction rule: rtranclp_induct) (auto intro: run_continue)
  with that show thesis by blast
qed

lemma truncate_sel:
  "net_new (ipnet_ops.truncate N) = net_new N" "net_addr (ipnet_ops.truncate N) = net_addr N"
  "net_contains (ipnet_ops.truncate N) = net_contains N"
  by (simp_all add: ipnet_ops.truncate_def)

lemma tun_cidr_truncate: "ipnet_ops.truncate tun_cidr_ops = cidr_ops"
  by (simp add: tun_cidr_ops_def ipnet_ops.defs)

section \<open>Texts of host lists\<close>

text \<open>A blank entry, or an address and a socket address with blanks around them.\<close>

fun entry_text :: "nat \<Rightarrow> nat \<Rightarrow> (ipaddr \<times> socketaddr) option \<Rightarrow> string" where
  "entry_text i j None = replicate i (CHR '' '')"
| "entry_text i j (Some (ip, sock)) = replicate i (CHR '' '') @ ipaddr_text ip @ replicate j (CHR '' '') @ ''='' @
     replicate j (CHR '' '') @ socketaddr_text sock @ replicate i (CHR '' '')"

lemma entry_text_char: "c \<in> set (entry_text i j e) \<Longrightarrow> address_char c \<or> c = CHR '' '' \<or> c = CHR ''=''"
  by (cases "(i, j, e)" rule: entry_text.cases) (auto dest: ipaddr_text_address socketaddr_text_address)

lemma trim_blank: "trim (replicate i (CHR '' '')) = []"
  using trim_blanks [of "[]" i 0] by (simp add: graphic_def)

lemma trim_address:
  assumes "\<And>c. c \<in> set s \<Longrightarrow> address_char c"
  shows "trim (replicate i (CHR '' '') @ s @ replicate j (CHR '' '')) = s"
  by (rule trim_blanks [OF address_char_graphic [OF assms]])

lemma trim_entry: "trim (entry_text i j (Some (ip, sock))) \<noteq> []"
proof -
  have "CHR ''='' \<in> set (trim (entry_text i j (Some (ip, sock))))"
    by (rule trim_keeps) (simp_all add: graphic_def)
  then show ?thesis by auto
qed

lemma parse_entry_text:
  assumes "no_flow_label sock"
  shows "parse_entry (entry_text i j (Some (ip, sock))) = Inr (ip, sock)"
proof -
  let ?b = "\<lambda>n. replicate n (CHR '' '')"
  have "CHR ''='' \<notin> set (?b i @ ipaddr_text ip @ ?b j)"
    using ipaddr_text_address [of _ ip] address_char_other(2) by auto
  from split_once_append [OF this, of "?b j @ socketaddr_text sock @ ?b i"]
  have "split_once (CHR ''='') (entry_text i j (Some (ip, sock))) =
      Some (?b i @ ipaddr_text ip @ ?b j, ?b j @ socketaddr_text sock @ ?b i)" by simp
  then show ?thesis
    using trim_address [of "ipaddr_text ip" i j] trim_address [of "socketaddr_text sock" j i]
      ipaddr_from_text [of ip] socketaddr_from_text [OF assms] ipaddr_text_address [of _ ip] socketaddr_text_address [of _ sock]
    by (simp add: parse_entry_def expect_def)
qed

lemma collect_entries:
  assumes "\<forall>(i, j, e) \<in> set es. \<forall>ip sock. e = Some (ip, sock) \<longrightarrow> no_flow_label sock"
  shows "collect parse_entry (filter (\<lambda>s. trim s \<noteq> []) (map (\<lambda>(i, j, e). entry_text i j e) es)) =
    Inr (List.map_filter (\<lambda>(i, j, e). e) es)"
  using assms
proof (induction es)
  case (Cons x es)
  obtain i j e where x: "x = (i, j, e)" by (cases x)
  show ?case
  proof (cases e)
    case None
    with Cons x show ?thesis by (simp add: trim_blank map_filter_simps)
  next
    case (Some y)
    obtain ip sock where y: "y = (ip, sock)" by (cases y)
    from Cons.prems x Some y have "no_flow_label sock" by auto
    with Cons x Some y show ?thesis
      using trim_entry parse_entry_text by (simp add: map_filter_simps del: entry_text.simps)
  qed
qed (simp add: map_filter_simps)

section \<open>A node of the small mesh\<close>

text \<open>Node 1 as the example program starts it: the lighthouse is node 2.\<close>

definition cidr_from_str :: "string \<Rightarrow> (ipaddr \<times> u8) option" where
  "cidr_from_str s = (case split_once (CHR ''/'') s of
     None \<Rightarrow> None
   | Some (addr, len) \<Rightarrow> (case (ipaddr_from_str addr, parse_with (read_number 10 (Some 3) True 256) len) of
       (Some a, Some n) \<Rightarrow> net_new cidr_ops a (of_int n)
     | _ \<Rightarrow> None))"

definition world_vars :: environment where
  "world_vars = [''NEBULA_TUN_ADDR'' \<mapsto> ''0.0.0.1/16'', ''NEBULA_TUN_NAME'' \<mapsto> ''nb0'', ''NEBULA_BIND'' \<mapsto> ''0.0.0.0:4242'',
     ''NEBULA_CA'' \<mapsto> ''ca'', ''NEBULA_CERT'' \<mapsto> ''cert'', ''NEBULA_KEY'' \<mapsto> ''key'',
     ''NEBULA_LIGHTHOUSES'' \<mapsto> ''0.0.0.2'', ''NEBULA_STATIC_HOSTS'' \<mapsto> ''0.0.0.2 = 0.0.0.22:22'']"

definition world_kernel :: kernel where
  "world_kernel = granting\<lparr>sys_read_file := (\<lambda>log path. Inr (
     if path = ''ca'' then certificate_encode world_ca
     else if path = ''cert'' then certificate_encode (world_cert 1 world_key) else world_key))\<rparr>"

lemma world_vars_sel:
  "world_vars ''NEBULA_TUN_ADDR'' = Some ''0.0.0.1/16''" "world_vars ''NEBULA_TUN_NAME'' = Some ''nb0''"
  "world_vars ''NEBULA_BIND'' = Some ''0.0.0.0:4242''" "world_vars ''NEBULA_CA'' = Some ''ca''"
  "world_vars ''NEBULA_CERT'' = Some ''cert''" "world_vars ''NEBULA_KEY'' = Some ''key''"
  "world_vars ''NEBULA_LIGHTHOUSES'' = Some ''0.0.0.2''"
  "world_vars ''NEBULA_STATIC_HOSTS'' = Some ''0.0.0.2 = 0.0.0.22:22''"
  "world_vars ''NEBULA_CIPHER'' = None" "world_vars ''NEBULA_CA_NAME'' = None"
  by (simp_all add: world_vars_def)

lemma world_texts:
  "cidr_from_str ''0.0.0.1/16'' = Some (V4 1, 16)" "socketaddr_from_str ''0.0.0.0:4242'' = Some (SockV4 0 4242)"
  "parse_lighthouses ''0.0.0.2'' = Inr [V4 2]" "parse_hosts ''0.0.0.2 = 0.0.0.22:22'' = Inr [(V4 2, SockV4 22 22)]"
  by code_simp+

lemma world_reads:
  "read_env_file world_kernel world_vars ''NEBULA_CA'' log = (Inr (certificate_encode world_ca), log @ [FileRead ''ca'' True])"
  "read_env_file world_kernel world_vars ''NEBULA_CERT'' log =
     (Inr (certificate_encode (world_cert 1 world_key)), log @ [FileRead ''cert'' True])"
  "read_env_file world_kernel world_vars ''NEBULA_KEY'' log = (Inr world_key, log @ [FileRead ''key'' True])"
  by (simp_all add: read_env_file_def or_panic_def env_def expect_def world_vars_sel world_kernel_def granting_def
      io_bind_def io_lift_def io_err_def syscall_defs syscall_def)

lemma world_tun: obtains log where "node_tun world_kernel tun_cidr_ops world_vars (V4 1, 16) [] = (Inr 3, log)"
  by (simp add: node_tun_def or_panic_def env_def expect_def world_vars_sel world_kernel_def
      create_def io_bind_def syscall_defs syscall_def closing_on_error_def named_ioctl_def io_lift_def io_err_def
      write_name_def closing_def assign_v4_def bring_up_def granting_def tun_cidr_ops_def
      ipnet_ops.defs cidr_ops_def Let_def)

lemma world_node_config:
  obtains log' where "node_session_config world_kernel world_vars log = (Inr world_config, log')"
  by (simp add: node_session_config_def world_reads io_bind_def or_panic_def io_lift_def env_or_default_def
      world_vars_sel world_texts world_config_def node_cipher_def)

lemma world_node_setup:
  obtains log where "node_setup world_kernel world tun_cidr_ops cidr_from_str io_text world_vars [] =
    (Inr (3, (V4 1, 16), world_config, 5, (world_client, SockV4 0 4242)), log)"
proof -
  obtain log1 where tun: "node_tun world_kernel tun_cidr_ops world_vars (V4 1, 16) [] = (Inr 3, log1)" by (rule world_tun)
  have sock: "node_socket world_kernel world_vars log1 = (Inr 5, log1 @ [UdpBound (SockV4 0 4242) 5])"
    by (simp add: node_socket_def or_panic_def env_def expect_def world_vars_sel world_texts world_kernel_def
        granting_def io_bind_def io_lift_def io_err_def syscall_defs syscall_def)
  obtain log2 where cfg: "node_session_config world_kernel world_vars (log1 @ [UdpBound (SockV4 0 4242) 5]) = (Inr world_config, log2)"
    by (rule world_node_config)
  have "\<exists>log3. from_socket_setup world_kernel world world_config 5 log2 = (Inr (world_client, SockV4 0 4242), log3)"
    by (simp add: from_socket_setup_def build_setup_def world_build world_kernel_def granting_def closing_on_error_def
        io_bind_def io_lift_def io_err_def syscall_defs syscall_def)
  with tun sock cfg that show thesis
    by (auto simp: node_setup_def or_panic_def env_def expect_def world_vars_sel world_texts io_bind_def io_lift_def
        io_err_def closing_on_error_def)
qed

lemma world_node_listen:
  obtains shared log' where "node_listen world_kernel cidr_ops world_vars (V4 1, 16) s 3 log = (Inr shared, log')"
    and "sh_session shared = s"
proof -
  obtain rules :: "(ipaddr \<times> u8) ruleset" where "allow_any [(V4 1, 16)] = Inr rules" by (rule allow_any_ok)
  with that show thesis
    by (simp add: node_listen_def listener_new_def io_bind_def io_lift_def io_err_def or_panic_def env_def expect_def
        syscall_defs syscall_def closing_on_error_def set_nonblocking_def world_kernel_def granting_def world_vars_sel
        node_listener_config_def firewall_new_def)
qed

lemma world_node_main:
  obtains log out l where "node_main world_kernel world tun_cidr_ops cidr_from_str io_text world_vars log out (Inr l)"
    and "peer_info_of (sh_session (ls_shared l)) (V4 2) = Some (cert_info (world_cert 2 [2]))" and "ls_time l \<le> 5"
proof -
  obtain log where st: "node_setup world_kernel world tun_cidr_ops cidr_from_str io_text world_vars [] =
    (Inr (3, (V4 1, 16), world_config, 5, (world_client, SockV4 0 4242)), log)" by (rule world_node_setup)
  obtain out s where run: "build_run world world_config (SockV4 0 4242) out (Inr s)"
    and info: "peer_info_of s (V4 2) = Some (cert_info (world_cert 2 [2]))" by (rule world_registers)
  let ?ses = "\<lparr>ses_inner = s, ses_inbox = inbox_of out, ses_local_addr = SockV4 0 4242\<rparr>"
  from run have "opened_run world world_config (world_client, SockV4 0 4242) out (Inr ?ses)"
    unfolding opened_run_def by force
  moreover obtain shared log' where "node_listen world_kernel cidr_ops world_vars (V4 1, 16) s 3 log = (Inr shared, log')"
    and s: "sh_session shared = s" by (rule world_node_listen)
  ultimately show thesis
    using listens [OF st, of out ?ses] info that by (simp add: tun_cidr_truncate)
qed

section \<open>Properties\<close>

text \<open>C18: A list of static hosts is read as it is written: for any sequence of entries, each an
  address and a socket address in the form Rust prints them (IPv4 or IPv6, with a scope or without),
  with any number of blanks around both and with blank entries in between, \<open>parse_hosts\<close> gives
  exactly these pairs in order.\<close>

theorem parse_hosts_round_trip:
  assumes "\<forall>(i, j, e) \<in> set es. \<forall>ip sock. e = Some (ip, sock) \<longrightarrow> no_flow_label sock"
  shows "parse_hosts (join (CHR '','') (map (\<lambda>(i, j, e). entry_text i j e) es)) = Inr (List.map_filter (\<lambda>(i, j, e). e) es)"
proof (cases "es = []")
  case True
  then show ?thesis using trim_blank [of 0] by (simp add: parse_hosts_def join_def map_filter_simps)
next
  case False
  have "CHR '','' \<notin> set (entry_text i j e)" for i j e
    using entry_text_char [of _ i j e] address_char_other(1) by auto
  then have "split_char (CHR '','') (join (CHR '','') (map (\<lambda>(i, j, e). entry_text i j e) es)) =
      map (\<lambda>(i, j, e). entry_text i j e) es"
    using False by (intro split_char_join) auto
  then show ?thesis by (simp add: parse_hosts_def collect_entries [OF assms])
qed

theorem parse_hosts_round_trip_witness:
  "parse_hosts (join (CHR '','') [entry_text 0 1 (Some (V4 0x0A090902, SockV4 0xC0A80102 4242)), entry_text 2 0 None,
     entry_text 1 0 (Some (V6 0xFD000000000000000000000000000001, SockV6 1 4242 0 3))]) =
   Inr [(V4 0x0A090902, SockV4 0xC0A80102 4242), (V6 0xFD000000000000000000000000000001, SockV6 1 4242 0 3)]"
  using parse_hosts_round_trip [of "[(0, 1, Some (V4 0x0A090902, SockV4 0xC0A80102 4242)), (2, 0, None),
     (1, 0, Some (V6 0xFD000000000000000000000000000001, SockV6 1 4242 0 3))]"]
  by (simp add: map_filter_simps del: entry_text.simps)

text \<open>C16: A running node passes everything between its own address and the addresses its peers own:
  while it runs, whatever the interleaving, the firewall accepts every packet, in either direction,
  whose local end is the configured tun address and whose remote end is covered by the certificate of
  the tunnel it came through, provided that certificate lists no unsafe network whose prefix is longer
  than its address (on which the node panics) and the clock is not within two minutes of the last
  \<open>Instant\<close>; handled without interruption, such a packet from the mesh comes to be written to the
  tun.\<close>

theorem node_admits_owned:
  assumes "ipnet_laws (ipnet_ops.truncate N)"
    and "node_main K X N net_from_str io_text vars log out (Inr l0)"
    and "(\<lambda>l l'. \<exists>ev. listener_step (ipnet_ops.truncate N) X l ev l')\<^sup>*\<^sup>* l0 l"
    and "vars ''NEBULA_TUN_ADDR'' = Some cidr" and "net_from_str cidr = Some tun_addr"
    and "peer_info_of (sh_session (ls_shared l)) src = Some info" and "cert_owns info (remote_addr p)"
    and "local_addr p = net_addr N tun_addr"
    and "\<forall>n \<in> set (info_unsafe_networks info). nw_prefix_len n \<le> max_prefix_len (nw_addr n)"
    and "ls_time l \<le> now" and "now + 120 * 10 ^ 9 < INSTANT_BOUND"
  shows "(\<exists>sh'. firewall_verdict (ipnet_ops.truncate N) (ls_shared l) p incoming info now = Some (sh', True)) \<and>
    (parse raw True = Some (Some p) \<longrightarrow> (\<exists>sh'. (down_next (ipnet_ops.truncate N) now ^^ 4)
       (ls_shared l, down_received src raw) = (sh', DownWriting src raw)))"
proof -
  let ?N = "ipnet_ops.truncate N"
  obtain cidr' tun' rules ca where addr: "vars ''NEBULA_TUN_ADDR'' = Some cidr'" "net_from_str cidr' = Some tun'"
    and "allow_any [tun'] = Inr rules" and "listener_run ?N X (node_listener_config rules vars tun') ca [Net out] l0"
    by (rule node_main_listens [OF assms(2)])
  with assms(4,5) have allow: "allow_any [tun_addr] = Inr rules"
    and start: "listener_run ?N X (node_listener_config rules vars tun_addr) ca [Net out] l0" by simp_all
  obtain trace where run: "listener_run ?N X (node_listener_config rules vars tun_addr) ca trace l"
    by (rule run_steps [OF assms(3) start])
  obtain routable where
    r: "\<forall>a. (\<exists>n \<in> set routable. net_contains ?N n a) \<longleftrightarrow> routes ?N (node_listener_config rules vars tun_addr) a"
    and inv: "listener_inv ?N X ca (node_listener_config rules vars tun_addr) routable (ls_shared l)"
    and poison: "sh_poisoned (ls_shared l) \<longrightarrow> overdue (node_listener_config rules vars tun_addr) trace"
    by (rule listener_okE [OF listener_run_ok [OF run] assms(1)])
  have timely: "\<not> record_panics t (timeout_for (firewall_opts (node_listener_config rules vars tun_addr)) proto)"
    if "t \<le> now" for t proto
    using node_timeout [of rules vars tun_addr proto] that assms(11) by (simp add: record_panics_def)
  have "\<not> sh_poisoned (ls_shared l)"
    using poison run_ticks [OF run] timely assms(10) unfolding overdue_def by (meson order_trans)
  have opts: "vr_rules (fw_rules (sh_firewall (ls_shared l))) = rules" "fw_routable (sh_firewall (ls_shared l)) = routable"
    "fw_options (sh_firewall (ls_shared l)) = firewall_opts (node_listener_config rules vars tun_addr)"
    using inv by (simp_all add: listener_inv_def node_listener_config_def)
  have match: "ruleset_matches ?N rules p d remote" for d remote
    by (rule allow_any_ok [of "[tun_addr]"]) (use allow in auto)
  have "peer_identity_of ?N info (sh_ca_name (ls_shared l)) (sh_ca_sha (ls_shared l)) \<noteq> None"
    using assms(9) by (simp only: peer_identity_None [OF assms(1)]) (auto simp: not_less)
  then obtain peer where peer: "peer_identity_of ?N info (sh_ca_name (ls_shared l)) (sh_ca_sha (ls_shared l)) = Some peer" by blast
  have "\<exists>n \<in> set routable. net_contains ?N n (local_addr p)"
    using r assms(8) by (simp add: routes_def node_listener_config_def truncate_sel)
  moreover have "owns ?N peer (remote_addr p)" using peer_identity_owns [OF assms(1) peer] assms(7) by simp
  ultimately have "check_packet ?N routable rules p d peer = Inr ()" for d
    using match by (simp add: check_packet_ok)
  then have "snd (evaluate ?N p d peer now (sh_firewall (ls_shared l))) = Inr ()" for d
    by (simp add: evaluate_result opts)
  then have verdict: "\<exists>sh'. firewall_verdict ?N (ls_shared l) p d info now = Some (sh', True)" for d
    using timely \<open>\<not> sh_poisoned (ls_shared l)\<close> by (simp add: firewall_verdict_Some peer evaluate_panics_def opts(3))
  from verdict [of True] obtain sh' where "firewall_verdict ?N (ls_shared l) p True info now = Some (sh', True)" ..
  from down_turn(1) [OF assms(6) this] verdict show ?thesis by (auto simp: down_received_def)
qed

theorem node_admits_owned_witness:
  "\<exists>log out l sh'. node_main world_kernel world tun_cidr_ops cidr_from_str (\<lambda>_. []) world_vars log out (Inr l) \<and>
     (down_next cidr_ops 5 ^^ 4) (ls_shared l, down_received (V4 2) (world_packet 2 1)) = (sh', DownWriting (V4 2) (world_packet 2 1))"
proof -
  obtain log out l where main: "node_main world_kernel world tun_cidr_ops cidr_from_str (\<lambda>_. []) world_vars log out (Inr l)"
    and info: "peer_info_of (sh_session (ls_shared l)) (V4 2) = Some (cert_info (world_cert 2 [2]))"
    and time: "ls_time l \<le> 5" by (rule world_node_main)
  have own: "cert_owns (cert_info (world_cert 2 [2])) (remote_addr (world_flow 2 1 True))"
    "\<forall>n \<in> set (info_unsafe_networks (cert_info (world_cert 2 [2]))). nw_prefix_len n \<le> max_prefix_len (nw_addr n)"
    by (simp_all add: cert_owns_def cert_info_def world_cert_def world_details_def world_ends del: One_nat_def)
  have local: "local_addr (world_flow 2 1 True) = net_addr tun_cidr_ops (V4 1, 16)"
    by (simp add: world_ends tun_cidr_ops_def ipnet_ops.defs cidr_ops_def)
  have bound: "(5 :: nat) + 120 * 10 ^ 9 < INSTANT_BOUND" by (simp add: INSTANT_BOUND_def)
  note admits = node_admits_owned [OF _ main rtranclp.rtrancl_refl world_vars_sel(1) world_texts(1) info own(1) local own(2)
    time bound, where raw = "world_packet 2 1", unfolded tun_cidr_truncate, OF cidr_ops_laws]
  then show ?thesis using world_parse main by blast
qed

text \<open>C17: Every descriptor the node has opened is closed again when it stops early, with one exception:
  once the receive loop runs, the UDP socket stays open, also when the session could not be
  registered or the listener could not be made. A node that listens holds the tun and the
  socket.\<close>

theorem node_descriptors:
  assumes "node_main K X N net_from_str io_text vars log out res"
  shows "mset (opened log) = mset (closed log) +
    (case fst (node_setup K X N net_from_str io_text vars []) of
       Inl _ \<Rightarrow> {#}
     | Inr (tun, _, _, udp, _) \<Rightarrow> (case res of Inl _ \<Rightarrow> {#udp#} | Inr _ \<Rightarrow> {#tun, udp#}))"
proof -
  obtain r log0 where set: "node_setup K X N net_from_str io_text vars [] = (r, log0)"
    and fds: "mset (opened log0) = mset (closed log0) + setup_fds r"
    by (rule owesE [OF owes_node_setup [of K X N net_from_str io_text vars], of "[]"]) simp
  have listen: "mset (opened log') = mset (closed log') + (case x of Inl _ \<Rightarrow> {#udp#} | Inr _ \<Rightarrow> {#tun, udp#})"
    if r: "r = Inr (tun, tun_addr, cfg, udp, st)"
      and run: "node_listen K (ipnet_ops.truncate N) vars tun_addr s tun log0 = (x, log')" for tun tun_addr cfg udp st s x log'
  proof -
    obtain x' new where "node_listen K (ipnet_ops.truncate N) vars tun_addr s tun log0 = (x', log0 @ new)"
      and "{#tun#} + mset (opened new) = mset (closed new) + (case x' of Inl _ \<Rightarrow> {#} | Inr _ \<Rightarrow> {#tun#})"
      by (rule owesE [OF guards_node_listen])
    with fds r run show ?thesis by (cases x) auto
  qed
  from assms show ?thesis
  proof cases
    case (setup_stops e)
    with set fds show ?thesis by auto
  next
    case (session_fails tun tun_addr cfg udp st log1 e)
    with set fds show ?thesis by (cases st) auto
  next
    case (listen_stops tun tun_addr cfg udp st log1 ses e)
    with set listen [of tun tun_addr cfg udp st "ses_inner ses" "Inl e" log] show ?thesis by (cases st) auto
  next
    case (listens tun tun_addr cfg udp st log1 ses shared)
    with set listen [of tun tun_addr cfg udp st "ses_inner ses" "Inr shared" log] show ?thesis by (cases st) auto
  qed
qed

theorem node_descriptors_witness:
  "\<exists>log out l. node_main world_kernel world tun_cidr_ops cidr_from_str (\<lambda>_. []) world_vars log out (Inr l) \<and>
     mset (opened log) = mset (closed log) + {#3, 5#}"
proof -
  obtain log0 where "node_setup world_kernel world tun_cidr_ops cidr_from_str (\<lambda>_. []) world_vars [] =
    (Inr (3, (V4 1, 16), world_config, 5, (world_client, SockV4 0 4242)), log0)" by (rule world_node_setup)
  moreover obtain log out l
    where main: "node_main world_kernel world tun_cidr_ops cidr_from_str (\<lambda>_. []) world_vars log out (Inr l)"
    by (rule world_node_main)
  ultimately have "mset (opened log) = mset (closed log) + {#3, 5#}" using node_descriptors [OF main] by simp
  with main show ?thesis by blast
qed

end
