(* ===== verification/Listener_Order.thy ===== *)
theory Listener_Order
  imports Listener_Safety "HOL-Library.Sublist"
begin

text \<open>
  What a listener promises of the packets it moves, whatever the firewall decides: each of its two
  loops is a buffer that may lose packets but neither invents, duplicates, alters nor reorders them.
  The specification is \<open>lossy_step\<close>; the locale \<open>lossy_channel\<close> is its simulation by a machine
  whose events enter packets into the channel or take them out, interpreted on both loops of
  \<open>listener_step\<close>.
\<close>

section \<open>Buffers that may lose packets\<close>

text \<open>The buffer before, what enters, what leaves, the buffer after.\<close>

inductive lossy_step :: "'a list \<Rightarrow> 'a list \<Rightarrow> 'a list \<Rightarrow> 'a list \<Rightarrow> bool" where
  put: "lossy_step q xs [] (q @ xs)"
| refuse: "lossy_step q xs [] q"
| lose: "lossy_step (x # q) [] [] q"
| get: "lossy_step (x # q) [] [x] q"

inductive_cases lossy_stepE: "lossy_step q xs ys q'"

text \<open>All that entered and left the buffer so far, and what it holds.\<close>

inductive lossy_run :: "'a list \<Rightarrow> 'a list \<Rightarrow> 'a list \<Rightarrow> bool" where
  lossy_start: "lossy_run [] [] []"
| lossy_more: "lossy_run ins outs q \<Longrightarrow> lossy_step q xs ys q' \<Longrightarrow> lossy_run (ins @ xs) (outs @ ys) q'"

lemma lossy_stay: "lossy_step q [] [] q"
  using put [of q "[]"] by simp

lemma lossy_step_order: "lossy_step q xs ys q' \<Longrightarrow> subseq (ys @ q') (q @ xs)"
  by (erule lossy_stepE) auto

lemma lossy_run_order: "lossy_run ins outs q \<Longrightarrow> subseq (outs @ q) ins"
proof (induction rule: lossy_run.induct)
  case (lossy_more ins outs q xs ys q')
  have "subseq (outs @ (ys @ q')) (outs @ (q @ xs))"
    by (rule list_emb_append_mono [OF subseq_order.order_refl lossy_step_order [OF lossy_more(2)]])
  moreover have "subseq ((outs @ q) @ xs) (ins @ xs)"
    by (rule list_emb_append_mono [OF lossy_more.IH subseq_order.order_refl])
  ultimately show ?case using subseq_order.order_trans by fastforce
qed simp

locale lossy_channel =
  fixes step :: "'s \<Rightarrow> 'e \<Rightarrow> 's \<Rightarrow> bool"
    and pending :: "'s \<Rightarrow> 'a list"
    and entered :: "'e \<Rightarrow> 'a list"
    and left :: "'e \<Rightarrow> 'a list"
  assumes simulates: "step s ev s' \<Longrightarrow> lossy_step (pending s) (entered ev) (left ev) (pending s')"
begin

lemma channel_first:
  assumes "entered ev = pending s" and "left ev = []"
  shows "lossy_run (concat (map entered [ev])) (concat (map left [ev])) (pending s)"
  using lossy_more [OF lossy_start put, of "pending s"] assms by simp

lemma channel_next:
  assumes "lossy_run (concat (map entered trace)) (concat (map left trace)) (pending s)" and "step s ev s'"
  shows "lossy_run (concat (map entered (trace @ [ev]))) (concat (map left (trace @ [ev]))) (pending s')"
  using lossy_more [OF assms(1) simulates [OF assms(2)]] by simp

end

section \<open>The loops as buffers\<close>

text \<open>The packet a loop is working on.\<close>

fun down_flight :: "'net down_phase \<Rightarrow> bytes list" where
  "down_flight (DownParsed src raw p) = [raw]"
| "down_flight (DownKnown src raw p peer) = [raw]"
| "down_flight (DownEvaluating src raw j) = [raw]"
| "down_flight (DownWriting src raw) = [raw]"
| "down_flight _ = []"

fun up_flight :: "('net, 'hs) up_phase \<Rightarrow> bytes list" where
  "up_flight UpIdle = []"
| "up_flight (UpEnded e) = []"
| "up_flight (UpParsed raw p) = [raw]"
| "up_flight (UpMissing raw p) = [raw]"
| "up_flight (UpConnecting raw p s before) = [raw]"
| "up_flight (UpReady raw p) = [raw]"
| "up_flight (UpKnown raw p peer) = [raw]"
| "up_flight (UpEvaluating raw j) = [raw]"
| "up_flight (UpSending raw p) = [raw]"

definition down_pending :: "('net, 'hs) listener \<Rightarrow> bytes list" where
  "down_pending l = down_flight (ls_down l) @ map snd (ls_inbox l)"

definition up_pending :: "('net, 'hs) listener \<Rightarrow> bytes list" where
  "up_pending l = up_flight (ls_up l)"

text \<open>What an event says of the packets from the mesh and from the tun.\<close>

fun mesh_in :: "listener_event \<Rightarrow> bytes list" where
  "mesh_in (Net out) = map snd (inbox_of out)"
| "mesh_in _ = []"

fun tun_out :: "listener_event \<Rightarrow> bytes list" where
  "tun_out (TunWrite raw res) = [raw]"
| "tun_out _ = []"

fun tun_in :: "listener_event \<Rightarrow> bytes list" where
  "tun_in (TunRead (Inr raw)) = [raw]"
| "tun_in _ = []"

fun mesh_out :: "listener_event \<Rightarrow> bytes list" where
  "mesh_out (Forwarded raw out) = [raw]"
| "mesh_out _ = []"

text \<open>A section of a loop keeps its packet or drops it.\<close>

lemma down_next_flight:
  "down_next N now (sh, ph) = (sh', ph') \<Longrightarrow> lossy_step (down_flight ph @ q) [] [] (down_flight ph' @ q)"
  by (cases ph) (auto simp: Let_def lossy_stay lose split: option.splits prod.splits sum.splits if_splits)

lemma up_next_flight:
  "up_next N now (sh, ph) = (sh', ph') \<Longrightarrow> lossy_step (up_flight ph) [] [] (up_flight ph')"
  by (cases ph) (auto simp: Let_def lossy_stay lose split: option.splits prod.splits sum.splits if_splits)

lemma received_flight:
  "lossy_step (raw # q) [] [] (down_flight (down_received src raw) @ q)"
  "lossy_step [] (tun_in (TunRead res)) [] (up_flight (up_received res))"
  using put [of "[]"] refuse [of "[]"]
  by (auto simp: down_received_def up_received_def lossy_stay lose split: option.split sum.split)

lemma up_observe_flight: "up_flight (up_observe out ph) = up_flight ph"
  by (cases ph) simp_all

interpretation mesh_channel: lossy_channel "listener_step N X" down_pending mesh_in tun_out
  for N :: "'net ipnet_ops" and X :: "'hs externs"
proof
  fix l ev and l' :: "('net, 'hs) listener"
  assume "listener_step N X l ev l'"
  then show "lossy_step (down_pending l) (mesh_in ev) (tun_out ev) (down_pending l')"
  proof cases
    case (net_step out s')
    then show ?thesis
      using put [of "down_pending l" "map snd (inbox_of out)"] by (simp add: down_pending_def)
  next
    case (receive_step src raw rest)
    then have "ls_inbox l = (src, raw) # rest" by (auto simp: session_recv_def split: list.splits if_splits)
    with receive_step received_flight(1) show ?thesis by (simp add: down_pending_def)
  next
    case (closed_step e rest)
    then show ?thesis by (auto simp: session_recv_def down_pending_def lossy_stay split: list.splits if_splits)
  next
    case (down_step now sh' phase')
    with down_next_flight show ?thesis by (simp add: down_pending_def)
  qed (simp_all add: down_pending_def lossy_stay get)
qed

interpretation tun_channel: lossy_channel "listener_step N X" up_pending tun_in mesh_out
  for N :: "'net ipnet_ops" and X :: "'hs externs"
proof
  fix l ev and l' :: "('net, 'hs) listener"
  assume "listener_step N X l ev l'"
  then show "lossy_step (up_pending l) (tun_in ev) (mesh_out ev) (up_pending l')"
  proof cases
    case (read_step attempts res rest)
    with received_flight(2) [of res] show ?thesis by (simp add: up_pending_def)
  next
    case (up_step now sh' phase')
    with up_next_flight show ?thesis by (simp add: up_pending_def)
  next
    case (connected_step raw p s before r)
    then show ?thesis by (simp add: up_pending_def lossy_stay lose split: sum.split)
  qed (simp_all add: up_pending_def up_observe_flight lossy_stay lose get)
qed

section \<open>Properties\<close>

text \<open>C7: Each loop of a running listener is a buffer that may lose packets and does nothing else to
  them. What has been written to the tun, followed by what the loop still holds and the inbox, is in
  this order a subsequence of what the session delivered; what has been handed to the session to
  send, followed by the packet in work, is a subsequence of what was read from the tun. So under
  every interleaving no packet is duplicated, altered, reordered or made up.\<close>

theorem loops_refine_buffers:
  assumes "listener_run N X cfg ca trace l"
  shows "lossy_run (concat (map mesh_in trace)) (concat (map tun_out trace)) (down_pending l) \<and>
    lossy_run (concat (map tun_in trace)) (concat (map mesh_out trace)) (up_pending l) \<and>
    subseq (concat (map tun_out trace) @ down_pending l) (concat (map mesh_in trace)) \<and>
    subseq (concat (map mesh_out trace) @ up_pending l) (concat (map tun_in trace))"
proof -
  from assms have "lossy_run (concat (map mesh_in trace)) (concat (map tun_out trace)) (down_pending l) \<and>
    lossy_run (concat (map tun_in trace)) (concat (map mesh_out trace)) (up_pending l)"
  proof (induction rule: listener_run.induct)
    case (run_start out l)
    then show ?case
      by (intro conjI mesh_channel.channel_first tun_channel.channel_first)
        (simp_all add: listener_init_def down_pending_def up_pending_def)
  next
    case (run_continue trace l ev l')
    then show ?case
      using mesh_channel.channel_next [OF _ run_continue(2)] tun_channel.channel_next [OF _ run_continue(2)] by blast
  qed
  with lossy_run_order show ?thesis by blast
qed

theorem loops_refine_buffers_witness:
  "\<exists>trace l. world_run trace l \<and> world_packet 1 2 \<in> set (concat (map tun_out trace)) \<and>
     subseq (concat (map tun_out trace)) (concat (map mesh_in trace))"
proof -
  obtain trace l l' where "world_run trace l" "listener_step cidr_ops world l (TunWrite (world_packet 1 2) (Inr 24)) l'"
    by (rule world_writes)
  then have run: "world_run (trace @ [TunWrite (world_packet 1 2) (Inr 24)]) l'" by (rule run_continue)
  from loops_refine_buffers [OF this]
  have "subseq (concat (map tun_out (trace @ [TunWrite (world_packet 1 2) (Inr 24)])) @ down_pending l')
      (concat (map mesh_in (trace @ [TunWrite (world_packet 1 2) (Inr 24)])))" by (elim conjE)
  from subseq_order.order_trans [OF subseq_rev_drop_many this]
  have "subseq (concat (map tun_out (trace @ [TunWrite (world_packet 1 2) (Inr 24)])))
      (concat (map mesh_in (trace @ [TunWrite (world_packet 1 2) (Inr 24)])))" by simp
  moreover have "world_packet 1 2 \<in> set (concat (map tun_out (trace @ [TunWrite (world_packet 1 2) (Inr 24)])))" by simp
  ultimately show ?thesis using run by blast
qed

end
