(* ===== verification/Mesh_Path.thy ===== *)
theory Mesh_Path
  imports Listener_Order
begin

text \<open>
  Two nodes and the path of a packet between them: read from the tun of one listener, through its
  firewall, sealed by its session, opened by the other session, through the other firewall, written
  to the other tun.
\<close>

section \<open>The two halves of the path\<close>

text \<open>The handshake, and what it gives both sessions: data sent by the caller is delivered.\<close>

lemma tunnel_carries:
  assumes "noise_laws (x_noise X) public" and "pb_laws (x_pb X)" and "aead_laws (x_aead X)"
    and "aead_sizes (x_aead X)" and "\<forall>ci ctr aad. \<exists>c. cipher_encrypt (x_aead X) ci ctr aad raw = Inr c"
    and "in_cipher a = in_cipher b"
    and "noise_accepts (x_noise X) (in_cipher a) (host_private_key a) (host_private_key b) n"
    and "hello_fits X a n" and "hello_fits X b n"
    and "endpoint_ok X public a va b (now_unix clk_b)" and "endpoint_ok X public b vb a (now_unix clk_a')"
    and "allocate_index a (subsec_nanos clk_a) \<noteq> None" and "allocate_index b (subsec_nanos clk_b) \<noteq> None"
  obtains a1 dropped pkt1 b1 pkt2 a2 a3 pkt b2 where
    "connect_start X clk_a a vb addr_b = Some (Inr (), a1, dropped @ [SendTo addr_b pkt1])"
    and "recv_datagram X clk_b b pkt1 addr_a = Some (b1, [SendTo addr_a pkt2])"
    and "recv_datagram X clk_a' a1 pkt2 addr_b = Some (a2, [WakeConnect (channels a)])"
    and "peer_info_of a2 vb = Some (cert_info (host_cert b))"
    and "send X a2 vb raw = Some (Inr (), a3, [SendTo addr_b pkt])"
    and "recv_datagram X clk b1 pkt addr_a = Some (b2, [Inbox va raw])"
    and "peer_info_of b2 va = Some (cert_info (host_cert a))"
proof -
  obtain a1 pkt1 b1 pkt2 where
    start: "connect_start X clk_a a vb addr_b = Some (Inr (), a1, snd (connect_begin a vb) @ [SendTo addr_b pkt1])"
    and reply: "recv_datagram X clk_b b pkt1 addr_a = Some (b1, [SendTo addr_a pkt2])"
    by (rule handshake_answered [OF assms(1,2,6-10,12,13)])
  obtain i j ka kb a2 where a2: "recv_datagram X clk_a' a1 pkt2 addr_b = Some (a2, [WakeConnect (channels a)])"
    and ia: "index_by_vpn_addr a2 vb = Some i"
    and pa: "peers_by_index a2 i = Some (Established (transport_new (in_cipher a) ka kb) addr_b vb (host_cert b) j)"
    and ib: "index_by_vpn_addr b1 va = Some j"
    and pb: "peers_by_index b1 j = Some (Established (transport_new (in_cipher a) kb ka) addr_a va (host_cert a) i)"
    by (rule tunnel_opens [OF assms(1,2,6,10,11) start reply])
  obtain a3 out where sent: "send X a2 vb raw = Some (Inr (), a3, out)"
    by (rule send_succeeds [OF assms(4,5) ia pa])
  from data_delivered [OF assms(3) ia pa pb _ fresh_transport(4) _ _ sent assms(4), of clk addr_a]
  obtain pkt b2 where out: "out = [SendTo addr_b pkt]" and got: "recv_datagram X clk b1 pkt addr_a = Some (b2, [Inbox va raw])"
    by (auto simp: fresh_transport)
  have "peer_info_of b2 va = peer_info_of b1 va"
    by (rule inbox_origin [OF got, of va raw]) (simp_all add: decrypt_from_info)
  then have "peer_info_of b2 va = Some (cert_info (host_cert a))" and "peer_info_of a2 vb = Some (cert_info (host_cert b))"
    by (simp_all add: peer_info_of_def ia pa ib pb)
  with start reply a2 sent [unfolded out] got show thesis by (intro that)
qed

text \<open>A datagram that delivers an admitted packet ends in a write to the tun.\<close>

lemma delivered_is_written:
  assumes "listener_run N X cfg ca trace l" and "ls_time l \<le> now" and "ls_down l = DownIdle" and "ls_inbox l = []"
    and "recv_datagram X clk (sh_session (ls_shared l)) pkt rm = Some (s', [Inbox src raw])"
    and "peer_info_of s' src = Some info" and "parse raw True = Some (Some p)"
    and "firewall_verdict N (ls_shared l) p True info now = Some (sh, True)"
  obtains l' where "listener_run N X cfg ca (trace @ Net [Inbox src raw] # Internal # replicate 4 (Tick now) @ [TunWrite raw (Inr (length raw))]) l'"
proof -
  let ?l = "l\<lparr>ls_shared := (ls_shared l)\<lparr>sh_session := s'\<rparr>, ls_inbox := ls_inbox l @ inbox_of [Inbox src raw],
    ls_up := up_observe [Inbox src raw] (ls_up l)\<rparr>"
  have "listener_run N X cfg ca (trace @ [Net [Inbox src raw]]) ?l"
    by (rule run_continue [OF assms(1) net_step [OF recv_step [OF assms(5)]]])
  then obtain l1 where l1: "listener_run N X cfg ca ((trace @ [Net [Inbox src raw]]) @ Internal # replicate 4 (Tick now)) l1"
    and down: "ls_down l1 = DownWriting src raw"
    by (rule inbox_to_write [where now = now and rest = "[]" and sh' = "sh\<lparr>sh_session := s'\<rparr>"])
      (use assms(2-4,6,7) verdict_session(2) [OF assms(8)] in simp_all)
  have "listener_step N X l1 (TunWrite raw (Inr (length raw))) (l1\<lparr>ls_down := DownIdle\<rparr>)"
    by (rule write_step [OF down, of "[Answered (Inr (length raw))]"]) (simp add: write_fd_def)
  from run_continue [OF l1 this] that show thesis by simp
qed

text \<open>A loop that waits in \<open>connect\<close> goes on when the answer to its handshake has arrived.\<close>

lemma connect_start_inbox: "connect_start X clk s v rm = Some (r, s', out) \<Longrightarrow> inbox_of out = []"
  using quiet_senders(3) [of X clk s v rm r s' out] inbox_of_iff [of _ _ out] by (cases "inbox_of out") fastforce+

lemma connect_resumes:
  assumes "listener_run N X cfg ca trace l" and "ls_time l \<le> now" and "ls_up l = UpIdle"
    and "length raw \<le> TUN_BUFFER" and "parse raw False = Some (Some p)"
    and "sh_session (ls_shared l) = s" and "peer_info_of s (remote_addr p) = None" and "\<not> is_multicast (remote_addr p)"
    and "known_addrs s (remote_addr p) = Some addr"
    and "connect_start X clk s (remote_addr p) addr = Some (Inr (), s1, out)"
    and "recv_datagram X clk' s1 pkt2 addr = Some (s2, [WakeConnect (channels s)])"
  obtains l' where "listener_run N X cfg ca (trace @ [TunRead (Inr raw), Tick now, Tick now, Net out,
      Net [WakeConnect (channels s)], Internal]) l'"
    and "ls_up l' = UpReady raw p" and "ls_shared l' = (ls_shared l)\<lparr>sh_session := s2\<rparr>" and "ls_time l' = now"
    and "ls_down l' = ls_down l" and "ls_inbox l' = ls_inbox l"
proof -
  let ?t = "trace @ [TunRead (Inr raw), Tick now, Tick now]"
  let ?l = "\<lambda>s' before. l\<lparr>ls_shared := (ls_shared l)\<lparr>sh_session := s'\<rparr>, ls_up := UpConnecting raw p s before, ls_time := now\<rparr>"
  have "ls_shared l = (ls_shared l)\<lparr>sh_session := s\<rparr>" using assms(6) by (cases "ls_shared l") simp
  then have run: "listener_run N X cfg ca ?t (?l s [])"
    using read_to_connect [OF assms(1-5)] assms(6-8) by (cases l) auto
  have "listener_step N X (?l s []) (Net out) (?l s1 out)"
    using net_step [of X "?l s []" out s1 N] connect_step [OF assms(10)] connect_start_inbox [OF assms(10)] by (cases l) simp
  note run1 = run_continue [OF run this]
  have "listener_step N X (?l s1 out) (Net [WakeConnect (channels s)]) (?l s2 (out @ [WakeConnect (channels s)]))"
    using net_step [of X "?l s1 out" "[WakeConnect (channels s)]" s2 N] recv_step [OF assms(11)] by (cases l) simp
  note run2 = run_continue [OF run1 this]
  have "connect_run X s (remote_addr p) ([] @ [] @ out @ [WakeConnect (channels s)]) s2 (connect_finish Woken)"
    by (rule connect_waited [OF resolve_known [of s _ addr] run_nil assms(10) run_single [OF recv_step [OF assms(11)]]])
      (use assms(9) in simp_all)
  then have "listener_step N X (?l s2 (out @ [WakeConnect (channels s)])) Internal
      ((?l s2 (out @ [WakeConnect (channels s)]))\<lparr>ls_up := UpReady raw p\<rparr>)"
    using connected_step [of "?l s2 (out @ [WakeConnect (channels s)])" raw p s _ X "Inr ()" N] by simp
  from run_continue [OF run2 this] that show thesis by simp
qed

section \<open>The first node of the small mesh\<close>

text \<open>Node 2 listens in \<open>world_listener\<close>; this is node 1, whose session called node 2.\<close>

definition world_calling :: "(ipaddr \<times> u8) listener_config" where
  "world_calling = world_listening\<lparr>assigned_networks := [(V4 1, 16)]\<rparr>"

definition world_caller :: "plain_state inner \<Rightarrow> (ipaddr \<times> u8, plain_state) listener" where
  "world_caller s = (world_listener s [] DownIdle UpIdle)\<lparr>ls_shared :=
     (world_shared s)\<lparr>sh_firewall := world_fw\<lparr>fw_routable := [(V4 1, 32)]\<rparr>\<rparr>\<rparr>"

lemma world_caller_sel [simp]:
  "sh_session (ls_shared (world_caller s)) = s" "ls_up (world_caller s) = UpIdle" "ls_time (world_caller s) = 0"
  by (simp_all add: world_caller_def)

lemma world_node_init: "session_init (world_node ip key lhs hosts)"
  by (simp add: session_init_def world_node_def)

lemma world_packet_length: "length (world_packet src dst) = 24"
  by (simp add: world_packet_def ipv4_packet_def)

lemma world_packet_fits: "length (world_packet src dst) \<le> TUN_BUFFER"
  by (simp add: world_packet_length TUN_BUFFER_def)

lemma world_caller_runs:
  assumes "session_run world (world_node 1 [1] lhs hosts) out s" and "inbox_of out = []"
  shows "listener_run cidr_ops world world_calling world_ca [Net out] (world_caller s)"
proof (rule run_start)
  have "ca_cert (world_node 1 [1] lhs hosts) = world_ca" by (simp add: world_node_def)
  moreover have "listener_new granting cidr_ops world_calling s 3 [] =
      (Inr (ls_shared (world_caller s)), [FlagsRead 3 True, FlagsSet 3 0x802 True, Registered 3 True])"
    by (simp add: listener_new_def io_bind_def io_lift_def io_err_def syscall_defs syscall_def closing_on_error_def
        set_nonblocking_def O_NONBLOCK_def granting_def world_calling_def world_listening_def firewall_new_def
        world_fw_def world_shared_def world_caller_def)
  ultimately show "listener_init cidr_ops world world_calling world_ca out (world_caller s)"
    unfolding listener_init_def using assms world_node_init [of 1 "[1]" lhs hosts]
    by (simp add: world_caller_def, blast)
qed

lemma world_caller_verdict:
  assumes "now \<le> 5"
  shows "\<exists>sh. firewall_verdict cidr_ops (ls_shared (world_caller s)) (world_flow 1 2 False) False (cert_info (world_cert 2 key)) now =
     Some (sh, True)"
proof -
  let ?peer = "\<lparr>pi_name = ''h'', pi_groups = {}, pi_ca_name = [], pi_ca_sha = [],
     pi_vpn_networks = [(V4 2, 32)], pi_unsafe_networks = []\<rparr> :: (ipaddr \<times> u8) peer_identity"
  let ?fw = "world_fw\<lparr>fw_routable := [(V4 1, 32)]\<rparr>"
  have "peer_identity_of cidr_ops (cert_info (world_cert 2 key)) [] [] = Some ?peer"
    by (simp add: peer_identity_of_def cert_info_def world_cert_def world_details_def to_host_route_def)
  moreover have "snd (evaluate cidr_ops (world_flow 1 2 False) False ?peer now ?fw) = Inr ()"
    by (simp add: evaluate_result world_fw_def sample_first check_packet_def owns_def world_rules_match world_ends)
  moreover have "\<not> evaluate_panics cidr_ops False (world_flow 1 2 False) False ?peer now ?fw"
    using sample_timely [OF assms] by (simp add: evaluate_panics_def world_fw_def)
  ultimately show ?thesis by (simp add: firewall_verdict_Some world_caller_def world_shared_def)
qed

section \<open>Properties\<close>

text \<open>C2: The first packet opens the tunnel and is not lost by it. Take a packet, read from the tun of
  a running listener, for a host to which there is no tunnel but whose UDP address is configured; let
  the other host run a listener, too. Let both sessions use the same cipher, the certificate of each
  belong to its key and verify at the other, the Noise library accept both keys and have room for the
  handshake messages, the AEAD be able to seal the packet, \<open>allocate_index\<close> find an index on either
  side, and both firewalls admit the packet. Then there is a run in which the loop goes into
  \<open>connect\<close>, whose handshake packet the other session answers, and on the answer it goes on and sends
  the packet, which the other session delivers and the other listener writes to its tun, byte for
  byte.\<close>

theorem first_packet_opens_tunnel:
  fixes clk_a clk_a' :: clock
  assumes "noise_laws (x_noise X) public" and "pb_laws (x_pb X)" and "aead_laws (x_aead X)"
    and "aead_sizes (x_aead X)" and "\<forall>ci ctr aad. \<exists>c. cipher_encrypt (x_aead X) ci ctr aad raw = Inr c"
    and "in_cipher a = in_cipher b"
    and "noise_accepts (x_noise X) (in_cipher a) (host_private_key a) (host_private_key b) n"
    and "hello_fits X a n" and "hello_fits X b n"
    and "endpoint_ok X public a va b (now_unix clk_b)" and "endpoint_ok X public b vb a (now_unix clk_a')"
    and "allocate_index a (subsec_nanos clk_a) \<noteq> None" and "allocate_index b (subsec_nanos clk_b) \<noteq> None"
    and "known_addrs a vb = Some addr_b" and "peer_info_of a vb = None" and "\<not> is_multicast vb"
    and "listener_run N X cfg_a ca_a trace_a la" and "sh_session (ls_shared la) = a" and "ls_up la = UpIdle" and "ls_time la \<le> now_a"
    and "listener_run M X cfg_b ca_b trace_b lb" and "sh_session (ls_shared lb) = b" and "ls_down lb = DownIdle"
    and "ls_inbox lb = []" and "ls_time lb \<le> now_b"
    and "length raw \<le> TUN_BUFFER" and "parse raw False = Some (Some p)" and "remote_addr p = vb" and "parse raw True = Some (Some q)"
    and "firewall_verdict N (ls_shared la) p False (cert_info (host_cert b)) now_a = Some (sh_a, True)"
    and "firewall_verdict M (ls_shared lb) q True (cert_info (host_cert a)) now_b = Some (sh_b, True)"
  shows "\<exists>dropped pkt1 b1 pkt2 pkt la' b2 lb'.
    listener_run N X cfg_a ca_a (trace_a @ [TunRead (Inr raw), Tick now_a, Tick now_a, Net (dropped @ [SendTo addr_b pkt1]),
      Net [WakeConnect (channels a)], Internal] @ replicate 4 (Tick now_a) @ [Forwarded raw [SendTo addr_b pkt]]) la' \<and>
    recv_datagram X clk_b b pkt1 addr_a = Some (b1, [SendTo addr_a pkt2]) \<and>
    recv_datagram X clk b1 pkt addr_a = Some (b2, [Inbox va raw]) \<and>
    listener_run M X cfg_b ca_b ((trace_b @ [Net [SendTo addr_a pkt2]]) @
      Net [Inbox va raw] # Internal # replicate 4 (Tick now_b) @ [TunWrite raw (Inr (length raw))]) lb'"
proof -
  obtain a1 dropped pkt1 b1 pkt2 a2 a3 pkt b2 where
    a1: "connect_start X clk_a a vb addr_b = Some (Inr (), a1, dropped @ [SendTo addr_b pkt1])"
    and b1: "recv_datagram X clk_b b pkt1 addr_a = Some (b1, [SendTo addr_a pkt2])"
    and a2: "recv_datagram X clk_a' a1 pkt2 addr_b = Some (a2, [WakeConnect (channels a)])"
    and info: "peer_info_of a2 vb = Some (cert_info (host_cert b))"
    and sent: "send X a2 vb raw = Some (Inr (), a3, [SendTo addr_b pkt])"
    and got: "recv_datagram X clk b1 pkt addr_a = Some (b2, [Inbox va raw])" "peer_info_of b2 va = Some (cert_info (host_cert a))"
    by (rule tunnel_carries [OF assms(1-13), where clk = clk])
  let ?t = "trace_a @ [TunRead (Inr raw), Tick now_a, Tick now_a, Net (dropped @ [SendTo addr_b pkt1]),
      Net [WakeConnect (channels a)], Internal]"
  obtain la1 where la1: "listener_run N X cfg_a ca_a ?t la1"
    and up1: "ls_up la1 = UpReady raw p" "ls_shared la1 = (ls_shared la)\<lparr>sh_session := a2\<rparr>" "ls_time la1 = now_a"
    by (rule connect_resumes [OF assms(17,20,19,26,27), where s = a]) (use assms a1 a2 in simp_all)
  obtain la2 where la2: "listener_run N X cfg_a ca_a (?t @ replicate 4 (Tick now_a)) la2"
    and up2: "ls_up la2 = UpSending raw p" "sh_session (ls_shared la2) = sh_session (ls_shared la1)"
    by (rule ready_to_send [OF la1 _ up1(1), where now = now_a and sh' = "sh_a\<lparr>sh_session := a2\<rparr>"])
      (use info assms(28) verdict_session(2) [OF assms(30)] in \<open>simp_all add: up1\<close>)
  have "send X (sh_session (ls_shared la2)) (remote_addr p) raw = Some (Inr (), a3, [SendTo addr_b pkt])"
    using sent up1 up2 assms(28) by simp
  note sends = run_continue [OF la2 forward_step [OF up2(1) this]]
  let ?lb = "lb\<lparr>ls_shared := (ls_shared lb)\<lparr>sh_session := b1\<rparr>, ls_inbox := ls_inbox lb @ inbox_of [SendTo addr_a pkt2],
    ls_up := up_observe [SendTo addr_a pkt2] (ls_up lb)\<rparr>"
  have lb: "listener_run M X cfg_b ca_b (trace_b @ [Net [SendTo addr_a pkt2]]) ?lb"
    by (rule run_continue [OF assms(21) net_step [OF recv_step [of X clk_b _ pkt1 addr_a]]]) (simp add: b1 assms(22))
  obtain lb' where "listener_run M X cfg_b ca_b ((trace_b @ [Net [SendTo addr_a pkt2]]) @
      Net [Inbox va raw] # Internal # replicate 4 (Tick now_b) @ [TunWrite raw (Inr (length raw))]) lb'"
    by (rule delivered_is_written [OF lb _ _ _ _ got(2) assms(29),
        where now = now_b and clk = clk and pkt = pkt and rm = addr_a and sh = "sh_b\<lparr>sh_session := b1\<rparr>"])
      (use got(1) assms(23-25) verdict_session(2) [OF assms(31)] in simp_all)
  with sends b1 got show ?thesis unfolding append_assoc by blast
qed

theorem first_packet_opens_tunnel_witness:
  "\<exists>trace_a la trace_b lb pkt. listener_run cidr_ops world world_calling world_ca trace_a la \<and>
     Forwarded (world_packet 1 2) [SendTo (SockV4 22 22) pkt] \<in> set trace_a \<and>
     world_run trace_b lb \<and> TunWrite (world_packet 1 2) (Inr 24) \<in> set trace_b"
proof -
  let ?raw = "world_packet 1 2" and ?p = "world_flow 1 2 False" and ?q = "world_flow 1 2 True"
  let ?a = "world_node 1 [1] [] [(V4 2, SockV4 22 22)]"
  let ?la = "world_caller ?a" and ?lb = "world_listener (world_inner 2 [2]) [] DownIdle UpIdle"
  have a: "known_addrs ?a (V4 2) = Some (SockV4 22 22)" "peer_info_of ?a (V4 2) = None" "\<not> is_multicast (V4 2)"
    "allocate_index ?a (subsec_nanos world_clock) \<noteq> None"
    by (simp_all add: world_node_def peer_info_of_def world_clock_def rand_index_def Let_def)
  have cert: "host_cert (world_inner 2 [2]) = world_cert 2 [2]" "host_cert ?a = world_cert 1 [1]"
    by (simp_all add: world_inner_def world_node_def)
  have la: "listener_run cidr_ops world world_calling world_ca [Net []] ?la"
    by (rule world_caller_runs [where lhs = "[]" and hosts = "[(V4 2, SockV4 22 22)]"]) (simp_all add: run_nil)
  have ready: "sh_session (ls_shared ?la) = ?a" "ls_up ?la = UpIdle" "ls_time ?la \<le> 5"
    "sh_session (ls_shared ?lb) = world_inner 2 [2]" "ls_down ?lb = DownIdle" "ls_inbox ?lb = []" "ls_time ?lb \<le> 5"
    by simp_all
  have dst: "remote_addr ?p = V4 2" by (simp add: world_ends)
  obtain sha where va: "firewall_verdict cidr_ops (ls_shared ?la) ?p False (cert_info (host_cert (world_inner 2 [2]))) 5 = Some (sha, True)"
    using world_caller_verdict [of 5 ?a "[2]"] by (auto simp: cert)
  obtain shb where vb: "firewall_verdict cidr_ops (ls_shared ?lb) ?q True (cert_info (host_cert ?a)) 5 = Some (shb, True)"
    using world_verdict [of ?q 5 "world_inner 2 [2]" True "[1]"] by (auto simp: cert world_ends)
  from first_packet_opens_tunnel [where clk = world_clock and addr_a = "SockV4 11 11", OF world_laws world_sizes world_seals
    world_pair(1) world_accepts(1) world_fits(1) world_fits(2) [of "[2]" "[]" "[]", folded world_inner_def] world_pair(2,3)
    a(4) world_found a(1-3) la ready(1-3)
    world_listener_starts ready(4-7) world_packet_fits world_parse dst world_parse va vb]
  obtain pkt la' lb' t u where a: "listener_run cidr_ops world world_calling world_ca (t @ [Forwarded ?raw [SendTo (SockV4 22 22) pkt]]) la'"
    and b: "world_run (u @ [TunWrite ?raw (Inr (length ?raw))]) lb'"
    unfolding append_assoc [symmetric] append_Cons [symmetric] by blast
  have "Forwarded ?raw [SendTo (SockV4 22 22) pkt] \<in> set (t @ [Forwarded ?raw [SendTo (SockV4 22 22) pkt]])"
    and "TunWrite ?raw (Inr 24) \<in> set (u @ [TunWrite ?raw (Inr (length ?raw))])"
    by (simp_all add: world_packet_length)
  with a b show ?thesis by blast
qed

end
