(* ===== verification/Fuzz_Firewall.thy ===== *)
theory Fuzz_Firewall
  imports Rule_Builder Firewall
begin

text \<open>
  The fuzz targets of \<open>nebula-firewall/fuzz\<close>: programs that draw rules, identities and packets from
  a byte string and feed them to the builder and the firewall, which must not panic. The
  \<open>arbitrary\<close> crate is a parameter, one function per type drawn, each of which may fail and
  leaves the rest of its input. A generator returns \<open>None\<close> when it panics; an error, which means
  that the input ran out, is no failure of a target.
\<close>

section \<open>Generators\<close>

record ('u, 'e) arb_ops =
  arb_new :: "bytes \<Rightarrow> 'u"
  arb_bool :: "'u \<Rightarrow> ('e + bool) \<times> 'u"
  arb_u8 :: "'u \<Rightarrow> ('e + u8) \<times> 'u"
  arb_u16 :: "'u \<Rightarrow> ('e + u16) \<times> 'u"
  arb_ipaddr :: "'u \<Rightarrow> ('e + ipaddr) \<times> 'u"
  arb_string :: "'u \<Rightarrow> ('e + string) \<times> 'u"
  arb_opt_string :: "'u \<Rightarrow> ('e + string option) \<times> 'u"

type_synonym ('u, 'e, 'a) gen = "'u \<Rightarrow> (('e + 'a) \<times> 'u) option"

definition draw :: "('u \<Rightarrow> ('e + 'a) \<times> 'u) \<Rightarrow> ('u, 'e, 'a) gen" where
  "draw f u = Some (f u)"

definition gen_return :: "'a \<Rightarrow> ('u, 'e, 'a) gen" where
  "gen_return x u = Some (Inr x, u)"

definition gen_expect :: "'a option \<Rightarrow> ('u, 'e, 'a) gen" where
  "gen_expect x u = map_option (\<lambda>v. (Inr v, u)) x"

definition gen_bind :: "('u, 'e, 'a) gen \<Rightarrow> ('a \<Rightarrow> ('u, 'e, 'b) gen) \<Rightarrow> ('u, 'e, 'b) gen" where
  "gen_bind m f u = (case m u of
     None \<Rightarrow> None
   | Some (Inl e, u') \<Rightarrow> Some (Inl e, u')
   | Some (Inr x, u') \<Rightarrow> f x u')"

text \<open>A loop that pushes what its body draws, and one that threads a value.\<close>

fun gen_repeat :: "nat \<Rightarrow> ('u, 'e, 'a) gen \<Rightarrow> ('u, 'e, 'a list) gen" where
  "gen_repeat 0 m = gen_return []"
| "gen_repeat (Suc n) m = gen_bind m (\<lambda>x. gen_bind (gen_repeat n m) (\<lambda>xs. gen_return (x # xs)))"

fun gen_loop :: "nat \<Rightarrow> (nat \<Rightarrow> 'a \<Rightarrow> ('u, 'e, 'a) gen) \<Rightarrow> 'a \<Rightarrow> ('u, 'e, 'a) gen" where
  "gen_loop 0 f x = gen_return x"
| "gen_loop (Suc n) f x = gen_bind (gen_loop n f x) (f n)"

section \<open>The targets\<close>

definition arb_ipnet :: "('u, 'e) arb_ops \<Rightarrow> 'net ipnet_ops \<Rightarrow> ('u, 'e, 'net) gen" where
  "arb_ipnet A N =
     gen_bind (draw (arb_ipaddr A)) (\<lambda>addr.
     gen_bind (draw (arb_u8 A)) (\<lambda>b.
     let max = (case addr of V4 _ \<Rightarrow> 32 | V6 _ \<Rightarrow> 128) in
     gen_expect (net_new N addr (b mod (max + 1)))))"

definition arb_port :: "('u, 'e) arb_ops \<Rightarrow> ('u, 'e, port_spec) gen" where
  "arb_port A =
     gen_bind (draw (arb_u8 A)) (\<lambda>b.
     let k = b mod 4 in
     if k = 0 then gen_return PortAny
     else if k = 1 then gen_return PortFragment
     else if k = 2 then gen_bind (draw (arb_u16 A)) (\<lambda>p. gen_return (PortSingle p))
     else gen_bind (draw (arb_u16 A)) (\<lambda>lo. gen_bind (draw (arb_u16 A)) (\<lambda>hi. gen_return (PortRange lo hi))))"

text \<open>\<open>for _ in 0..(u8::arbitrary(u)? % k)\<close> with a push.\<close>

definition arb_some :: "('u, 'e) arb_ops \<Rightarrow> u8 \<Rightarrow> ('u, 'e, 'a) gen \<Rightarrow> ('u, 'e, 'a list) gen" where
  "arb_some A k m = gen_bind (draw (arb_u8 A)) (\<lambda>b. gen_repeat (unat (b mod k)) m)"

definition arb_identity :: "('u, 'e) arb_ops \<Rightarrow> 'net ipnet_ops \<Rightarrow> ('u, 'e, 'net peer_identity) gen" where
  "arb_identity A N =
     gen_bind (arb_some A 4 (draw (arb_string A))) (\<lambda>groups.
     gen_bind (arb_some A 3 (arb_ipnet A N)) (\<lambda>vpn.
     gen_bind (arb_some A 3 (arb_ipnet A N)) (\<lambda>unsafe_nets.
     gen_bind (draw (arb_string A)) (\<lambda>name.
     gen_bind (draw (arb_string A)) (\<lambda>ca_name.
     gen_bind (draw (arb_string A)) (\<lambda>ca_sha.
     gen_return \<lparr>pi_name = name, pi_groups = set groups, pi_ca_name = ca_name, pi_ca_sha = ca_sha,
       pi_vpn_networks = vpn, pi_unsafe_networks = unsafe_nets\<rparr>))))))"

definition arb_rule :: "('u, 'e) arb_ops \<Rightarrow> 'net ipnet_ops \<Rightarrow> ('u, 'e, 'net rule) gen" where
  "arb_rule A N =
     gen_bind (draw (arb_bool A)) (\<lambda>incoming.
     gen_bind (draw (arb_u8 A)) (\<lambda>proto.
     gen_bind (arb_port A) (\<lambda>port.
     gen_bind (arb_some A 3 (draw (arb_string A))) (\<lambda>groups.
     gen_bind (draw (arb_opt_string A)) (\<lambda>host.
     gen_bind (draw (arb_bool A)) (\<lambda>has_cidr.
     gen_bind (if has_cidr then gen_bind (arb_ipnet A N) (\<lambda>n. gen_return (Some n)) else gen_return None) (\<lambda>cidr.
     gen_bind (draw (arb_u8 A)) (\<lambda>b.
     gen_bind (let k = b mod 3 in
         if k = 0 then gen_return LcAny
         else if k = 1 then gen_bind (arb_ipnet A N) (\<lambda>n. gen_return (LcNet n))
         else gen_return LcUnset) (\<lambda>local_cidr.
     gen_bind (draw (arb_opt_string A)) (\<lambda>ca_name.
     gen_bind (draw (arb_opt_string A)) (\<lambda>ca_sha.
     gen_return \<lparr>r_incoming = incoming, r_proto = protocol_from proto, r_port = port, r_groups = groups, r_host = host,
       r_cidr = cidr, r_local_cidr = local_cidr, r_ca_name = ca_name, r_ca_sha = ca_sha\<rparr>)))))))))))"

definition arb_packet :: "('u, 'e) arb_ops \<Rightarrow> ('u, 'e, packet) gen" where
  "arb_packet A =
     gen_bind (draw (arb_ipaddr A)) (\<lambda>laddr.
     gen_bind (draw (arb_ipaddr A)) (\<lambda>raddr.
     gen_bind (draw (arb_u16 A)) (\<lambda>lport.
     gen_bind (draw (arb_u16 A)) (\<lambda>rport.
     gen_bind (draw (arb_u8 A)) (\<lambda>proto.
     gen_bind (draw (arb_bool A)) (\<lambda>frag.
     gen_return \<lparr>local_addr = laddr, remote_addr = raddr, local_port = lport, remote_port = rport,
       protocol = protocol_from proto, fragment = frag\<rparr>))))))"

definition fuzz_options :: "bool \<Rightarrow> firewall_options" where
  "fuzz_options default_any = \<lparr>tcp_timeout = 10 ^ 9, udp_timeout = 60 * 10 ^ 9, default_timeout = 600 * 10 ^ 9,
     in_send_reject = False, out_send_reject = False, default_local_cidr_any = default_any\<rparr>"

text \<open>\<open>now i\<close> is the clock reading of the evaluation number \<open>i\<close>, in the 64 bits of nanoseconds that the
  kernel's monotonic clock counts in. Both targets discard the results of \<open>add_rule\<close> and \<open>evaluate\<close>,
  but end with its panic.\<close>

definition fuzz_rules :: "('u, 'e) arb_ops \<Rightarrow> 'net ipnet_ops \<Rightarrow> nat \<Rightarrow> 'net builder \<Rightarrow> ('u, 'e, 'net builder) gen" where
  "fuzz_rules A N n = gen_loop n (\<lambda>_ b. gen_bind (arb_rule A N) (\<lambda>r. gen_return (add_rule_or_skip r b)))"

definition fuzz_packets ::
  "('u, 'e) arb_ops \<Rightarrow> 'net ipnet_ops \<Rightarrow> (nat \<Rightarrow> u64) \<Rightarrow> 'net peer_identity \<Rightarrow> nat \<Rightarrow> 'net firewall \<Rightarrow> ('u, 'e, 'net firewall) gen" where
  "fuzz_packets A N now remote n = gen_loop n (\<lambda>i fw.
     gen_bind (arb_packet A) (\<lambda>p.
     gen_bind (draw (arb_bool A)) (\<lambda>incoming.
     gen_expect (if evaluate_panics N False p incoming remote (unat (now i)) fw then None
       else Some (fst (evaluate N p incoming remote (unat (now i)) fw))))))"

text \<open>The targets return \<open>()\<close>; here their results are the firewall and the rule set that they drop
  at the end.\<close>

definition fuzz_firewall :: "('u, 'e) arb_ops \<Rightarrow> 'net ipnet_ops \<Rightarrow> ('u, 'e, 'net firewall) gen" where
  "fuzz_firewall A N =
     gen_bind (draw (arb_bool A)) (\<lambda>has_unsafe.
     gen_bind (draw (arb_bool A)) (\<lambda>default_any.
     gen_bind (arb_some A 3 (arb_ipnet A N)) (\<lambda>assigned.
     gen_bind (fuzz_rules A N 8 (builder_new assigned has_unsafe default_any)) (\<lambda>b.
     gen_expect (firewall_new N (build b) (fuzz_options default_any) assigned [])))))"

definition fuzz_evaluate :: "('u, 'e) arb_ops \<Rightarrow> 'net ipnet_ops \<Rightarrow> (nat \<Rightarrow> u64) \<Rightarrow> bytes \<Rightarrow> (('e + 'net firewall) \<times> 'u) option" where
  "fuzz_evaluate A N now data =
     gen_bind (fuzz_firewall A N) (\<lambda>fw.
     gen_bind (arb_identity A N) (\<lambda>remote.
     fuzz_packets A N now remote 8 fw)) (arb_new A data)"

definition fuzz_add_rule :: "('u, 'e) arb_ops \<Rightarrow> 'net ipnet_ops \<Rightarrow> bytes \<Rightarrow> (('e + 'net ruleset) \<times> 'u) option" where
  "fuzz_add_rule A N data =
     gen_bind (arb_some A 3 (arb_ipnet A N)) (\<lambda>assigned.
     gen_bind (draw (arb_bool A)) (\<lambda>has_unsafe.
     gen_bind (draw (arb_bool A)) (\<lambda>default_any.
     gen_bind (fuzz_rules A N 16 (builder_new assigned has_unsafe default_any)) (\<lambda>b.
     gen_return (build b))))) (arb_new A data)"

section \<open>What generators ensure\<close>

text \<open>A generator that never panics and whose values satisfy \<open>P\<close>.\<close>

definition ensures :: "('u, 'e, 'a) gen \<Rightarrow> ('a \<Rightarrow> bool) \<Rightarrow> bool" where
  "ensures m P \<longleftrightarrow> (\<forall>u. \<exists>r u'. m u = Some (r, u') \<and> (\<forall>x. r = Inr x \<longrightarrow> P x))"

abbreviation never_panics :: "('u, 'e, 'a) gen \<Rightarrow> bool" where
  "never_panics m \<equiv> ensures m (\<lambda>_. True)"

named_theorems gen_intros

lemma ensures_draw [gen_intros]: "never_panics (draw f)"
  by (simp add: ensures_def draw_def)

lemma ensures_return [gen_intros]: "P x \<Longrightarrow> ensures (gen_return x) P"
  by (simp add: ensures_def gen_return_def)

lemma ensures_expect: "x = Some v \<Longrightarrow> P v \<Longrightarrow> ensures (gen_expect x) P"
  by (simp add: ensures_def gen_expect_def)

lemma ensures_bind:
  assumes "ensures m P" and "\<And>x. P x \<Longrightarrow> ensures (f x) Q"
  shows "ensures (gen_bind m f) Q"
  unfolding ensures_def
proof
  fix u
  obtain r u' where m: "m u = Some (r, u')" "\<forall>x. r = Inr x \<longrightarrow> P x" using assms(1) unfolding ensures_def by blast
  show "\<exists>r u'. gen_bind m f u = Some (r, u') \<and> (\<forall>x. r = Inr x \<longrightarrow> Q x)"
  proof (cases r)
    case (Inr x)
    with m assms(2) [of x] show ?thesis by (simp add: gen_bind_def ensures_def)
  qed (use m in \<open>simp add: gen_bind_def\<close>)
qed

lemma ensures_then [gen_intros]: "never_panics m \<Longrightarrow> (\<And>x. ensures (f x) Q) \<Longrightarrow> ensures (gen_bind m f) Q"
  by (rule ensures_bind)

lemma ensures_if [gen_intros]: "ensures m P \<Longrightarrow> ensures m' P \<Longrightarrow> ensures (if b then m else m') P"
  by simp

lemma ensures_repeat [gen_intros]: "never_panics m \<Longrightarrow> never_panics (gen_repeat n m)"
  by (induction n) (auto intro!: gen_intros)

lemma ensures_loop:
  assumes "P x" and "\<And>i x. P x \<Longrightarrow> ensures (f i x) P"
  shows "ensures (gen_loop n f x) P"
  by (induction n) (use assms in \<open>auto intro: ensures_return ensures_bind\<close>)

text \<open>The two \<open>expect\<close>s of the targets: the drawn prefix length fits the address, and so does the
  length of a host route.\<close>

lemma prefix_fits: "b mod (max_prefix_len addr + 1) \<le> max_prefix_len addr"
proof -
  have "b mod (max_prefix_len addr + 1) < max_prefix_len addr + 1"
    by (rule word_mod_less_divisor) (cases addr; simp)
  then show ?thesis by (cases addr) (simp_all add: word_less_nat_alt word_le_nat_alt)
qed

lemma never_ipnet [gen_intros]:
  assumes "ipnet_laws N"
  shows "never_panics (arb_ipnet A N)"
proof -
  have "ensures (gen_expect (net_new N addr (b mod ((case addr of V4 _ \<Rightarrow> 32 | V6 _ \<Rightarrow> 128) + 1)))) (\<lambda>_. True)" for addr b
  proof -
    have "(case addr of V4 _ \<Rightarrow> 32 | V6 _ \<Rightarrow> 128) = max_prefix_len addr" by (cases addr) simp_all
    moreover obtain n where "net_new N addr (b mod (max_prefix_len addr + 1)) = Some n"
      using ipnet_new_None [OF assms, of addr "b mod (max_prefix_len addr + 1)"] prefix_fits [of b addr]
      by (auto simp: not_less)
    ultimately show ?thesis by (auto intro: ensures_expect)
  qed
  then show ?thesis unfolding arb_ipnet_def Let_def by (intro gen_intros)
qed

lemma never_some [gen_intros]: "never_panics m \<Longrightarrow> never_panics (arb_some A k m)"
  unfolding arb_some_def by (intro gen_intros)

lemma never_port [gen_intros]: "never_panics (arb_port A)"
  unfolding arb_port_def Let_def by (intro gen_intros TrueI)

lemma never_packet [gen_intros]: "never_panics (arb_packet A)"
  unfolding arb_packet_def by (intro gen_intros TrueI)

lemma never_identity [gen_intros]: "ipnet_laws N \<Longrightarrow> never_panics (arb_identity A N)"
  unfolding arb_identity_def by (intro gen_intros TrueI)

lemma never_rule [gen_intros]: "ipnet_laws N \<Longrightarrow> never_panics (arb_rule A N)"
  unfolding arb_rule_def Let_def by (intro gen_intros TrueI)

lemma never_rules [gen_intros]: "ipnet_laws N \<Longrightarrow> never_panics (fuzz_rules A N n b)"
  unfolding fuzz_rules_def by (rule ensures_loop) (auto intro!: gen_intros)

text \<open>What the firewall of a target tracks it has checked.\<close>

definition tracks_checked :: "'net ipnet_ops \<Rightarrow> 'net peer_identity \<Rightarrow> 'net firewall \<Rightarrow> bool" where
  "tracks_checked N remote fw \<longleftrightarrow> (\<forall>p e. conns (fw_conntrack fw) p = Some e \<longrightarrow>
     check_packet N (fw_routable fw) (vr_rules (fw_rules fw)) p (ce_incoming e) remote = Inr ())"

lemma evaluate_tracks_checked:
  assumes "tracks_checked N remote fw"
  shows "tracks_checked N remote (fst (evaluate N p incoming remote now fw))"
proof -
  obtain ct hit where ph: "conntrack_phase N (fw_options fw) (fw_rules fw) p remote now (fw_conntrack fw) = (ct, hit)"
    by (cases "conntrack_phase N (fw_options fw) (fw_rules fw) p remote now (fw_conntrack fw)")
  have old: "check_packet N (fw_routable fw) (vr_rules (fw_rules fw)) q (ce_incoming e) remote = Inr ()"
    if q: "conns ct q = Some e" for q e
  proof -
    obtain e0 where "conns (fw_conntrack fw) q = Some e0" and "ce_incoming e0 = ce_incoming e"
      using conntrack_phase_conns [of N "fw_options fw" "fw_rules fw" p remote now "fw_conntrack fw" q e] ph q by auto
    with assms show ?thesis unfolding tracks_checked_def by fastforce
  qed
  show ?thesis
    using ph old by (auto simp: tracks_checked_def evaluate_def Let_def conns_record split: sum.splits if_splits)
qed

lemma fuzz_timely: "\<not> record_panics (unat (t :: u64)) (timeout_for (fuzz_options d) proto)"
proof -
  have "timeout_for (fuzz_options d) proto \<le> 600 * 10 ^ 9" by (cases proto) (simp_all add: fuzz_options_def)
  moreover have "unat t < 2 ^ 64" using unsigned_less [of t] by simp
  ultimately show ?thesis by (simp add: record_panics_def INSTANT_BOUND_def)
qed

definition fuzz_inv :: "'net ipnet_ops \<Rightarrow> 'net peer_identity \<Rightarrow> 'net firewall \<Rightarrow> bool" where
  "fuzz_inv N remote fw \<longleftrightarrow> tracks_checked N remote fw \<and> (\<exists>d. fw_options fw = fuzz_options d)"

lemma fuzz_packets_checked:
  assumes "fuzz_inv N remote fw"
  shows "ensures (fuzz_packets A N now remote n fw) (fuzz_inv N remote)"
  unfolding fuzz_packets_def
proof (rule ensures_loop)
  show "fuzz_inv N remote fw" by (rule assms)
next
  fix i and fw :: "'a firewall"
  assume "fuzz_inv N remote fw"
  then have "ensures (gen_expect (if evaluate_panics N False p incoming remote (unat (now i)) fw then None
      else Some (fst (evaluate N p incoming remote (unat (now i)) fw)))) (fuzz_inv N remote)" for p incoming
    by (intro ensures_expect [where v = "fst (evaluate N p incoming remote (unat (now i)) fw)"])
      (auto simp: fuzz_inv_def evaluate_panics_def fuzz_timely evaluate_tracks_checked evaluate_keeps)
  then show "ensures (gen_bind (arb_packet A) (\<lambda>p. gen_bind (draw (arb_bool A)) (\<lambda>incoming.
      gen_expect (if evaluate_panics N False p incoming remote (unat (now i)) fw then None
        else Some (fst (evaluate N p incoming remote (unat (now i)) fw)))))) (fuzz_inv N remote)"
    by (intro gen_intros)
qed

lemma firewall_new_checked:
  assumes "firewall_new N rules (fuzz_options d) assigned unsafe = Some fw"
  shows "fuzz_inv N remote fw"
  using assms by (auto simp: firewall_new_def conntrack_new_def tracks_checked_def fuzz_inv_def)

lemma fuzz_firewall_checked:
  assumes "ipnet_laws N"
  shows "ensures (fuzz_firewall A N) (\<lambda>fw. \<forall>remote. fuzz_inv N remote fw)"
proof -
  have "ensures (gen_expect (firewall_new N (build b) (fuzz_options d) assigned [])) (\<lambda>fw. \<forall>remote. fuzz_inv N remote fw)"
    for b d assigned
  proof -
    obtain fw where "firewall_new N (build b) (fuzz_options d) assigned [] = Some fw"
      using firewall_new_routes [OF assms] by blast
    then show ?thesis using firewall_new_checked by (blast intro: ensures_expect)
  qed
  then show ?thesis unfolding fuzz_firewall_def using assms by (intro gen_intros)
qed

section \<open>An instance of the crate\<close>

text \<open>Values are read from the front of the input, zeros when it is empty, as the crate does; a string
  whose bytes run out is an error.\<close>

fun next_byte :: "bytes \<Rightarrow> u8 \<times> bytes" where
  "next_byte [] = (0, [])"
| "next_byte (b # bs) = (b, bs)"

definition next_bytes :: "nat \<Rightarrow> bytes \<Rightarrow> bytes \<times> bytes" where
  "next_bytes n bs = (take n (bs @ replicate n 0), drop n bs)"

definition next_string :: "bytes \<Rightarrow> (unit + string) \<times> bytes" where
  "next_string bs = (let (n, bs) = next_byte bs; k = unat (n mod 4) in
     if length bs < k then (Inl (), bs) else (Inr (map (\<lambda>b. char_of (unat b)) (take k bs)), drop k bs))"

definition byte_arb :: "(bytes, unit) arb_ops" where
  "byte_arb = \<lparr>arb_new = (\<lambda>data. data),
     arb_bool = (\<lambda>bs. let (b, bs) = next_byte bs in (Inr (odd (unat b)), bs)),
     arb_u8 = (\<lambda>bs. let (b, bs) = next_byte bs in (Inr b, bs)),
     arb_u16 = (\<lambda>bs. let (x, bs) = next_bytes 2 bs in (Inr (from_be x), bs)),
     arb_ipaddr = (\<lambda>bs. let (b, bs) = next_byte bs in
       if odd (unat b) then let (x, bs) = next_bytes 16 bs in (Inr (V6 (from_be x)), bs)
       else let (x, bs) = next_bytes 4 bs in (Inr (V4 (from_be x)), bs)),
     arb_string = next_string,
     arb_opt_string = (\<lambda>bs. let (b, bs) = next_byte bs in
       if odd (unat b) then let (r, bs) = next_string bs in (map_sum id Some r, bs) else (Inr None, bs))\<rparr>"

section \<open>Properties\<close>

text \<open>C28: What the fuzz targets of the firewall look for does not exist: on no input, however the
  values are drawn from it, does building rules, creating the firewall or evaluating packets panic;
  and when the target comes to its end, there is one peer identity for which every flow that the
  firewall tracks is routed, owned by that peer and matched by the rules it was built with.\<close>

theorem fuzz_targets_hold:
  assumes "ipnet_laws N"
  shows "(\<exists>res rest. fuzz_evaluate A N now data = Some (res, rest) \<and>
      (\<forall>fw. res = Inr fw \<longrightarrow> (\<exists>remote. tracks_checked N remote fw))) \<and>
    fuzz_add_rule A N data \<noteq> None"
proof
  have "ensures (fuzz_packets A N now remote 8 fw) (\<lambda>fw. \<exists>remote. tracks_checked N remote fw)"
    if "\<forall>remote. fuzz_inv N remote fw" for fw remote
    using fuzz_packets_checked [of N remote fw A now 8] that unfolding ensures_def fuzz_inv_def by fast
  then have "ensures (gen_bind (fuzz_firewall A N) (\<lambda>fw. gen_bind (arb_identity A N) (\<lambda>remote.
      fuzz_packets A N now remote 8 fw))) (\<lambda>fw. \<exists>remote. tracks_checked N remote fw)"
    using assms by (intro ensures_bind [OF fuzz_firewall_checked] ensures_then never_identity)
  then show "\<exists>res rest. fuzz_evaluate A N now data = Some (res, rest) \<and>
      (\<forall>fw. res = Inr fw \<longrightarrow> (\<exists>remote. tracks_checked N remote fw))"
    by (simp add: fuzz_evaluate_def ensures_def)
  have "never_panics (gen_bind (arb_some A 3 (arb_ipnet A N)) (\<lambda>assigned. gen_bind (draw (arb_bool A)) (\<lambda>has_unsafe.
      gen_bind (draw (arb_bool A)) (\<lambda>default_any.
      gen_bind (fuzz_rules A N 16 (builder_new assigned has_unsafe default_any)) (\<lambda>b. gen_return (build b))))))"
    using assms by (intro gen_intros TrueI)
  then show "fuzz_add_rule A N data \<noteq> None"
    by (auto simp: fuzz_add_rule_def ensures_def)
qed

theorem fuzz_targets_hold_witness:
  "\<exists>res rest. fuzz_evaluate byte_arb cidr_ops of_nat [1, 0, 1, 0, 10, 9, 9, 1, 24] = Some (res, rest)"
  using fuzz_targets_hold [OF cidr_ops_laws, of byte_arb of_nat "[1, 0, 1, 0, 10, 9, 9, 1, 24]"] by blast

end
