(* ===== verification/Spec2Isabelle.thy ===== *)
theory Spec2Isabelle
  imports Session_Life Node Mesh_Path Fuzz_Firewall
begin

text \<open>
  \<^bold>\<open>A verification of nebula-rs\<close>, a Rust node for the Nebula overlay network.

  \<^bold>\<open>The program.\<close> Three crates under \<open>src/\<close>. \<open>nebula-firewall\<close> is a stateful
  firewall: a rule tree filled by a builder, a connection table with lazy expiry, and
  \<open>evaluate\<close>, which consults both. \<open>nebula-protocol\<close> is the secure transport:
  certificates in DER and PEM, a Noise IX handshake, AEAD packets with a replay window, lighthouse
  messages, and the session that ties them to a UDP socket. \<open>nebula-listener\<close> moves IP
  packets between a tun device and the session and asks the firewall about each. A packet from the
  mesh is decrypted by the session under the tunnel its header names, put into the inbox with the
  vpn address of the peer, parsed, given the identity in the peer's verified certificate, evaluated,
  and written to the tun. A packet from the tun goes the other way, after a tunnel to its
  destination has been opened if there was none. \<open>examples/node.rs\<close> is the program that puts
  the three together.

  \<^bold>\<open>The theories.\<close>
  \<^item> \<open>Nebula_Prelude\<close>: bytes, big-endian conversions, checked slices, lemmas on words, and two
    locales used throughout: \<open>transition_invariant\<close> (reachable states keep an inductive
    invariant) and \<open>simulation\<close> (a machine that may panic answers as a specification).
  \<^item> \<open>Std_Net\<close>, \<open>Std_String\<close>, \<open>Std_Parse\<close>: what the code uses of Rust's addresses and
    strings, and the texts of addresses, printed and parsed. The ipnet crate is the record
    \<open>ipnet_ops\<close> with its documented laws \<open>ipnet_laws\<close>.
  \<^item> \<open>Kernel\<close>: the system calls the program makes, as a parameter; computations that call it and
    keep a log; and \<open>owes\<close>, a small logic of descriptor ownership: what a computation holds
    before and after, on success and on failure.
  \<^item> \<open>Fw_Packet\<close>, \<open>Rule_Tree\<close>, \<open>Rule_Builder\<close>, \<open>Conntrack\<close>, \<open>Firewall\<close>:
    \<open>nebula-firewall/src\<close>, one theory per file (\<open>identity.rs\<close> with \<open>packet.rs\<close>).
  \<^item> \<open>Proto_Error\<close>, \<open>Header\<close>, \<open>Transport\<close>, \<open>Der_Tlv\<close>, \<open>Cert_Der\<close>,
    \<open>Cert_Verify\<close>, \<open>Lighthouse\<close>, \<open>Handshake\<close>, \<open>Session\<close>: the files of
    \<open>nebula-protocol/src\<close>; \<open>cert/der.rs\<close> is split into the tag-length-value layer and the
    certificate, and \<open>Cert_Verify\<close> holds \<open>cert/verify.rs\<close> and \<open>cert/pem.rs\<close>.
    \<open>Tunnel\<close> has the properties of sessions as a whole, \<open>Session_Run\<close> the asynchronous
    operations of \<open>session.rs\<close>, \<open>Session_Open\<close> its constructors on the socket calls and
    \<open>Session_Life\<close> the life of a tunnel.
  \<^item> \<open>Listener_Packet\<close>, \<open>Peer_Identity\<close>, \<open>Listener_Io\<close>, \<open>Listener\<close>, \<open>Tun\<close>:
    \<open>nebula-listener/src\<close> (\<open>packet.rs\<close>; \<open>identity.rs\<close>; the descriptor functions of
    \<open>listener.rs\<close>; its constructor and both loops; \<open>tun.rs\<close>). \<open>Listener_Safety\<close> has the
    invariants of a running listener and what follows from them, \<open>Listener_Order\<close> the
    specification of its loops as buffers, \<open>Mesh_Path\<close> two listeners and a packet between them.
  \<^item> \<open>Node\<close>: \<open>nebula-listener/examples/node.rs\<close>, from the environment to the running
    listener.
  \<^item> \<open>Fuzz_Firewall\<close>: the targets of \<open>nebula-firewall/fuzz\<close>, with the \<open>arbitrary\<close> crate as
    a parameter, and \<open>ensures\<close>, a logic of generators that may panic.

  \<^bold>\<open>How state and effects correspond.\<close> A struct is a record, an enum a datatype, a fixed-width
  integer a word, a \<open>HashMap\<close> a partial map, a \<open>BinaryHeap\<close> a sorted list behind the contract
  of a priority queue. \<open>Result\<close> is a sum with the crate's errors on the left; a possible panic
  (an index, a slice, an \<open>expect\<close>) is an outer \<open>option\<close>, with three exceptions: the addition of a
  timeout to an \<open>Instant\<close> (\<open>record_panics\<close>, \<open>evaluate_panics\<close>, \<open>resume_panics\<close>), which poisons the
  connection table (\<open>sh_poisoned\<close>); the system clock read before 1970 (\<open>since_epoch\<close>,
  \<open>connect_panics\<close> and two rules of \<open>session_step\<close>); and the end of a task, which is the phase
  \<open>DownEnded Panicked\<close> or \<open>UpEnded Panicked\<close>. A lock-protected state is the record
  passed through each critical section (\<open>fw_conntrack\<close>, \<open>inner\<close>); what is sent, delivered
  or woken is a list of effects. A call of the operating system is an event of the log, the
  \<open>close\<close> of a dropped descriptor included. Tasks interleave in step relations: \<open>fw_step\<close> (the critical
  sections of \<open>evaluate\<close> with reloads), \<open>session_step\<close> (the critical sections of the
  session) and \<open>listener_step\<close>: both loops, each cut at every lock it takes and every
  \<open>await\<close> (\<open>down_phase\<close>, \<open>up_phase\<close>), with the session's steps and the two sections
  of each other's evaluations in between. A future that waits
  (\<open>resolve_run\<close>, \<open>connect_run\<close>, \<open>register_run\<close>) lets other tasks take any number of
  steps at each \<open>await\<close> and returns because its channel was woken, its sender was dropped or its
  timer fired.

  \<^bold>\<open>What is external.\<close> The AEAD ciphers, Ed25519, SHA-256, the Noise library, the generated
  protobuf codec, the PEM parser, ipnet, the arbitrary crate of the fuzz targets and the kernel's
  system calls are parameters, records of functions. Where a theorem needs their documented behaviour it is a hypothesis:
  \<open>aead_laws\<close> and \<open>aead_sizes\<close> (opening undoes sealing; tags of at most 32 bytes),
  \<open>noise_laws\<close> (a completed exchange delivers the payloads and mirrored keys) and
  \<open>noise_accepts\<close> (no error for these keys and payloads of a bounded size),
  \<open>pb_laws\<close> (decoding undoes encoding), \<open>ipnet_laws\<close>. Concrete instances satisfy each, and
  every theorem that assumes them is applied to these instances. No secrecy is assumed or proved.

  \<^bold>\<open>What is shown.\<close>
  \<^item> Firewall: the tree a builder makes matches exactly the union of its rules; the connection
    table refines an expiring map; the verdict of \<open>evaluate\<close> on every branch; under every
    interleaving with reloads a flow of the current version is admitted by the current rules.
  \<^item> Transport and certificates: the replay ring refines the set of accepted counters; packets
    open once; certificates survive their encodings, signed bytes included, and the signed bytes
    determine them; the exact conditions of verification.
  \<^item> Handshake and session: both ends agree on certificates, indices and keys; two sessions with
    valid certificates open a tunnel, from the first message of \<open>connect\<close> to data in both
    directions; every reachable session holds verified peers only;
    delivered data is authentic and fresh; no two packets are sealed under the same key and nonce;
    no handler panics;
    the index search ends; \<open>connect\<close> and \<open>build\<close> keep their promises under interleaving.
  \<^item> Listener: the parser never indexes out of range, reads ports behind any chain of extension
    headers and gives well-formed packets; whatever reaches the tun or leaves it through the mesh
    belongs to a flow that the rules admitted between addresses this node routes and addresses that
    a verified certificate owns, under every interleaving; \<open>run\<close> ends only with a failed read of
    the tun or a panic of one of three causes, which \<open>mesh_to_tun_panics_iff\<close> gives exactly for one
    packet; the tun device is set up in order and no descriptor leaks.
  \<^item> The listener as a whole: each loop refines a buffer that may lose packets but does not
    duplicate, alter, reorder or invent them; there is a run in which the first packet for a host
    opens the tunnel and crosses from the tun of one node to the tun of the other.
  \<^item> Fuzz targets: neither panics on any input, and every flow the fuzzed firewall tracks was
    checked.
  \<^item> Node: the host list is read as it is written; a running node admits everything between its
    own address and the addresses its peers own, given valid prefix lengths; which descriptors are open however it stops.
  \<^item> Where the code falls short of its intention this is proved too:
    \<open>stale_flow_after_version_wrap\<close>, \<open>heap_duplicate_after_remove\<close>,
    \<open>forged_packet_advances_window\<close>, \<open>forged_reply_aborts_handshake\<close>,
    \<open>any_peer_redirects\<close>, \<open>replayed_handshake_redirects\<close>, \<open>mesh_to_tun_panics_iff\<close>,
    \<open>create_long_name\<close>, the exit of \<open>run_outcome\<close> that is never taken and the socket that
    \<open>node_descriptors\<close> leaves open.

  \<^bold>\<open>Interfaces.\<close> Locales state what one part relies on in another: the priority queue and the
  table of the connection tracker, the item codecs of the certificate lists (\<open>der_item\<close>), the
  channels of the listener (\<open>lossy_channel\<close>), simulations and transition invariants; each is
  interpreted on the model's own definitions.

  \<^bold>\<open>Bounds.\<close> Lengths are naturals, bounded by \<open>usize_bound\<close> (\<open>2 ^ 64\<close>) where the code
  adds them in \<open>usize\<close>. No recursion uses fuel: the purge loop and the header walk end by a
  measure, and the search of \<open>allocate_index\<close> consumes a list of clock readings, of which
  \<open>allocate_index_terminates\<close> says which are enough. Instants are nanosecond counts, valid below
  \<open>INSTANT_BOUND\<close> (the seconds of an \<open>Instant\<close> are an \<open>i64\<close>); rule versions, counters and indices
  keep their width, and arithmetic that a release build wraps is wrapped (\<open>next_counter\<close>).

  \<^bold>\<open>Not modelled.\<close> A failed \<open>send_to\<close>, except where its result is used in the sources
  (\<open>register_with_lighthouses\<close>, \<open>register_send_failed\<close>): a \<open>SendTo\<close> is the attempt. The
  scheduler of tokio, of which only the interleavings count, and the aborting of tasks when the
  future of \<open>Listener::run\<close> is dropped; \<open>eprintln\<close>; what the clocks show, which is an argument;
  that the receive loop of the session takes no more steps once it has panicked on the clock, and the
  same panic while \<open>main\<close> still builds the session; crate roots, re-exports and generated code; the
  fuzz targets of the protocol crate, which call one decoder each; tests and the fixture generator.
\<close>

end
